(* ===== verification/GoStrings.thy ===== *)
theory GoStrings
  imports Prelude
begin

text \<open>
  The functions of Go's \<open>strings\<close> and \<open>fmt\<close> packages the program calls, on byte strings:
  prefixes and suffixes, \<open>Contains\<close>, \<open>Split\<close> and \<open>Join\<close> with a one-byte separator,
  \<open>TrimSpace\<close> with Go's set of white space (the Unicode ones as their UTF-8 bytes), and
  the verbs \<open>%d\<close> and \<open>%06x\<close>. Everything here is executable.
\<close>

section \<open>Prefixes, suffixes, substrings\<close>

definition strings_HasPrefix :: "string \<Rightarrow> string \<Rightarrow> bool" where
  "strings_HasPrefix s p \<longleftrightarrow> take (length p) s = p"

definition strings_HasSuffix :: "string \<Rightarrow> string \<Rightarrow> bool" where
  "strings_HasSuffix s p \<longleftrightarrow> length p \<le> length s \<and> drop (length s - length p) s = p"

definition strings_TrimPrefix :: "string \<Rightarrow> string \<Rightarrow> string" where
  "strings_TrimPrefix s p = (if strings_HasPrefix s p then drop (length p) s else s)"

definition strings_TrimSuffix :: "string \<Rightarrow> string \<Rightarrow> string" where
  "strings_TrimSuffix s p =
     (if strings_HasSuffix s p then take (length s - length p) s else s)"

definition strings_CutPrefix :: "string \<Rightarrow> string \<Rightarrow> string \<times> bool" where
  "strings_CutPrefix s p =
     (if strings_HasPrefix s p then (drop (length p) s, True) else (s, False))"

fun strings_Contains :: "string \<Rightarrow> string \<Rightarrow> bool" where
  "strings_Contains [] p = (p = [])"
| "strings_Contains (c # s) p = (strings_HasPrefix (c # s) p \<or> strings_Contains s p)"

definition strings_ContainsAny :: "string \<Rightarrow> char list \<Rightarrow> bool" where
  "strings_ContainsAny s cs = list_ex (\<lambda>c. c \<in> set cs) s"

lemma HasPrefix_iff [go_string]: "strings_HasPrefix s p \<longleftrightarrow> (\<exists>r. s = p @ r)"
  unfolding strings_HasPrefix_def by (metis append_eq_conv_conj append_take_drop_id)

lemma HasPrefix_append [simp]: "strings_HasPrefix (p @ r) p"
  by (simp add: strings_HasPrefix_def)

lemma HasPrefix_Nil [simp]: "strings_HasPrefix s []"
  by (simp add: strings_HasPrefix_def)

lemma HasPrefix_Cons [simp]:
  "strings_HasPrefix (c # s) (d # p) \<longleftrightarrow> c = d \<and> strings_HasPrefix s p"
  by (auto simp: strings_HasPrefix_def)

lemma HasPrefix_Nil_Cons [simp]: "\<not> strings_HasPrefix [] (d # p)"
  by (simp add: strings_HasPrefix_def)

lemma HasSuffix_iff [go_string]: "strings_HasSuffix s p \<longleftrightarrow> (\<exists>r. s = r @ p)"
proof
  assume "strings_HasSuffix s p"
  then have "s = take (length s - length p) s @ p"
    unfolding strings_HasSuffix_def by (metis append_take_drop_id)
  then show "\<exists>r. s = r @ p" by blast
qed (auto simp: strings_HasSuffix_def)

lemma HasSuffix_append [simp]: "strings_HasSuffix (r @ p) p"
  by (auto simp: HasSuffix_iff)

lemma TrimPrefix_append [simp]: "strings_TrimPrefix (p @ r) p = r"
  by (simp add: strings_TrimPrefix_def)

lemma TrimSuffix_append [simp]: "strings_TrimSuffix (r @ p) p = r"
  by (simp add: strings_TrimSuffix_def)

lemma TrimSuffix_absent: "\<not> strings_HasSuffix s p \<Longrightarrow> strings_TrimSuffix s p = s"
  by (simp add: strings_TrimSuffix_def)

lemma Contains_iff [go_string]: "strings_Contains s p \<longleftrightarrow> (\<exists>a b. s = a @ p @ b)"
proof (induction s)
  case Nil
  then show ?case by auto
next
  case (Cons c s)
  have "(\<exists>a b. c # s = a @ p @ b) \<longleftrightarrow>
      (\<exists>b. c # s = p @ b) \<or> (\<exists>a b. s = a @ p @ b)"
    by (metis append_Cons append_Nil list.sel(3) neq_Nil_conv)
  with Cons show ?case by (simp add: HasPrefix_iff)
qed

lemma ContainsAny_iff [go_string]: "strings_ContainsAny s cs \<longleftrightarrow> set s \<inter> set cs \<noteq> {}"
  by (auto simp: strings_ContainsAny_def list_ex_iff)

section \<open>Split and Join\<close>

text \<open>\<open>strings.Split(s, sep)\<close> for a separator of one byte: never an empty slice.\<close>

fun strings_Split :: "char \<Rightarrow> string \<Rightarrow> string list" where
  "strings_Split sep [] = [[]]"
| "strings_Split sep (c # cs) =
     (if c = sep then [] # strings_Split sep cs
      else (case strings_Split sep cs of
              [] \<Rightarrow> [[c]] \<comment> \<open>never reached: Split returns at least one piece\<close>
            | w # ws \<Rightarrow> (c # w) # ws))"

fun strings_Join :: "string list \<Rightarrow> string \<Rightarrow> string" where
  "strings_Join [] sep = []"
| "strings_Join [x] sep = x"
| "strings_Join (x # y # xs) sep = x @ sep @ strings_Join (y # xs) sep"

lemma Split_nonempty [simp]: "strings_Split sep s \<noteq> []"
  by (induction s) (auto split: list.splits)

lemma Split_pieces_free: "w \<in> set (strings_Split sep s) \<Longrightarrow> sep \<notin> set w"
proof (induction s arbitrary: w)
  case Nil
  then show ?case by simp
next
  case (Cons c s)
  obtain v vs where "strings_Split sep s = v # vs"
    by (meson Split_nonempty neq_Nil_conv)
  with Cons show ?case by (auto split: if_splits)
qed

lemma Join_Cons: "xs \<noteq> [] \<Longrightarrow> strings_Join (x # xs) sep = x @ sep @ strings_Join xs sep"
  by (cases xs) auto

lemma Join_Split: "strings_Join (strings_Split sep s) [sep] = s"
proof (induction s)
  case Nil
  then show ?case by simp
next
  case (Cons c s)
  obtain v vs where *: "strings_Split sep s = v # vs"
    by (meson Split_nonempty neq_Nil_conv)
  with Cons show ?case by (cases vs) auto
qed

lemma Split_no_sep: "sep \<notin> set w \<Longrightarrow> strings_Split sep w = [w]"
  by (induction w) auto

lemma Split_append_sep:
  "sep \<notin> set w \<Longrightarrow> strings_Split sep (w @ sep # s) = w # strings_Split sep s"
  by (induction w) auto

lemma Split_Join:
  "ws \<noteq> [] \<Longrightarrow> (\<And>w. w \<in> set ws \<Longrightarrow> sep \<notin> set w) \<Longrightarrow>
   strings_Split sep (strings_Join ws [sep]) = ws"
proof (induction ws)
  case Nil
  then show ?case by simp
next
  case (Cons w ws)
  then show ?case
    by (cases ws) (simp_all add: Split_no_sep Split_append_sep)
qed

lemma Join_append:
  "xs \<noteq> [] \<Longrightarrow> ys \<noteq> [] \<Longrightarrow>
   strings_Join (xs @ ys) sep = strings_Join xs sep @ sep @ strings_Join ys sep"
proof (induction xs)
  case Nil
  then show ?case by simp
next
  case (Cons x xs)
  then show ?case by (cases "xs = []") (simp_all add: Join_Cons)
qed

section \<open>TrimSpace\<close>

text \<open>
  \<open>unicode.IsSpace\<close>: the ASCII spaces, and U+0085, U+00A0, U+1680, U+2000..U+200A, U+2028,
  U+2029, U+202F, U+205F, U+3000 in UTF-8.
\<close>

definition ascii_spaces :: "char list" where
  "ascii_spaces = [CHR 0x09, CHR 0x0A, CHR 0x0B, CHR 0x0C, CHR 0x0D, CHR 0x20]"

definition unicode_spaces :: "string list" where
  "unicode_spaces =
     [[CHR 0xC2, CHR 0x85], [CHR 0xC2, CHR 0xA0], [CHR 0xE1, CHR 0x9A, CHR 0x80]]
     @ map (\<lambda>n. [CHR 0xE2, CHR 0x80, char_of (n :: nat)]) [0x80..<0x8B]
     @ [[CHR 0xE2, CHR 0x80, CHR 0xA8], [CHR 0xE2, CHR 0x80, CHR 0xA9],
        [CHR 0xE2, CHR 0x80, CHR 0xAF], [CHR 0xE2, CHR 0x81, CHR 0x9F],
        [CHR 0xE3, CHR 0x80, CHR 0x80]]"

definition space_seqs :: "string list" where
  "space_seqs = map (\<lambda>c. [c]) ascii_spaces @ unicode_spaces"

fun trim_left_seqs :: "string list \<Rightarrow> nat \<Rightarrow> string \<Rightarrow> string" where
  "trim_left_seqs seqs 0 s = s"
| "trim_left_seqs seqs (Suc n) s =
     (case find (strings_HasPrefix s) seqs of
        None \<Rightarrow> s
      | Some w \<Rightarrow> trim_left_seqs seqs n (drop (length w) s))"

text \<open>
  Each round removes at least one byte, so as many rounds as the string has bytes are enough.
  The right end is the left end of the reversed string, with the sequences reversed.
\<close>

definition strings_TrimSpace :: "string \<Rightarrow> string" where
  "strings_TrimSpace s =
     (let l = trim_left_seqs space_seqs (length s) s
      in rev (trim_left_seqs (map rev space_seqs) (length l) (rev l)))"

definition no_space_ends :: "string \<Rightarrow> bool" where
  "no_space_ends s \<longleftrightarrow>
     list_all (\<lambda>w. \<not> strings_HasPrefix s w \<and> \<not> strings_HasPrefix (rev s) (rev w)) space_seqs"

lemma trim_left_seqs_id:
  "(\<And>w. w \<in> set seqs \<Longrightarrow> \<not> strings_HasPrefix s w) \<Longrightarrow> trim_left_seqs seqs n s = s"
  by (cases n) (auto simp: find_Some_iff in_set_conv_nth split: option.splits)

lemma TrimSpace_id: "no_space_ends s \<Longrightarrow> strings_TrimSpace s = s"
proof -
  assume *: "no_space_ends s"
  have l: "trim_left_seqs space_seqs (length s) s = s"
    by (rule trim_left_seqs_id) (use * in \<open>auto simp: no_space_ends_def list_all_iff\<close>)
  have "trim_left_seqs (map rev space_seqs) (length s) (rev s) = rev s"
    by (rule trim_left_seqs_id) (use * in \<open>auto simp: no_space_ends_def list_all_iff\<close>)
  with l show ?thesis by (simp add: strings_TrimSpace_def)
qed

section \<open>Verbs \<open>%d\<close> and \<open>%06x\<close>\<close>

definition digit_char :: "nat \<Rightarrow> char" where
  "digit_char d = (if d < 10 then char_of (48 + d) else char_of (87 + d))"

function digits_base :: "nat \<Rightarrow> nat \<Rightarrow> string \<Rightarrow> string" where
  "digits_base b n acc =
     (if n div b = 0 \<or> b < 2 then digit_char (n mod b) # acc
      else digits_base b (n div b) (digit_char (n mod b) # acc))"
  by pat_completeness auto
termination
  by (relation "measure (\<lambda>(b, n, acc). n)") (auto simp: div_greater_zero_iff)

declare digits_base.simps [simp del]

text \<open>\<open>fmt.Sprintf("%d", n)\<close> for \<open>n\<close> not negative.\<close>

definition fmt_d :: "nat \<Rightarrow> string" where
  "fmt_d n = digits_base 10 n []"

text \<open>\<open>fmt.Sprintf("%06x", n)\<close>: lower-case hexadecimal, padded with zeros to six digits.\<close>

definition fmt_06x :: "nat \<Rightarrow> string" where
  "fmt_06x n = (let h = digits_base 16 n [] in replicate (6 - length h) (CHR ''0'') @ h)"

text \<open>Reading digits back: the left inverse of both verbs.\<close>

definition digit_val :: "char \<Rightarrow> nat" where
  "digit_val c = (let k = of_char c in if k < 58 then k - 48 else k - 87)"

fun digits_val :: "nat \<Rightarrow> nat \<Rightarrow> string \<Rightarrow> nat" where
  "digits_val b a [] = a"
| "digits_val b a (c # cs) = digits_val b (a * b + digit_val c) cs"

lemma digit_val_char: "d < 16 \<Longrightarrow> digit_val (digit_char d) = d"
  by (auto simp: digit_val_def digit_char_def Let_def)

lemma digits_val_base:
  "2 \<le> b \<Longrightarrow> b \<le> 16 \<Longrightarrow> digits_val b 0 (digits_base b n acc) = digits_val b n acc"
proof (induction b n acc rule: digits_base.induct)
  case (1 b n acc)
  have "n mod b < b" using "1.prems" by simp
  then have "n mod b < 16" using "1.prems"(2) by (rule order_less_le_trans)
  then have "digit_val (digit_char (n mod b)) = n mod b" by (rule digit_val_char)
  moreover have "n div b * b + n mod b = n" by simp
  ultimately show ?case
    using "1.IH" "1.prems"
    by (cases "n div b = 0") (auto simp: digits_base.simps [of b n] div_eq_0_iff)
qed

lemma digits_val_zeros: "digits_val b 0 (replicate k (CHR ''0'') @ s) = digits_val b 0 s"
  by (induction k) (simp_all add: digit_val_def)

lemma digits_val_fmt_d: "digits_val 10 0 (fmt_d n) = n"
  by (simp add: fmt_d_def digits_val_base)

lemma digits_val_fmt_06x: "digits_val 16 0 (fmt_06x n) = n"
  by (simp add: fmt_06x_def Let_def digits_val_zeros digits_val_base)

lemma fmt_d_inj: "fmt_d m = fmt_d n \<longleftrightarrow> m = n"
  by (metis digits_val_fmt_d)

lemma fmt_06x_inj: "fmt_06x m = fmt_06x n \<longleftrightarrow> m = n"
  by (metis digits_val_fmt_06x)

lemma length_fmt_06x: "6 \<le> length (fmt_06x n)"
  by (simp add: fmt_06x_def Let_def)

lemma fmt_06x_nonempty [simp]: "fmt_06x n \<noteq> []"
  using length_fmt_06x [of n] by auto

text \<open>A signed number in decimal, and the digits of hexadecimal in either case.\<close>

definition fmt_int :: "int \<Rightarrow> string" where
  "fmt_int i = (if i < 0 then ''-'' @ fmt_d (nat (- i)) else fmt_d (nat i))"

definition is_hex :: "char \<Rightarrow> bool" where
  "is_hex c \<longleftrightarrow> c \<in> set ''0123456789abcdefABCDEF''"

definition hex_val :: "char \<Rightarrow> nat" where
  "hex_val c = (let k = of_char c in if k < 58 then k - 48 else if k < 71 then k - 55 else k - 87)"

lemma hex_val_digit: "d < 16 \<Longrightarrow> hex_val (digit_char d) = d"
  by (auto simp: hex_val_def digit_char_def Let_def)

lemma digit_chars: "map digit_char [0..<16] = ''0123456789abcdef''"
  by (simp add: digit_char_def char_of_def bit_0 upt_rec)

lemma is_hex_digit: "d < 16 \<Longrightarrow> is_hex (digit_char d)"
proof -
  assume "d < 16"
  then have "d \<in> set [0..<16]" by simp
  then have "digit_char d \<in> set ''0123456789abcdef''"
    unfolding digit_chars [symmetric] set_map by (rule imageI)
  then show ?thesis unfolding is_hex_def by simp blast
qed

end
