(* ===== verification/GoPath.thy ===== *)
theory GoPath
  imports GoStrings
begin

text \<open>
  Go's \<open>path/filepath\<close> on Unix: \<open>Clean\<close>, \<open>Dir\<close>, \<open>Join\<close> and \<open>IsAbs\<close> on byte strings,
  computed on the list of path components. The lemmas give what the program relies on: a
  cleaned absolute path has no \<open>.\<close>, \<open>..\<close> or empty component, \<open>Clean\<close> is idempotent, and
  \<open>Dir\<close> on such a path drops the last component.
\<close>

abbreviation (input) slash :: char where "slash \<equiv> CHR ''/''"

section \<open>Definitions\<close>

definition filepath_IsAbs :: "string \<Rightarrow> bool" where
  "filepath_IsAbs p = strings_HasPrefix p ''/''"

text \<open>
  \<open>Clean\<close> walks the components with a stack (kept reversed): an empty component and \<open>.\<close>
  are dropped, \<open>..\<close> removes the last kept component, is dropped at the root, and is kept
  where a relative path has nothing left to remove.
\<close>

fun clean_comps :: "bool \<Rightarrow> string list \<Rightarrow> string list \<Rightarrow> string list" where
  "clean_comps rooted [] st = rev st"
| "clean_comps rooted (c # cs) st =
     (if c = [] \<or> c = ''.'' then clean_comps rooted cs st
      else if c = ''..'' then
        (case st of
           [] \<Rightarrow> clean_comps rooted cs (if rooted then [] else [''..''])
         | t # ts \<Rightarrow> clean_comps rooted cs (if t = ''..'' then ''..'' # st else ts))
      else clean_comps rooted cs (c # st))"

definition render_path :: "bool \<Rightarrow> string list \<Rightarrow> string" where
  "render_path rooted cs =
     (if rooted then ''/'' @ strings_Join cs ''/''
      else if cs = [] then ''.'' else strings_Join cs ''/'')"

definition filepath_Clean :: "string \<Rightarrow> string" where
  "filepath_Clean p =
     render_path (filepath_IsAbs p) (clean_comps (filepath_IsAbs p) (strings_Split slash p) [])"

text \<open>\<open>Dir\<close>: the path up to and including the last slash, cleaned.\<close>

definition filepath_Dir :: "string \<Rightarrow> string" where
  "filepath_Dir p = filepath_Clean (rev (dropWhile (\<lambda>c. c \<noteq> slash) (rev p)))"

fun filepath_Join :: "string list \<Rightarrow> string" where
  "filepath_Join [] = []"
| "filepath_Join (e # es) =
     (if e = [] then filepath_Join es else filepath_Clean (strings_Join (e # es) ''/''))"

section \<open>Well-formed components\<close>

definition path_comp :: "string \<Rightarrow> bool" where
  "path_comp c \<longleftrightarrow> c \<noteq> [] \<and> c \<noteq> ''.'' \<and> c \<noteq> ''..'' \<and> slash \<notin> set c"

text \<open>The absolute path with the given components, and the cleaned absolute paths.\<close>

definition abs_path :: "string list \<Rightarrow> string" where
  "abs_path cs = ''/'' @ strings_Join cs ''/''"

definition clean_abs :: "string \<Rightarrow> bool" where
  "clean_abs p \<longleftrightarrow> filepath_IsAbs p \<and> filepath_Clean p = p"

lemma IsAbs_abs_path [simp]: "filepath_IsAbs (abs_path cs)"
  by (simp add: filepath_IsAbs_def abs_path_def)

lemma IsAbs_Cons: "filepath_IsAbs p \<longleftrightarrow> (\<exists>q. p = slash # q)"
  by (auto simp: filepath_IsAbs_def HasPrefix_iff)

text \<open>Rooted, the result holds proper components only; relative, perhaps some leading \<open>..\<close>.\<close>

lemma comp_cases:
  assumes "slash \<notin> set c"
  obtains "c = [] \<or> c = ''.''" | "c = ''..''" | "path_comp c"
  using assms by (auto simp: path_comp_def)

lemma clean_comps_skip: "c = [] \<or> c = ''.'' \<Longrightarrow> clean_comps r (c # cs) st = clean_comps r cs st"
  by simp

lemma clean_comps_dotdot_Nil:
  "clean_comps r (''..'' # cs) [] = clean_comps r cs (if r then [] else [''..''])"
  by simp

lemma clean_comps_dotdot_pop:
  "t \<noteq> ''..'' \<Longrightarrow> clean_comps r (''..'' # cs) (t # ts) = clean_comps r cs ts"
  by simp

lemma clean_comps_dotdot_keep:
  "clean_comps r (''..'' # cs) (''..'' # ts) = clean_comps r cs (''..'' # ''..'' # ts)"
  by simp

lemma clean_comps_push: "path_comp c \<Longrightarrow> clean_comps r (c # cs) st = clean_comps r cs (c # st)"
  by (simp add: path_comp_def)

lemma clean_comps_rooted:
  "\<forall>c \<in> set cs. slash \<notin> set c \<Longrightarrow> \<forall>c \<in> set st. path_comp c \<Longrightarrow>
   \<forall>d \<in> set (clean_comps True cs st). path_comp d"
proof (induction cs arbitrary: st)
  case Nil
  then show ?case by simp
next
  case (Cons c cs)
  then have cs: "\<forall>c \<in> set cs. slash \<notin> set c" and c: "slash \<notin> set c" by auto
  note IH = Cons.IH [OF cs]
  from c show ?case
  proof (cases rule: comp_cases)
    case 1
    then show ?thesis using IH [OF Cons.prems(2)] by (simp only: clean_comps_skip)
  next
    case 2
    show ?thesis
    proof (cases st)
      case Nil
      then show ?thesis using IH [of "[]"] 2 by (simp add: clean_comps_dotdot_Nil del: clean_comps.simps)
    next
      case (Cons t ts)
      then have "t \<noteq> ''..''" using \<open>\<forall>c \<in> set st. path_comp c\<close> by (auto simp: path_comp_def)
      with 2 Cons have "clean_comps True (c # cs) st = clean_comps True cs ts"
        by (simp only: clean_comps_dotdot_pop not_False_eq_True)
      moreover have "\<forall>c \<in> set ts. path_comp c"
        using \<open>\<forall>c \<in> set st. path_comp c\<close> Cons by simp
      ultimately show ?thesis using IH [of ts] by (simp only:)
    qed
  next
    case 3
    with Cons.prems(2) have "\<forall>d \<in> set (c # st). path_comp d" by simp
    with IH [of "c # st"] 3 show ?thesis by (simp only: clean_comps_push)
  qed
qed

lemma clean_comps_id:
  "(\<And>c. c \<in> set cs \<Longrightarrow> path_comp c) \<Longrightarrow> clean_comps r cs st = rev st @ cs"
  by (induction cs arbitrary: st) (auto simp: path_comp_def)

text \<open>A relative result: some \<open>..\<close> first, then proper components.\<close>

definition rel_comps :: "string list \<Rightarrow> bool" where
  "rel_comps cs \<longleftrightarrow> (\<exists>k ds. cs = replicate k ''..'' @ ds \<and> (\<forall>d \<in> set ds. path_comp d))"

lemma rel_comps_pop:
  assumes "rel_comps (rev (t # ts))" "t \<noteq> ''..''"
  shows "rel_comps (rev ts)"
proof -
  obtain k ds where ds: "rev ts @ [t] = replicate k ''..'' @ ds" "\<forall>d \<in> set ds. path_comp d"
    using assms(1) by (auto simp: rel_comps_def)
  show ?thesis
  proof (cases ds rule: rev_cases)
    case Nil
    with ds(1) have "t = ''..''"
      by (metis append_Nil2 last_replicate last_snoc append_is_Nil_conv list.distinct(1) replicate_0)
    with assms(2) show ?thesis by simp
  next
    case (snoc es e)
    with ds have "rev ts = replicate k ''..'' @ es" by simp
    with ds(2) snoc show ?thesis by (auto simp: rel_comps_def)
  qed
qed

lemma rel_comps_dotdot:
  assumes "rel_comps (rev (''..'' # ts))"
  shows "rel_comps (rev (''..'' # ''..'' # ts))"
proof -
  obtain k ds where ds: "rev ts @ [''..''] = replicate k ''..'' @ ds" "\<forall>d \<in> set ds. path_comp d"
    using assms by (auto simp: rel_comps_def)
  have "ds = []"
    by (rule rev_exhaust [of ds]) (use ds in \<open>auto simp: path_comp_def\<close>)
  with ds(1) have "rev (''..'' # ''..'' # ts) = replicate (Suc k) ''..'' @ []"
    by (simp add: replicate_append_same)
  then show ?thesis unfolding rel_comps_def by (metis empty_iff empty_set)
qed

lemma rel_comps_push: "rel_comps (rev st) \<Longrightarrow> path_comp c \<Longrightarrow> rel_comps (rev (c # st))"
  unfolding rel_comps_def
  by (metis append.assoc rev.simps(2) set_append UnE empty_iff empty_set set_ConsD)

lemma clean_comps_rel:
  "\<forall>c \<in> set cs. slash \<notin> set c \<Longrightarrow> rel_comps (rev st) \<Longrightarrow>
   rel_comps (clean_comps False cs st)"
proof (induction cs arbitrary: st)
  case Nil
  then show ?case by simp
next
  case (Cons c cs)
  then have cs: "\<forall>c \<in> set cs. slash \<notin> set c" and c: "slash \<notin> set c" by auto
  note IH = Cons.IH [OF cs]
  from c show ?case
  proof (cases rule: comp_cases)
    case 1
    then show ?thesis using IH [OF Cons.prems(2)] by (simp only: clean_comps_skip)
  next
    case 2
    show ?thesis
    proof (cases st)
      case Nil
      have "rel_comps (rev [''..''])"
        unfolding rel_comps_def by (rule exI [of _ 1], rule exI [of _ "[]"]) simp
      then show ?thesis using IH [of "[''..'']"] 2 Nil
        by (simp only: clean_comps_dotdot_Nil if_False)
    next
      case (Cons t ts)
      show ?thesis
      proof (cases "t = ''..''")
        case True
        then show ?thesis
          using IH [OF rel_comps_dotdot [of ts]] 2 Cons \<open>rel_comps (rev st)\<close>
          by (simp only: clean_comps_dotdot_keep)
      next
        case False
        then show ?thesis
          using IH [OF rel_comps_pop [of t ts]] 2 Cons \<open>rel_comps (rev st)\<close>
          by (simp only: clean_comps_dotdot_pop not_False_eq_True)
      qed
    qed
  next
    case 3
    then show ?thesis
      using IH [OF rel_comps_push [OF Cons.prems(2) 3]] by (simp only: clean_comps_push)
  qed
qed

section \<open>Clean\<close>

text \<open>The components of a cleaned path, and the cleaned path in terms of them.\<close>

definition clean_list :: "string \<Rightarrow> string list" where
  "clean_list p = clean_comps (filepath_IsAbs p) (strings_Split slash p) []"

lemma Clean_render: "filepath_Clean p = render_path (filepath_IsAbs p) (clean_list p)"
  by (simp add: filepath_Clean_def clean_list_def)

lemma clean_list_comps: "filepath_IsAbs p \<Longrightarrow> \<forall>d \<in> set (clean_list p). path_comp d"
  unfolding clean_list_def
  using clean_comps_rooted [of "strings_Split slash p" "[]"] by (auto dest: Split_pieces_free)

lemma clean_list_rel: "\<not> filepath_IsAbs p \<Longrightarrow> rel_comps (clean_list p)"
  unfolding clean_list_def
  using clean_comps_rel [of "strings_Split slash p" "[]"]
  by (force dest: Split_pieces_free simp: rel_comps_def)

lemma Clean_abs: "filepath_IsAbs p \<Longrightarrow> filepath_Clean p = abs_path (clean_list p)"
  by (simp add: Clean_render render_path_def abs_path_def)

lemma Split_abs_path:
  "\<forall>c \<in> set cs. path_comp c \<Longrightarrow>
   strings_Split slash (abs_path cs) = [] # (if cs = [] then [[]] else cs)"
proof (cases "cs = []")
  case True
  then show ?thesis by (simp add: abs_path_def)
next
  case False
  assume "\<forall>c \<in> set cs. path_comp c"
  then have "strings_Split slash (strings_Join cs [slash]) = cs"
    using False by (intro Split_Join) (auto simp: path_comp_def)
  with False show ?thesis by (simp add: abs_path_def)
qed

lemma clean_list_abs_path:
  assumes "\<forall>c \<in> set cs. path_comp c"
  shows "clean_list (abs_path cs) = cs"
proof (cases "cs = []")
  case True
  then show ?thesis by (simp add: clean_list_def Split_abs_path)
next
  case False
  then show ?thesis
    using assms by (simp add: clean_list_def Split_abs_path clean_comps_id del: clean_comps.simps)
      (simp add: clean_comps_skip clean_comps_id)
qed

lemma Clean_abs_path:
  assumes "\<forall>c \<in> set cs. path_comp c"
  shows "filepath_Clean (abs_path cs) = abs_path cs"
  using assms by (simp add: Clean_abs clean_list_abs_path)

text \<open>Cleaning neither makes a path absolute nor relative.\<close>

lemma rel_comps_no_slash:
  assumes "rel_comps cs" "c \<in> set cs"
  shows "c \<noteq> [] \<and> slash \<notin> set c"
proof -
  obtain k ds where "cs = replicate k ''..'' @ ds" "\<forall>d \<in> set ds. path_comp d"
    using assms(1) by (auto simp only: rel_comps_def)
  with assms(2) have "c = ''..'' \<or> path_comp c" by (auto simp only: set_append set_replicate_conv_if split: if_splits)
  then show ?thesis by (auto simp: path_comp_def)
qed

lemma IsAbs_Clean [simp]: "filepath_IsAbs (filepath_Clean p) = filepath_IsAbs p"
proof (cases "filepath_IsAbs p")
  case True
  then show ?thesis by (simp add: Clean_abs)
next
  case False
  note rel = clean_list_rel [OF False]
  show ?thesis
  proof (cases "clean_list p")
    case Nil
    with False show ?thesis by (simp add: Clean_render render_path_def filepath_IsAbs_def)
  next
    case (Cons c cs)
    from rel_comps_no_slash [OF rel, of c] Cons obtain a w where "c = a # w" "a \<noteq> slash"
      by (cases c) auto
    with Cons False show ?thesis
      by (cases cs) (simp_all add: Clean_render render_path_def IsAbs_Cons)
  qed
qed

lemma clean_absI: "filepath_IsAbs p \<Longrightarrow> clean_abs (filepath_Clean p)"
  by (metis Clean_abs Clean_abs_path IsAbs_abs_path clean_abs_def clean_list_comps)

lemma clean_absE:
  assumes "clean_abs p"
  obtains cs where "p = abs_path cs" "\<forall>c \<in> set cs. path_comp c"
  using assms clean_list_comps [of p] by (metis Clean_abs clean_abs_def)

lemma clean_abs_path: "\<forall>c \<in> set cs. path_comp c \<Longrightarrow> clean_abs (abs_path cs)"
  by (simp add: clean_abs_def Clean_abs_path)

section \<open>Dir\<close>

text \<open>The part of a path that \<open>Dir\<close> cleans: everything up to its last slash.\<close>

definition dir_prefix :: "string \<Rightarrow> string" where
  "dir_prefix p = rev (dropWhile (\<lambda>c. c \<noteq> slash) (rev p))"

lemma Dir_prefix: "filepath_Dir p = filepath_Clean (dir_prefix p)"
  by (simp add: filepath_Dir_def dir_prefix_def)

lemma dir_prefix_snoc: "slash \<notin> set w \<Longrightarrow> dir_prefix (q @ slash # w) = q @ ''/''"
proof -
  assume "slash \<notin> set w"
  then have "dropWhile (\<lambda>c. c \<noteq> slash) (rev w @ slash # rev q) = slash # rev q"
    by (intro dropWhile_append_stop) auto
  then show ?thesis by (simp add: dir_prefix_def)
qed

lemma dir_prefix_cases:
  obtains "dir_prefix p = []" "slash \<notin> set p"
  | q w where "p = q @ slash # w" "slash \<notin> set w" "dir_prefix p = q @ ''/''"
proof (cases "slash \<in> set p")
  case True
  then obtain q w where "p = q @ slash # w" "slash \<notin> set w" by (meson split_list_last)
  then show ?thesis using that(2) dir_prefix_snoc by blast
next
  case False
  then have "dropWhile (\<lambda>c. c \<noteq> slash) (rev p) = []" by (auto simp: dropWhile_eq_Nil_conv)
  with False show ?thesis using that(1) by (simp add: dir_prefix_def)
qed

lemma Split_append: "strings_Split sep (a @ sep # b) = strings_Split sep a @ strings_Split sep b"
proof (induction a)
  case Nil
  then show ?case by simp
next
  case (Cons c a)
  obtain v vs where "strings_Split sep a = v # vs"
    by (meson Split_nonempty neq_Nil_conv)
  with Cons show ?case by simp
qed

lemma clean_comps_snoc_empty: "clean_comps r (cs @ [[]]) st = clean_comps r cs st"
  by (induction r cs st rule: clean_comps.induct) (auto split: list.splits)

lemma IsAbs_append: "q \<noteq> [] \<Longrightarrow> filepath_IsAbs (q @ r) = filepath_IsAbs q"
  by (cases q) (auto simp: IsAbs_Cons)

lemma clean_list_slash:
  assumes "q \<noteq> []"
  shows "clean_list (q @ ''/'') = clean_list q"
proof -
  have "strings_Split slash (q @ ''/'') = strings_Split slash q @ [[]]"
    using Split_append [of slash q "[]"] by simp
  with assms show ?thesis
    by (simp only: clean_list_def IsAbs_append clean_comps_snoc_empty if_False simp_thms)
qed

lemma Clean_slash: "q \<noteq> [] \<Longrightarrow> filepath_Clean (q @ ''/'') = filepath_Clean q"
  by (simp only: Clean_render clean_list_slash IsAbs_append simp_thms)

lemma Dir_abs_path:
  assumes "\<forall>d \<in> set (cs @ [c]). path_comp d"
  shows "filepath_Dir (abs_path (cs @ [c])) = abs_path cs"
proof -
  have c: "slash \<notin> set c" and cs: "\<forall>d \<in> set cs. path_comp d"
    using assms by (auto simp: path_comp_def)
  show ?thesis
  proof (cases "cs = []")
    case True
    with c dir_prefix_snoc [of c "[]"] show ?thesis
      by (simp add: Dir_prefix abs_path_def) (simp add: filepath_Clean_def filepath_IsAbs_def render_path_def)
  next
    case False
    then have "abs_path (cs @ [c]) = abs_path cs @ slash # c"
      by (simp add: abs_path_def Join_append)
    then show ?thesis
      using dir_prefix_snoc [OF c, of "abs_path cs"] Clean_slash [of "abs_path cs"] Clean_abs_path [OF cs]
      by (simp add: Dir_prefix abs_path_def)
  qed
qed

text \<open>
  \<open>Dir\<close> shortens a path until it is \<open>/\<close> or \<open>.\<close>: the loop over a path's ancestors ends.
  The weight of a component list counts each component and its separator.
\<close>

definition comps_weight :: "string list \<Rightarrow> nat" where
  "comps_weight cs = sum_list (map (\<lambda>c. Suc (length c)) cs)"

lemma comps_weight_simps [simp]:
  "comps_weight [] = 0" "comps_weight (c # cs) = Suc (length c) + comps_weight cs"
  "comps_weight (cs @ ds) = comps_weight cs + comps_weight ds"
  "comps_weight (rev cs) = comps_weight cs"
  by (simp_all add: comps_weight_def rev_map [symmetric])

lemma length_Join: "cs \<noteq> [] \<Longrightarrow> Suc (length (strings_Join cs ''/'')) = comps_weight cs"
proof (induction cs)
  case Nil
  then show ?case by simp
next
  case (Cons c cs)
  then show ?case by (cases cs) simp_all
qed

lemma weight_Split: "comps_weight (strings_Split sep s) = Suc (length s)"
proof (induction s)
  case Nil
  then show ?case by simp
next
  case (Cons c s)
  obtain v vs where "strings_Split sep s = v # vs"
    by (meson Split_nonempty neq_Nil_conv)
  with Cons show ?case by auto
qed

lemma weight_clean_comps: "comps_weight (clean_comps r cs st) \<le> comps_weight st + comps_weight cs"
proof (induction r cs st rule: clean_comps.induct)
  case (1 r st)
  then show ?case by simp
next
  case (2 r c cs st)
  consider "c = [] \<or> c = ''.''" | "c = ''..''" "st = []"
    | t ts where "c = ''..''" "st = t # ts" | "c \<noteq> []" "c \<noteq> ''.''" "c \<noteq> ''..''"
    by (cases st) auto
  then show ?case
  proof cases
    case 1
    then show ?thesis using "2.IH"(1) by (simp only: clean_comps_skip) (simp add: 1)
  next
    case 2
    then show ?thesis using "2.IH"(2) by (cases r) auto
  next
    case 3
    then show ?thesis using "2.IH"(3) [of t ts] by (cases "t = ''..''") auto
  next
    case 4
    then show ?thesis using "2.IH"(4) by simp
  qed
qed

lemma length_Clean_slash:
  assumes "q \<noteq> []"
  shows "filepath_Clean q \<in> {''/'', ''.''} \<or> length (filepath_Clean q) \<le> length q"
proof (cases "filepath_IsAbs q")
  case True
  then obtain q' where q: "q = slash # q'" by (auto simp: IsAbs_Cons)
  then have "comps_weight (clean_list q) \<le> Suc (length q')"
    using weight_clean_comps [of True "strings_Split slash q'" "[]"]
    by (simp add: clean_list_def filepath_IsAbs_def weight_Split)
  then show ?thesis
    using length_Join [of "clean_list q"] True q
    by (cases "clean_list q = []") (auto simp: Clean_render render_path_def)
next
  case False
  have "comps_weight (clean_list q) \<le> Suc (length q)"
    using weight_clean_comps [of False "strings_Split slash q" "[]"] False
    by (simp add: clean_list_def weight_Split)
  then show ?thesis
    using length_Join [of "clean_list q"] False
    by (cases "clean_list q = []") (auto simp: Clean_render render_path_def)
qed

lemma Dir_shorter: "filepath_Dir p \<in> {''/'', ''.''} \<or> length (filepath_Dir p) < length p"
proof (cases p rule: dir_prefix_cases)
  case 1
  then have "filepath_Dir p = ''.''"
    by (simp add: Dir_prefix filepath_Clean_def filepath_IsAbs_def render_path_def)
  then show ?thesis by simp
next
  case (2 q w)
  show ?thesis
  proof (cases "q = []")
    case True
    with 2 have "filepath_Dir p = ''/''"
      by (simp add: Dir_prefix filepath_Clean_def filepath_IsAbs_def render_path_def)
    then show ?thesis by simp
  next
    case False
    then show ?thesis
      using length_Clean_slash [of q] 2 Clean_slash [of q] by (auto simp: Dir_prefix)
  qed
qed

end
