(* ===== verification/GoMatch.thy ===== *)
theory GoMatch
  imports GoStrings
begin

text \<open>
  Go's \<open>filepath.Match\<close> on Unix, with its chunk scanner, its character classes and its UTF-8
  decoding, on byte strings. A malformed pattern (\<open>ErrBadPattern\<close>) is \<open>None\<close>. The lemmas
  give the three facts the env filter rests on: whether a pattern is malformed does not
  depend on the name, a pattern without meta characters matches itself only, and a trailing
  star matches a family of names.
\<close>

section \<open>Runes\<close>

abbreviation (input) "rune_error \<equiv> (0xFFFD :: nat)"

definition in_range :: "char \<Rightarrow> nat \<Rightarrow> nat \<Rightarrow> bool" where
  "in_range c lo hi \<longleftrightarrow> lo \<le> of_char c \<and> of_char c \<le> hi"

definition low6 :: "char \<Rightarrow> nat" where
  "low6 c = of_char c - 0x80"

text \<open>\<open>utf8.DecodeRuneInString\<close>: the rune and its width; an invalid byte is \<open>(0xFFFD, 1)\<close>.\<close>

definition decode_rune :: "string \<Rightarrow> nat \<times> nat" where
  "decode_rune s = (case s of [] \<Rightarrow> (rune_error, 0) | c # t \<Rightarrow>
     (let b = of_char c :: nat in
      if b < 0x80 then (b, 1)
      else if 0xC2 \<le> b \<and> b \<le> 0xDF then
        (case t of c1 # _ \<Rightarrow>
           if in_range c1 0x80 0xBF then ((b - 0xC0) * 64 + low6 c1, 2) else (rune_error, 1)
         | _ \<Rightarrow> (rune_error, 1))
      else if 0xE0 \<le> b \<and> b \<le> 0xEF then
        (case t of c1 # c2 # _ \<Rightarrow>
           if in_range c1 (if b = 0xE0 then 0xA0 else 0x80) (if b = 0xED then 0x9F else 0xBF)
              \<and> in_range c2 0x80 0xBF
           then ((b - 0xE0) * 4096 + low6 c1 * 64 + low6 c2, 3) else (rune_error, 1)
         | _ \<Rightarrow> (rune_error, 1))
      else if 0xF0 \<le> b \<and> b \<le> 0xF4 then
        (case t of c1 # c2 # c3 # _ \<Rightarrow>
           if in_range c1 (if b = 0xF0 then 0x90 else 0x80) (if b = 0xF4 then 0x8F else 0xBF)
              \<and> in_range c2 0x80 0xBF \<and> in_range c3 0x80 0xBF
           then ((b - 0xF0) * 262144 + low6 c1 * 4096 + low6 c2 * 64 + low6 c3, 4)
           else (rune_error, 1)
         | _ \<Rightarrow> (rune_error, 1))
      else (rune_error, 1)))"

lemma decode_rune_width: "s \<noteq> [] \<Longrightarrow> 0 < snd (decode_rune s)"
  by (auto simp: decode_rune_def Let_def split: list.splits)

section \<open>Scanning and matching one chunk\<close>

text \<open>\<open>scanChunk\<close>: leading stars, then the bytes up to the next star outside a class.\<close>

fun scan_rest :: "bool \<Rightarrow> string \<Rightarrow> string \<times> string" where
  "scan_rest inrange [] = ([], [])"
| "scan_rest inrange (c # cs) =
     (if c = CHR 0x5C then
        (case cs of [] \<Rightarrow> ([c], [])
         | d # ds \<Rightarrow> (let (a, b) = scan_rest inrange ds in (c # d # a, b)))
      else if c = CHR ''*'' \<and> \<not> inrange then ([], c # cs)
      else (let (a, b) = scan_rest (if c = CHR ''['' then True
                                    else if c = CHR '']'' then False else inrange) cs
            in (c # a, b)))"

definition scanChunk :: "string \<Rightarrow> bool \<times> string \<times> string" where
  "scanChunk p =
     (let q = dropWhile (\<lambda>c. c = CHR ''*'') p
      in (strings_HasPrefix p ''*'', scan_rest False q))"

text \<open>\<open>getEsc\<close>: one possibly escaped rune of a class; the class must go on after it.\<close>

definition getEsc :: "string \<Rightarrow> (nat \<times> string) option" where
  "getEsc chunk = (case chunk of [] \<Rightarrow> None | c # t \<Rightarrow>
     if c = CHR ''-'' \<or> c = CHR '']'' then None
     else (let body = (if c = CHR 0x5C then t else chunk) in
       if body = [] then None
       else (let r = fst (decode_rune body); n = snd (decode_rune body); nchunk = drop n body in
         if r = rune_error \<and> n = 1 \<or> nchunk = [] then None else Some (r, nchunk))))"

lemma getEsc_shorter: "getEsc chunk = Some (r, rest) \<Longrightarrow> length rest < length chunk"
  using decode_rune_width [of chunk] decode_rune_width [of "tl chunk"]
  by (auto simp: getEsc_def Let_def split: list.splits if_splits)

text \<open>The loop over the ranges of a character class; the class ends at \<open>]\<close> after a range.\<close>

function class_loop :: "nat \<Rightarrow> string \<Rightarrow> nat \<Rightarrow> bool \<Rightarrow> (string \<times> bool) option" where
  "class_loop r chunk nrange m =
     (if chunk \<noteq> [] \<and> hd chunk = CHR '']'' \<and> 0 < nrange then Some (tl chunk, m)
      else (case getEsc chunk of None \<Rightarrow> None
        | Some (lo, ch1) \<Rightarrow>
          (if hd ch1 = CHR ''-'' then
             (case getEsc (tl ch1) of None \<Rightarrow> None
              | Some (hi, ch2) \<Rightarrow> class_loop r ch2 (Suc nrange) (m \<or> lo \<le> r \<and> r \<le> hi))
           else class_loop r ch1 (Suc nrange) (m \<or> lo = r))))"
  by pat_completeness auto
termination
  by (relation "measure (\<lambda>(r, chunk, n, m). length chunk)")
    (auto dest!: getEsc_shorter)

declare class_loop.simps [simp del]

lemma class_loop_shorter: "class_loop r chunk n m = Some (rest, b) \<Longrightarrow> length rest < length chunk"
proof (induction r chunk n m rule: class_loop.induct)
  case (1 r chunk n m)
  show ?case
  proof (cases "chunk \<noteq> [] \<and> hd chunk = CHR '']'' \<and> 0 < n")
    case True
    with "1.prems" show ?thesis by (auto simp: class_loop.simps [of r chunk])
  next
    case False
    then obtain lo ch1 where g: "getEsc chunk = Some (lo, ch1)"
      using "1.prems" by (auto simp: class_loop.simps [of r chunk] split: option.splits)
    note len = getEsc_shorter [OF g]
    show ?thesis
    proof (cases "hd ch1 = CHR ''-''")
      case True
      then obtain hi ch2 where g2: "getEsc (tl ch1) = Some (hi, ch2)"
        using "1.prems" False g by (auto simp: class_loop.simps [of r chunk] split: option.splits)
      have "length rest < length ch2"
        using "1.IH"(1) [OF False g refl True g2 refl] "1.prems" False g True g2
        by (simp add: class_loop.simps [of r chunk])
      with len getEsc_shorter [OF g2] show ?thesis by simp
    next
      case nd: False
      have "length rest < length ch1"
        using "1.IH"(2) [OF False g refl nd] "1.prems" False g nd
        by (simp add: class_loop.simps [of r chunk])
      with len show ?thesis by simp
    qed
  qed
qed

datatype chunk_result = ChunkBad | ChunkFail | ChunkOk string

definition class_start :: "string \<Rightarrow> bool \<times> string" where
  "class_start t = (case t of d # u \<Rightarrow> if d = CHR ''^'' then (True, u) else (False, t)
                    | [] \<Rightarrow> (False, t))"

lemma class_start_length: "length (snd (class_start t)) \<le> length t"
  by (auto simp: class_start_def split: list.splits)

lemma class_loop_shorter_start:
  "class_loop r (snd (class_start t)) n m = Some (ch, b) \<Longrightarrow> length ch < Suc (length t)"
  using class_loop_shorter [of r "snd (class_start t)" n m ch b] class_start_length [of t]
  by simp

text \<open>
  \<open>matchChunk\<close>: once the match has failed, the loop goes on over the chunk only to check its
  syntax and reads the name no more.
\<close>

function matchChunk :: "string \<Rightarrow> string \<Rightarrow> bool \<Rightarrow> chunk_result" where
  "matchChunk [] s failed = (if failed then ChunkFail else ChunkOk s)"
| "matchChunk (c # t) s failed0 =
     (let failed = (failed0 \<or> s = []) in
      if c = CHR ''['' then
        (let r = (if failed then 0 else fst (decode_rune s));
             s' = (if failed then s else drop (snd (decode_rune s)) s)
         in case class_loop r (snd (class_start t)) 0 False of None \<Rightarrow> ChunkBad
            | Some (ch, m) \<Rightarrow> matchChunk ch s' (failed \<or> m = fst (class_start t)))
      else if c = CHR ''?'' then
        (if failed then matchChunk t s True
         else matchChunk t (drop (snd (decode_rune s)) s) (hd s = CHR ''/''))
      else if c = CHR 0x5C then
        (case t of [] \<Rightarrow> ChunkBad
         | d # u \<Rightarrow> if failed then matchChunk u s True else matchChunk u (tl s) (d \<noteq> hd s))
      else if failed then matchChunk t s True else matchChunk t (tl s) (c \<noteq> hd s))"
  by pat_completeness auto
termination
  by (relation "measure (\<lambda>(chunk, s, f). length chunk)")
    (simp_all, metis class_loop_shorter_start)

declare matchChunk.simps(2) [simp del]

section \<open>Match\<close>

datatype star_result = StarBad | StarNone | StarAt string

text \<open>The loop that skips bytes of the name under a star; it cannot skip a slash.\<close>

fun star_search :: "string \<Rightarrow> bool \<Rightarrow> string \<Rightarrow> star_result" where
  "star_search chunk last_chunk [] = StarNone"
| "star_search chunk last_chunk (c # name) =
     (if c = CHR ''/'' then StarNone
      else (case matchChunk chunk name False of
              ChunkBad \<Rightarrow> StarBad
            | ChunkFail \<Rightarrow> star_search chunk last_chunk name
            | ChunkOk t \<Rightarrow> if last_chunk \<and> t \<noteq> [] then star_search chunk last_chunk name
                         else StarAt t))"

lemma snd_scan_rest_esc:
  "snd (scan_rest b (CHR 0x5C # cs)) = (case cs of [] \<Rightarrow> [] | d # ds \<Rightarrow> snd (scan_rest b ds))"
  by (simp add: case_prod_beta split: list.split)

lemma snd_scan_rest_star: "snd (scan_rest False (CHR ''*'' # cs)) = CHR ''*'' # cs"
  by simp

lemma snd_scan_rest_other:
  assumes "c \<noteq> CHR 0x5C" and ns: "\<not> (c = CHR ''*'' \<and> \<not> b)"
  shows "snd (scan_rest b (c # cs)) =
     snd (scan_rest (if c = CHR ''['' then True else if c = CHR '']'' then False else b) cs)"
  by (subst scan_rest.simps, subst if_not_P [OF assms(1)], subst if_not_P [OF ns])
    (simp add: case_prod_beta)

lemma scan_rest_length: "length (snd (scan_rest b p)) \<le> length p"
proof (induction b p rule: scan_rest.induct)
  case (1 b)
  then show ?case by simp
next
  case (2 b c cs)
  consider "c = CHR 0x5C" | "c = CHR ''*'' \<and> \<not> b" "c \<noteq> CHR 0x5C"
    | "c \<noteq> CHR 0x5C" "\<not> (c = CHR ''*'' \<and> \<not> b)" by blast
  then show ?case
  proof cases
    case 1
    then show ?thesis
      using "2.IH"(1) by (cases cs) (simp_all only: snd_scan_rest_esc list.case list.size, simp_all)
  next
    case 2
    then show ?thesis by simp
  next
    case 3
    from "2.IH"(2) [OF 3] show ?thesis
      by (simp only: snd_scan_rest_other [OF 3] list.size)
  qed
qed

lemma scan_rest_shorter:
  assumes "p \<noteq> []" "hd p \<noteq> CHR ''*''"
  shows "length (snd (scan_rest False p)) < length p"
proof -
  obtain c cs where p: "p = c # cs" "c \<noteq> CHR ''*''" using assms by (cases p) auto
  show ?thesis
  proof (cases "c = CHR 0x5C")
    case True
    show ?thesis
    proof (cases cs)
      case Nil
      then show ?thesis by (simp only: p True snd_scan_rest_esc) simp
    next
      case (Cons d ds)
      then show ?thesis
        using scan_rest_length [of False ds] by (simp only: p True snd_scan_rest_esc) simp
    qed
  next
    case False
    then have "\<not> (c = CHR ''*'' \<and> \<not> False)" using p by simp
    from scan_rest_length snd_scan_rest_other [OF False this, of cs] show ?thesis
      by (simp only: p list.size) (simp add: less_Suc_eq_le)
  qed
qed

lemma scanChunk_shorter: "p \<noteq> [] \<Longrightarrow> length (snd (snd (scanChunk p))) < length p"
proof -
  assume p: "p \<noteq> []"
  let ?q = "dropWhile (\<lambda>c. c = CHR ''*'') p"
  have le: "length ?q \<le> length p" by (rule length_dropWhile_le)
  show ?thesis
  proof (cases "?q = []")
    case True
    with p show ?thesis unfolding scanChunk_def Let_def snd_conv by (simp only: True) simp
  next
    case False
    then have "length (snd (scan_rest False ?q)) < length ?q"
      by (intro scan_rest_shorter) (use hd_dropWhile in blast)+
    with le show ?thesis by (simp add: scanChunk_def Let_def)
  qed
qed

text \<open>The final check that the rest of the pattern is well formed.\<close>

function patterns_ok :: "string \<Rightarrow> bool" where
  "patterns_ok p =
     (if p = [] then True
      else if matchChunk (fst (snd (scanChunk p))) [] False = ChunkBad then False
      else patterns_ok (snd (snd (scanChunk p))))"
  by pat_completeness auto
termination
  by (relation "measure length") (simp_all add: scanChunk_shorter)

declare patterns_ok.simps [simp del]

text \<open>\<open>filepath.Match(pattern, name)\<close>; \<open>None\<close> is \<open>ErrBadPattern\<close>.\<close>

function filepath_Match :: "string \<Rightarrow> string \<Rightarrow> bool option" where
  "filepath_Match p name =
     (if p = [] then Some (name = [])
      else let star = fst (scanChunk p); chunk = fst (snd (scanChunk p));
               rest = snd (snd (scanChunk p)) in
        if star \<and> chunk = [] then Some (\<not> strings_Contains name ''/'')
        else case matchChunk chunk name False of
            ChunkBad \<Rightarrow> None
          | ChunkOk t \<Rightarrow>
              if t = [] \<or> rest \<noteq> [] then filepath_Match rest t
              else if star then
                (case star_search chunk True name of
                   StarBad \<Rightarrow> None | StarAt t' \<Rightarrow> filepath_Match rest t' | StarNone \<Rightarrow> Some False)
              else Some False
          | ChunkFail \<Rightarrow>
              if star then
                (case star_search chunk (rest = []) name of
                   StarBad \<Rightarrow> None | StarAt t' \<Rightarrow> filepath_Match rest t'
                 | StarNone \<Rightarrow> if patterns_ok rest then Some False else None)
              else if patterns_ok rest then Some False else None)"
  by pat_completeness auto
termination
  by (relation "measure (\<lambda>(p, name). length p)") (simp_all add: scanChunk_shorter)

declare filepath_Match.simps [simp del]

section \<open>Malformed patterns\<close>

text \<open>Whether a chunk is well formed depends neither on the name nor on earlier failures.\<close>

lemma class_loop_syntax:
  "map_option fst (class_loop r chunk n m) = map_option fst (class_loop r' chunk n m')"
proof (induction r chunk n m arbitrary: m' rule: class_loop.induct)
  case (1 r chunk n m)
  show ?case
  proof (cases "chunk \<noteq> [] \<and> hd chunk = CHR '']'' \<and> 0 < n")
    case True
    then show ?thesis by (simp add: class_loop.simps [of _ chunk])
  next
    case False
    show ?thesis
    proof (cases "getEsc chunk")
      case None
      with False show ?thesis by (auto simp: class_loop.simps [of _ chunk])
    next
      case (Some a)
      obtain lo ch1 where a: "a = (lo, ch1)" by (cases a)
      show ?thesis
      proof (cases "hd ch1 = CHR ''-''")
        case True
        show ?thesis
        proof (cases "getEsc (tl ch1)")
          case None
          with False Some a True show ?thesis by (auto simp: class_loop.simps [of _ chunk])
        next
          case (Some b)
          obtain hi ch2 where b: "b = (hi, ch2)" by (cases b)
          note eq = "1.IH"(1) [OF False \<open>getEsc chunk = Some a\<close> a [symmetric] True Some b [symmetric]]
          have u: "\<And>r m. class_loop r chunk n m
              = class_loop r ch2 (Suc n) (m \<or> lo \<le> r \<and> r \<le> hi)"
            using \<open>getEsc chunk = Some a\<close> a True Some b
            by (subst class_loop.simps, subst if_not_P [OF False]) simp
          show ?thesis by (simp only: u eq)
        qed
      next
        case nd: False
        note eq = "1.IH"(2) [OF False Some a [symmetric] nd]
        have u: "\<And>r m. class_loop r chunk n m = class_loop r ch1 (Suc n) (m \<or> lo = r)"
          using Some a nd by (subst class_loop.simps, subst if_not_P [OF False]) simp
        show ?thesis by (simp only: u eq)
      qed
    qed
  qed
qed

lemma class_loop_None_iff: "class_loop r chunk n m = None \<longleftrightarrow> class_loop r' chunk n m' = None"
  using class_loop_syntax [of r chunk n m r' m'] by (metis option.map_disc_iff)

lemma class_loop_rest:
  "class_loop r chunk n m = Some (ch, b) \<Longrightarrow> \<exists>b'. class_loop r' chunk n m' = Some (ch, b')"
proof -
  assume "class_loop r chunk n m = Some (ch, b)"
  then have "map_option fst (class_loop r' chunk n m') = Some ch"
    using class_loop_syntax [of r chunk n m r' m'] by simp
  then show ?thesis by auto
qed

text \<open>\<open>matchChunk\<close> on the four kinds of chunk elements.\<close>

lemma mc_class:
  "matchChunk (CHR ''['' # t) s f =
     (case class_loop (if f \<or> s = [] then 0 else fst (decode_rune s)) (snd (class_start t)) 0 False of
        None \<Rightarrow> ChunkBad
      | Some (ch, m) \<Rightarrow>
          matchChunk ch (if f \<or> s = [] then s else drop (snd (decode_rune s)) s)
            ((f \<or> s = []) \<or> m = fst (class_start t)))"
  by (simp add: matchChunk.simps(2) Let_def)

lemma mc_any:
  "matchChunk (CHR ''?'' # t) s f =
     (if f \<or> s = [] then matchChunk t s True
      else matchChunk t (drop (snd (decode_rune s)) s) (hd s = CHR ''/''))"
  by (simp add: matchChunk.simps(2) Let_def)

lemma mc_esc:
  "matchChunk (CHR 0x5C # t) s f =
     (case t of [] \<Rightarrow> ChunkBad
      | d # u \<Rightarrow> if f \<or> s = [] then matchChunk u s True else matchChunk u (tl s) (d \<noteq> hd s))"
  by (simp add: matchChunk.simps(2) Let_def split: list.split)

lemma mc_lit:
  "c \<noteq> CHR ''['' \<Longrightarrow> c \<noteq> CHR ''?'' \<Longrightarrow> c \<noteq> CHR 0x5C \<Longrightarrow>
   matchChunk (c # t) s f =
     (if f \<or> s = [] then matchChunk t s True else matchChunk t (tl s) (c \<noteq> hd s))"
  by (simp add: matchChunk.simps(2) Let_def)

definition chunk_ok :: "string \<Rightarrow> bool" where
  "chunk_ok chunk \<longleftrightarrow> matchChunk chunk [] True \<noteq> ChunkBad"

lemma matchChunk_bad_iff: "matchChunk chunk s f = ChunkBad \<longleftrightarrow> \<not> chunk_ok chunk"
proof -
  have "matchChunk chunk s f = ChunkBad \<longleftrightarrow> matchChunk chunk s' True = ChunkBad" for s'
  proof (induction chunk s f arbitrary: s' rule: matchChunk.induct)
    case (1 s f)
    then show ?case by simp
  next
    case (2 c t s f)
    let ?F = "f \<or> s = []"
    consider "c = CHR ''[''" | "c = CHR ''?''" | "c = CHR 0x5C"
      | "c \<noteq> CHR ''[''" "c \<noteq> CHR ''?''" "c \<noteq> CHR 0x5C" by blast
    then show ?case
    proof cases
      case 1
      let ?r = "if ?F then 0 else fst (decode_rune s)"
      show ?thesis
      proof (cases "class_loop ?r (snd (class_start t)) 0 False")
        case None
        then have "class_loop 0 (snd (class_start t)) 0 False = None"
          using class_loop_None_iff by blast
        with None show ?thesis by (simp only: 1 mc_class option.case simp_thms if_True)
      next
        case (Some a)
        obtain ch m where a: "a = (ch, m)" by (cases a)
        with Some obtain m' where m': "class_loop 0 (snd (class_start t)) 0 False = Some (ch, m')"
          using class_loop_rest by blast
        note IH = "2.IH"(1) [OF refl 1 refl refl Some a [symmetric]]
        show ?thesis
          by (simp only: 1 mc_class Some m' a option.case prod.case simp_thms if_True) (rule IH)
      qed
    next
      case 2
      then have n: "c \<noteq> CHR ''[''" by simp
      note IH = "2.IH"(2,3) [OF refl n 2]
      show ?thesis
      proof (cases ?F)
        case True
        then show ?thesis by (simp only: 2 mc_any if_True simp_thms IH(1) [OF True, of s'])
      next
        case False
        show ?thesis
          by (simp only: 2 mc_any False if_False if_True simp_thms IH(2) [OF False, of s'])
      qed
    next
      case 3
      then have n: "c \<noteq> CHR ''[''" "c \<noteq> CHR ''?''" by simp_all
      note IH = "2.IH"(4,5) [OF refl n 3]
      show ?thesis
      proof (cases t)
        case Nil
        then show ?thesis by (simp only: 3 mc_esc list.case)
      next
        case (Cons d u)
        show ?thesis
        proof (cases ?F)
          case True
          then show ?thesis
            by (simp only: 3 mc_esc Cons list.case if_True simp_thms IH(1) [OF Cons True, of s'])
        next
          case False
          show ?thesis
            by (simp only: 3 mc_esc Cons list.case False if_False if_True simp_thms
                IH(2) [OF Cons False, of s'])
        qed
      qed
    next
      case 4
      note IH = "2.IH"(6,7) [OF refl 4]
      show ?thesis
      proof (cases ?F)
        case True
        then show ?thesis by (simp only: mc_lit [OF 4] if_True simp_thms IH(1) [OF True, of s'])
      next
        case False
        show ?thesis
          by (simp only: mc_lit [OF 4] False if_False if_True simp_thms IH(2) [OF False, of s'])
      qed
    qed
  qed
  then show ?thesis by (simp add: chunk_ok_def)
qed

lemma patterns_ok_unfold:
  "p \<noteq> [] \<Longrightarrow> patterns_ok p \<longleftrightarrow>
     chunk_ok (fst (snd (scanChunk p))) \<and> patterns_ok (snd (snd (scanChunk p)))"
  by (subst patterns_ok.simps) (simp add: matchChunk_bad_iff)

lemma star_search_bad: "star_search chunk l name = StarBad \<Longrightarrow> \<not> chunk_ok chunk"
  by (induction name) (auto split: if_splits chunk_result.splits simp: matchChunk_bad_iff)

lemma scanChunk_star_end:
  assumes "fst (snd (scanChunk p)) = []"
  shows "snd (snd (scanChunk p)) = []"
proof -
  let ?q = "dropWhile (\<lambda>c. c = CHR ''*'') p"
  have q: "fst (scan_rest False ?q) = []" using assms by (simp add: scanChunk_def Let_def)
  have "?q = []"
  proof (rule ccontr)
    assume "?q \<noteq> []"
    moreover from this have "hd ?q \<noteq> CHR ''*''" using hd_dropWhile by blast
    ultimately obtain c cs where "?q = c # cs" "c \<noteq> CHR ''*''" by (cases ?q) auto
    with q show False by (auto simp: case_prod_beta split: list.splits if_splits)
  qed
  then show ?thesis unfolding scanChunk_def Let_def snd_conv by (simp only:) simp
qed

theorem Match_None_iff: "filepath_Match p name = None \<longleftrightarrow> \<not> patterns_ok p"
proof (induction p name rule: filepath_Match.induct)
  case (1 p name)
  show ?case
  proof (cases "p = []")
    case True
    then show ?thesis by (simp add: filepath_Match.simps patterns_ok.simps)
  next
    case False
    obtain star chunk rest where sc: "scanChunk p = (star, chunk, rest)" by (cases "scanChunk p")
    note IHs = "1.IH" [OF False, unfolded sc fst_conv snd_conv, OF refl refl refl]
    have M: "filepath_Match p name = (if star \<and> chunk = [] then Some (\<not> strings_Contains name ''/'')
        else case matchChunk chunk name False of
            ChunkBad \<Rightarrow> None
          | ChunkOk t \<Rightarrow>
              if t = [] \<or> rest \<noteq> [] then filepath_Match rest t
              else if star then
                (case star_search chunk True name of
                   StarBad \<Rightarrow> None | StarAt t' \<Rightarrow> filepath_Match rest t' | StarNone \<Rightarrow> Some False)
              else Some False
          | ChunkFail \<Rightarrow>
              if star then
                (case star_search chunk (rest = []) name of
                   StarBad \<Rightarrow> None | StarAt t' \<Rightarrow> filepath_Match rest t'
                 | StarNone \<Rightarrow> if patterns_ok rest then Some False else None)
              else if patterns_ok rest then Some False else None)"
      by (subst filepath_Match.simps) (simp only: False if_False Let_def sc fst_conv snd_conv)
    have P: "patterns_ok p \<longleftrightarrow> chunk_ok chunk \<and> patterns_ok rest"
      using patterns_ok_unfold [OF False] by (simp only: sc fst_conv snd_conv)
    have nil: "patterns_ok []" by (simp add: patterns_ok.simps)
    show ?thesis
    proof (cases "star \<and> chunk = []")
      case True
      then have "rest = []" using scanChunk_star_end [of p] by (simp only: sc fst_conv snd_conv)
      with True M P nil show ?thesis by (simp add: chunk_ok_def)
    next
      case ns: False
      note IH = IHs [OF ns]
      show ?thesis
      proof (cases "matchChunk chunk name False")
        case ChunkBad
        then have "\<not> chunk_ok chunk" using matchChunk_bad_iff by blast
        then show ?thesis by (simp only: M P ns ChunkBad chunk_result.case if_False simp_thms)
      next
        case ChunkFail
        then have ok: "chunk_ok chunk" using matchChunk_bad_iff [of chunk name False] by simp
        show ?thesis
          using IH(1) [OF ChunkFail] ok star_search_bad
          by (simp only: M P ns ChunkFail chunk_result.case if_False)
            (auto split: star_result.splits if_splits)
      next
        case (ChunkOk t)
        then have ok: "chunk_ok chunk" using matchChunk_bad_iff [of chunk name False] by simp
        show ?thesis
          using IH(2,3) [OF ChunkOk] ok star_search_bad nil
          by (simp only: M P ns ChunkOk chunk_result.case if_False)
            (auto split: star_result.splits if_splits)
      qed
    qed
  qed
qed

section \<open>Literal patterns and families\<close>

definition glob_meta :: "char list" where
  "glob_meta = [CHR ''*'', CHR ''?'', CHR ''['', CHR 0x5C]"

definition glob_literal :: "string \<Rightarrow> bool" where
  "glob_literal p \<longleftrightarrow> list_all (\<lambda>c. c \<notin> set glob_meta) p"

lemma glob_literal_simps [simp]:
  "glob_literal []"
  "glob_literal (c # p) \<longleftrightarrow>
     c \<noteq> CHR ''*'' \<and> c \<noteq> CHR ''?'' \<and> c \<noteq> CHR ''['' \<and> c \<noteq> CHR 0x5C \<and> glob_literal p"
  by (auto simp: glob_literal_def glob_meta_def)

lemma scan_rest_literal:
  "glob_literal p \<Longrightarrow> scan_rest False (p @ q) =
     (let (a, b) = scan_rest False q in (p @ a, b))"
proof (induction p)
  case Nil
  then show ?case by simp
next
  case (Cons c p)
  then show ?case by (cases "c = CHR '']''") (simp_all add: case_prod_beta Let_def)
qed

lemma scanChunk_literal:
  assumes "glob_literal p" "p \<noteq> []"
  shows "scanChunk p = (False, p, [])" and "scanChunk (p @ ''*'') = (False, p, ''*'')"
proof -
  obtain c cs where p: "p = c # cs" "c \<noteq> CHR ''*''" using assms by (cases p) auto
  show "scanChunk p = (False, p, [])"
    using scan_rest_literal [OF assms(1), of "[]"] p by (simp add: scanChunk_def)
  show "scanChunk (p @ ''*'') = (False, p, ''*'')"
    using scan_rest_literal [OF assms(1), of "''*''"] p by (simp add: scanChunk_def)
qed

lemma matchChunk_literal_fail: "glob_literal p \<Longrightarrow> matchChunk p s True = ChunkFail"
  by (induction p arbitrary: s) (simp_all add: mc_lit)

lemma matchChunk_literal:
  "glob_literal p \<Longrightarrow> matchChunk p s False =
     (if strings_HasPrefix s p then ChunkOk (drop (length p) s) else ChunkFail)"
proof (induction p arbitrary: s)
  case Nil
  then show ?case by simp
next
  case (Cons c p)
  show ?case
  proof (cases s)
    case Nil
    with Cons.prems show ?thesis by (simp add: mc_lit matchChunk_literal_fail)
  next
    case (Cons d t)
    with Cons.prems Cons.IH [of t] show ?thesis
      by (cases "c = d") (simp_all add: mc_lit matchChunk_literal_fail)
  qed
qed

lemma patterns_ok_Nil [simp]: "patterns_ok []"
  by (simp add: patterns_ok.simps)

lemma scanChunk_star: "scanChunk ''*'' = (True, [], [])"
  by (simp add: scanChunk_def)

lemma Match_star: "filepath_Match ''*'' name = Some (CHR ''/'' \<notin> set name)"
  by (simp add: filepath_Match.simps [of "''*''"] scanChunk_star Contains_iff)
    (metis append_Cons append_Nil in_set_conv_decomp)

theorem Match_literal:
  assumes "glob_literal p"
  shows "filepath_Match p name = Some (name = p)"
proof (cases "p = []")
  case True
  then show ?thesis by (simp add: filepath_Match.simps)
next
  case False
  have "strings_HasPrefix name p \<and> drop (length p) name = [] \<longleftrightarrow> name = p"
    by (auto simp: HasPrefix_iff)
  with False show ?thesis
    by (auto simp: filepath_Match.simps [of p] filepath_Match.simps [of "[]"]
        scanChunk_literal [OF assms False] matchChunk_literal [OF assms])
qed

theorem Match_literal_star:
  assumes "glob_literal p"
  shows "filepath_Match (p @ ''*'') name =
    Some (strings_HasPrefix name p \<and> CHR ''/'' \<notin> set (drop (length p) name))"
proof (cases "p = []")
  case True
  then show ?thesis by (simp add: Match_star)
next
  case False
  have "patterns_ok ''*''"
    by (simp add: patterns_ok.simps [of "''*''"] scanChunk_star)
  with False show ?thesis
    by (simp add: filepath_Match.simps [of "p @ ''*''"] scanChunk_literal [OF assms False]
        matchChunk_literal [OF assms] Match_star)
qed

section \<open>The matcher as an interface\<close>

text \<open>
  What the env filter needs of a glob matcher: whether a pattern is malformed is a property
  of the pattern alone, so probing it once on any name decides it for all names.
\<close>

locale glob_matcher =
  fixes gmatch :: "string \<Rightarrow> string \<Rightarrow> bool option"
    and well_formed :: "string \<Rightarrow> bool"
  assumes malformed_iff: "gmatch p n = None \<longleftrightarrow> \<not> well_formed p"
begin

lemma probe_decides: "gmatch p n \<noteq> None \<Longrightarrow> gmatch p n' \<noteq> None"
  by (simp add: malformed_iff)

lemma probed_list:
  "\<forall>p \<in> set ps. gmatch p n \<noteq> None \<Longrightarrow> p \<in> set ps \<Longrightarrow> \<exists>b. gmatch p n' = Some b"
  using probe_decides by blast

end

interpretation fm: glob_matcher filepath_Match patterns_ok
  by unfold_locales (rule Match_None_iff)

end
