(* ===== verification/Config.thy ===== *)
theory Config
  imports GoPath GoMatch
begin

text \<open>
  \<open>sandbox/config.go\<close>, the configuration: the \<open>Config\<close> structs, the config path, \<open>~\<close>
  expansion, defaults, \<open>Load\<close> on each of its branches, and the check of operator-supplied
  \<open>allow_env\<close> patterns. The TOML decoder is third-party code and a parameter; what the
  functions read of the operating system is the record \<open>host\<close>.
\<close>

section \<open>What the program reads of its host\<close>

text \<open>
  \<open>os.Stat\<close> succeeds, fails with \<open>fs.ErrNotExist\<close>, or fails otherwise. An unset variable
  reads as the empty string, as \<open>os.Getenv\<close> has it. \<open>user_home\<close> is the home directory of
  \<open>user.Current()\<close>, \<open>None\<close> where that call fails.
\<close>

datatype stat_result = Stat_ok | Stat_not_exist | Stat_error

record host =
  getenv :: "string \<Rightarrow> string"
  user_home :: "string option"
  stat_path :: "string \<Rightarrow> stat_result"
  goos :: string
  temp_dir :: string

text \<open>\<open>os.UserHomeDir\<close> on Unix: the variable \<open>HOME\<close>, an error where it is empty.\<close>

definition os_UserHomeDir :: "host \<Rightarrow> string option" where
  "os_UserHomeDir h = (if getenv h ''HOME'' \<noteq> [] then Some (getenv h ''HOME'') else None)"

section \<open>Configuration records\<close>

record KubernetesConfig =
  Enabled :: bool
  RequireServiceAccount :: string
  TokenReviewURL :: string

record Config =
  AllowRead :: "string list"
  AllowWrite :: "string list"
  AllowEnv :: "string list"
  AutoBackgroundAfter :: go_int
  SocketPath :: string
  Kubernetes :: KubernetesConfig

definition DefaultAutoBackgroundAfter :: go_int where
  "DefaultAutoBackgroundAfter = 30"

text \<open>The zero value of a \<open>Config\<close>.\<close>

definition zero_Config :: Config where
  "zero_Config = \<lparr>AllowRead = [], AllowWrite = [], AllowEnv = [], AutoBackgroundAfter = 0,
     SocketPath = [],
     Kubernetes = \<lparr>Enabled = False, RequireServiceAccount = [], TokenReviewURL = []\<rparr>\<rparr>"

datatype config_error =
    HomeDirError
  | CurrentUserError
  | StatError string
  | DecodeError string
  | AllowReadError string
  | AllowWriteError string
  | MalformedPattern string
  | RequireServiceAccountMissing

section \<open>Paths\<close>

definition DefaultConfigPath :: "host \<Rightarrow> config_error + string" where
  "DefaultConfigPath h =
     (if getenv h ''TEMENOS_CONFIG_PATH'' \<noteq> [] then Inr (getenv h ''TEMENOS_CONFIG_PATH'')
      else case os_UserHomeDir h of
          None \<Rightarrow> Inl HomeDirError
        | Some home \<Rightarrow> Inr (filepath_Join [home, ''.config'', ''temenos'', ''config.toml'']))"

definition ExpandHome :: "host \<Rightarrow> string \<Rightarrow> config_error + string" where
  "ExpandHome h path =
     (case path of [] \<Rightarrow> Inr path
      | c # rest \<Rightarrow>
          if c \<noteq> CHR ''~'' then Inr path
          else case user_home h of
              None \<Rightarrow> Inl CurrentUserError
            | Some home \<Rightarrow> Inr (filepath_Join [home, rest]))"

definition default_socket :: string where
  "default_socket = ''~/.temenos/daemon.sock''"

definition defaultConfig :: "host \<Rightarrow> config_error + Config" where
  "defaultConfig h =
     (case ExpandHome h default_socket of Inl e \<Rightarrow> Inl e
      | Inr socketPath \<Rightarrow>
          Inr (zero_Config\<lparr>AutoBackgroundAfter := DefaultAutoBackgroundAfter, AllowWrite := [],
                 SocketPath := socketPath\<rparr>))"

text \<open>The error of a failed expansion carries the path.\<close>

definition expandSlice :: "host \<Rightarrow> (string \<Rightarrow> config_error) \<Rightarrow> string list \<Rightarrow> config_error + string list" where
  "expandSlice h wrap paths =
     traverse (\<lambda>p. case ExpandHome h p of Inl e \<Rightarrow> Inl (wrap p) | Inr q \<Rightarrow> Inr q) paths"

section \<open>Load\<close>

definition applyDefaults :: "host \<Rightarrow> Config \<Rightarrow> config_error + Config" where
  "applyDefaults h c =
     (let c1 = (if AutoBackgroundAfter c = 0
                then c\<lparr>AutoBackgroundAfter := DefaultAutoBackgroundAfter\<rparr> else c);
          kube = (\<lambda>c2. if TokenReviewURL (Kubernetes c2) = []
                then c2\<lparr>Kubernetes := (Kubernetes c2)\<lparr>TokenReviewURL := ''https://kubernetes.default.svc''\<rparr>\<rparr>
                else c2)
      in if SocketPath c1 = [] then
           (case ExpandHome h default_socket of Inl e \<Rightarrow> Inl e
            | Inr s \<Rightarrow> Inr (kube (c1\<lparr>SocketPath := s\<rparr>)))
         else Inr (kube c1))"

fun validateAllowEnv :: "string list \<Rightarrow> config_error + unit" where
  "validateAllowEnv [] = Inr ()"
| "validateAllowEnv (pattern # ps) =
     (if filepath_Match pattern [] = None then Inl (MalformedPattern pattern)
      else validateAllowEnv ps)"

text \<open>
  After the file is decoded: defaults, \<open>~\<close> expansion of the three kinds of paths in the
  code's order, the check of the env patterns, the check of the Kubernetes section.
\<close>

definition finish_load :: "host \<Rightarrow> Config \<Rightarrow> config_error + Config" where
  "finish_load h cfg =
     bind_result (applyDefaults h cfg) (\<lambda>c1.
     bind_result (expandSlice h AllowReadError (AllowRead c1)) (\<lambda>rd.
     bind_result (expandSlice h AllowWriteError (AllowWrite c1)) (\<lambda>wr.
     bind_result (ExpandHome h (SocketPath c1)) (\<lambda>sock.
     bind_result (validateAllowEnv (AllowEnv c1)) (\<lambda>_.
     if Enabled (Kubernetes c1) \<and> RequireServiceAccount (Kubernetes c1) = []
     then Inl RequireServiceAccountMissing
     else Inr (c1\<lparr>AllowRead := rd, AllowWrite := wr, SocketPath := sock\<rparr>))))))"

definition Load :: "host \<Rightarrow> (string \<Rightarrow> string + Config) \<Rightarrow> string \<Rightarrow> config_error + Config" where
  "Load h toml_DecodeFile path0 =
     bind_result (if path0 = [] then DefaultConfigPath h else Inr path0) (\<lambda>path.
       case stat_path h path of
         Stat_not_exist \<Rightarrow> defaultConfig h
       | Stat_error \<Rightarrow> Inl (StatError path)
       | Stat_ok \<Rightarrow>
           (case toml_DecodeFile path of Inl e \<Rightarrow> Inl (DecodeError e)
            | Inr cfg \<Rightarrow> finish_load h cfg))"

section \<open>What Load guarantees\<close>

lemma validateAllowEnv_Inr:
  "validateAllowEnv ps = Inr u \<longleftrightarrow> (\<forall>p \<in> set ps. filepath_Match p [] \<noteq> None)"
  by (induction ps) auto

lemma validateAllowEnv_Inl:
  "validateAllowEnv ps = Inl e \<longleftrightarrow>
     (\<exists>pre p post. ps = pre @ p # post \<and> e = MalformedPattern p \<and> \<not> patterns_ok p
        \<and> (\<forall>q \<in> set pre. patterns_ok q))"
proof (induction ps)
  case Nil
  then show ?case by simp
next
  case (Cons q ps)
  show ?case
  proof (cases "patterns_ok q")
    case True
    then have "validateAllowEnv (q # ps) = validateAllowEnv ps" by (simp add: Match_None_iff)
    moreover have "(\<exists>pre p post. q # ps = pre @ p # post \<and> e = MalformedPattern p
          \<and> \<not> patterns_ok p \<and> (\<forall>q \<in> set pre. patterns_ok q)) \<longleftrightarrow>
        (\<exists>pre p post. ps = pre @ p # post \<and> e = MalformedPattern p
          \<and> \<not> patterns_ok p \<and> (\<forall>q \<in> set pre. patterns_ok q))" (is "?L \<longleftrightarrow> ?R")
    proof
      assume ?L
      then obtain pre p post where l: "q # ps = pre @ p # post" "e = MalformedPattern p"
        "\<not> patterns_ok p" "\<forall>q \<in> set pre. patterns_ok q" by blast
      with True obtain pre' where "pre = q # pre'" by (cases pre) auto
      with l show ?R by auto
    next
      assume ?R
      then obtain pre p post where r: "ps = pre @ p # post" "e = MalformedPattern p"
        "\<not> patterns_ok p" "\<forall>q \<in> set pre. patterns_ok q" by blast
      have "q # ps = (q # pre) @ p # post" using r by simp
      moreover have "\<forall>x \<in> set (q # pre). patterns_ok x" using r True by simp
      ultimately show ?L using r by blast
    qed
    ultimately show ?thesis using Cons.IH by simp
  next
    case False
    then have "validateAllowEnv (q # ps) = Inl (MalformedPattern q)" by (simp add: Match_None_iff)
    moreover have "(\<exists>pre p post. q # ps = pre @ p # post \<and> e = MalformedPattern p
          \<and> \<not> patterns_ok p \<and> (\<forall>q \<in> set pre. patterns_ok q)) \<longleftrightarrow> e = MalformedPattern q"
      using False by (metis append_Cons append_Nil empty_iff empty_set list.inject list.set_intros(1)
          neq_Nil_conv)
    ultimately show ?thesis by auto
  qed
qed

text \<open>A configuration as the rest of the program may assume it after a successful load.\<close>

definition config_ok :: "Config \<Rightarrow> bool" where
  "config_ok c \<longleftrightarrow>
     AutoBackgroundAfter c \<noteq> 0 \<and> list_all patterns_ok (AllowEnv c) \<and>
     (Enabled (Kubernetes c) \<longrightarrow>
        RequireServiceAccount (Kubernetes c) \<noteq> [] \<and> TokenReviewURL (Kubernetes c) \<noteq> [])"

lemma applyDefaults_fields:
  assumes "applyDefaults h c = Inr c1"
  shows "AutoBackgroundAfter c1 =
      (if AutoBackgroundAfter c = 0 then DefaultAutoBackgroundAfter else AutoBackgroundAfter c)"
    and "AllowEnv c1 = AllowEnv c" and "AllowRead c1 = AllowRead c"
    and "AllowWrite c1 = AllowWrite c"
    and "Enabled (Kubernetes c1) = Enabled (Kubernetes c)"
    and "RequireServiceAccount (Kubernetes c1) = RequireServiceAccount (Kubernetes c)"
    and "TokenReviewURL (Kubernetes c1) \<noteq> []"
  using assms by (auto simp: applyDefaults_def Let_def split: if_splits sum.splits)

lemma finish_loadE:
  assumes "finish_load h cfg = Inr c"
  obtains c1 rd wr sock where
    "applyDefaults h cfg = Inr c1"
    "expandSlice h AllowReadError (AllowRead c1) = Inr rd"
    "expandSlice h AllowWriteError (AllowWrite c1) = Inr wr"
    "ExpandHome h (SocketPath c1) = Inr sock"
    "validateAllowEnv (AllowEnv c1) = Inr ()"
    "Enabled (Kubernetes c1) \<Longrightarrow> RequireServiceAccount (Kubernetes c1) \<noteq> []"
    "c = c1\<lparr>AllowRead := rd, AllowWrite := wr, SocketPath := sock\<rparr>"
  using assms unfolding finish_load_def bind_result_Inr_iff
  by (elim exE conjE) (auto split: if_split_asm)

lemma finish_load_ok: "finish_load h cfg = Inr c \<Longrightarrow> config_ok c"
proof (erule finish_loadE)
  fix c1 rd wr sock
  assume d: "applyDefaults h cfg = Inr c1" and v: "validateAllowEnv (AllowEnv c1) = Inr ()"
    and k: "Enabled (Kubernetes c1) \<Longrightarrow> RequireServiceAccount (Kubernetes c1) \<noteq> []"
    and c: "c = c1\<lparr>AllowRead := rd, AllowWrite := wr, SocketPath := sock\<rparr>"
  have "AutoBackgroundAfter c1 \<noteq> 0"
    using applyDefaults_fields(1) [OF d] by (simp add: DefaultAutoBackgroundAfter_def)
  moreover have "list_all patterns_ok (AllowEnv c1)"
    using v by (simp add: validateAllowEnv_Inr Match_None_iff list_all_iff)
  ultimately show "config_ok c"
    using k applyDefaults_fields(7) [OF d] c by (simp add: config_ok_def)
qed

lemma defaultConfig_ok: "defaultConfig h = Inr c \<Longrightarrow> config_ok c \<and> \<not> Enabled (Kubernetes c)"
  by (auto simp: defaultConfig_def config_ok_def zero_Config_def DefaultAutoBackgroundAfter_def
      split: sum.splits)

lemma Load_config_ok: "Load h dec path = Inr c \<Longrightarrow> config_ok c"
proof -
  assume "Load h dec path = Inr c"
  then obtain p where *: "(case stat_path h p of Stat_not_exist \<Rightarrow> defaultConfig h
       | Stat_error \<Rightarrow> Inl (StatError p)
       | Stat_ok \<Rightarrow> (case dec p of Inl e \<Rightarrow> Inl (DecodeError e) | Inr cfg \<Rightarrow> finish_load h cfg)) = Inr c"
    unfolding Load_def bind_result_Inr_iff by blast
  then show ?thesis
    by (cases "stat_path h p"; cases "dec p") (auto dest: finish_load_ok defaultConfig_ok)
qed

text \<open>\<open>ExpandHome\<close> leaves other paths alone and puts the rest of the path under the home.\<close>

lemma ExpandHome_other: "path = [] \<or> hd path \<noteq> CHR ''~'' \<Longrightarrow> ExpandHome h path = Inr path"
  by (auto simp: ExpandHome_def split: list.splits)

lemma ExpandHome_tilde:
  "user_home h = Some home \<Longrightarrow> home \<noteq> [] \<Longrightarrow>
   ExpandHome h (CHR ''~'' # rest) = Inr (filepath_Clean (home @ ''/'' @ rest))"
  by (simp add: ExpandHome_def Clean_slash)

section \<open>Properties\<close>

definition sample_host :: host where
  "sample_host = \<lparr>getenv = (\<lambda>k. if k = ''HOME'' then ''/home/u'' else []), user_home = Some ''/home/u'',
     stat_path = (\<lambda>_. Stat_ok), goos = ''linux'', temp_dir = ''/tmp''\<rparr>"

definition sample_file :: Config where
  "sample_file = zero_Config\<lparr>AllowRead := [''~/notes'', ''/srv''], AllowEnv := [''AWS_*'']\<rparr>"

definition sample_loaded :: Config where
  "sample_loaded = zero_Config\<lparr>AllowRead := [''/home/u/notes'', ''/srv''], AllowEnv := [''AWS_*''],
     AutoBackgroundAfter := 30, SocketPath := ''/home/u/.temenos/daemon.sock'',
     Kubernetes := \<lparr>Enabled = False, RequireServiceAccount = [],
       TokenReviewURL = ''https://kubernetes.default.svc''\<rparr>\<rparr>"

lemma sample_Load: "Load sample_host (\<lambda>_. Inr sample_file) ''cfg.toml'' = Inr sample_loaded"
  by code_simp

text \<open>
  C39. A configuration that loads is safe to use: the auto-background threshold is not zero, no
  environment pattern is malformed for any variable name (so a pattern never fails silently
  when requests are filtered), and with Kubernetes enabled both a required service account and
  a review URL are set.
\<close>

theorem Load_sound:
  assumes "Load h toml_DecodeFile path = Inr c"
  shows "AutoBackgroundAfter c \<noteq> 0 \<and> (\<forall>p key. p \<in> set (AllowEnv c) \<longrightarrow> filepath_Match p key \<noteq> None)
    \<and> (Enabled (Kubernetes c) \<longrightarrow> RequireServiceAccount (Kubernetes c) \<noteq> [] \<and> TokenReviewURL (Kubernetes c) \<noteq> [])"
  using Load_config_ok [OF assms] by (auto simp: config_ok_def list_all_iff Match_None_iff)

theorem Load_sound_witness:
  "Load sample_host (\<lambda>_. Inr sample_file) ''cfg.toml'' = Inr sample_loaded
   \<and> filepath_Match ''AWS_*'' ''AWS_REGION'' \<noteq> None"
  using Load_sound [OF sample_Load] sample_Load by (simp add: sample_loaded_def)

text \<open>
  What a loaded configuration file says is kept: the environment patterns and the Kubernetes
  switch and account are those of the file, and every path list is the file's list with each
  entry expanded, in order; the load fails where one entry cannot be expanded, a pattern is
  malformed, or Kubernetes is enabled without a required service account.
\<close>

theorem Load_file:
  assumes "path \<noteq> []" "stat_path h path = Stat_ok" "toml_DecodeFile path = Inr file"
    and "Load h toml_DecodeFile path = Inr c"
  shows "AllowEnv c = AllowEnv file \<and> list_all2 (\<lambda>p q. ExpandHome h p = Inr q) (AllowRead file) (AllowRead c)
    \<and> list_all2 (\<lambda>p q. ExpandHome h p = Inr q) (AllowWrite file) (AllowWrite c)
    \<and> Enabled (Kubernetes c) = Enabled (Kubernetes file)
    \<and> RequireServiceAccount (Kubernetes c) = RequireServiceAccount (Kubernetes file)
    \<and> \<not> (Enabled (Kubernetes file) \<and> RequireServiceAccount (Kubernetes file) = [])"
proof -
  have ex: "expandSlice h wrap ps = Inr qs \<Longrightarrow> list_all2 (\<lambda>p q. ExpandHome h p = Inr q) ps qs" for wrap ps qs
    unfolding expandSlice_def traverse_Inr_iff
    by (erule list_all2_mono) (auto split: sum.splits)
  have "finish_load h file = Inr c" using assms by (simp add: Load_def)
  then show ?thesis
  proof (rule finish_loadE)
    fix c1 rd wr sock
    assume a: "applyDefaults h file = Inr c1" "expandSlice h AllowReadError (AllowRead c1) = Inr rd"
      "expandSlice h AllowWriteError (AllowWrite c1) = Inr wr"
      "Enabled (Kubernetes c1) \<Longrightarrow> RequireServiceAccount (Kubernetes c1) \<noteq> []"
      "c = c1\<lparr>AllowRead := rd, AllowWrite := wr, SocketPath := sock\<rparr>"
    from applyDefaults_fields [OF a(1)] a(2-5) ex show ?thesis by auto
  qed
qed

theorem Load_file_witness:
  "Load sample_host (\<lambda>_. Inr sample_file) ''cfg.toml'' = Inr sample_loaded
   \<and> AllowEnv sample_loaded = AllowEnv sample_file"
proof -
  have "stat_path sample_host ''cfg.toml'' = Stat_ok" by (simp add: sample_host_def)
  from Load_file [OF _ this _ sample_Load, of sample_file] sample_Load show ?thesis by simp
qed

end
