(* ===== verification/Mounts.thy ===== *)
theory Mounts
  imports Config
begin

text \<open>
  Mount lists: \<open>Mount\<close>, \<open>ExecConfig\<close> and \<open>AddAncestorMounts\<close> of \<open>sandbox/sandbox.go\<close>,
  \<open>BaselineMounts\<close> of \<open>sandbox/config.go\<close>, and \<open>validatePath\<close>, \<open>buildMounts\<close> and
  \<open>buildExecConfig\<close> of \<open>internal/daemon/handler.go\<close>. The lemmas say which paths the
  ancestor pass adds, and that it grants nothing but metadata.
\<close>

section \<open>Data\<close>

record Mount =
  Source :: string
  Target :: string
  ReadOnly :: bool
  MetadataOnly :: bool

record ExecConfig =
  Env :: "string list"
  MountDirs :: "Mount list"
  WorkingDir :: string

record AllowedPath =
  ap_Path :: string
  ap_ReadOnly :: bool
  ap_MetadataOnly :: bool

definition metadata_mount :: "string \<Rightarrow> Mount" where
  "metadata_mount d = \<lparr>Source = d, Target = d, ReadOnly = False, MetadataOnly = True\<rparr>"

section \<open>AddAncestorMounts\<close>

text \<open>
  The inner loop walks up from a directory until the root, \<open>.\<close>, or a path that is already
  in the map \<open>existing\<close>, here the set of its keys. Each step shortens the path
  (\<open>Dir_shorter\<close>), so it ends.
\<close>

definition dir_stop :: "string \<Rightarrow> bool" where
  "dir_stop d \<longleftrightarrow> d = ''/'' \<or> d = ''.''"

lemma Dir_measure:
  "\<not> dir_stop d \<Longrightarrow>
   (if dir_stop (filepath_Dir d) then 0 else Suc (length (filepath_Dir d))) < Suc (length d)"
  using Dir_shorter [of d] by (auto simp: dir_stop_def)

function ancestor_loop :: "string \<Rightarrow> string set \<Rightarrow> Mount list \<Rightarrow> string set \<times> Mount list" where
  "ancestor_loop dir existing mounts =
     (if dir_stop dir then (existing, mounts)
      else if dir \<in> existing then (existing, mounts)
      else ancestor_loop (filepath_Dir dir) (insert dir existing) (mounts @ [metadata_mount dir]))"
  by pat_completeness auto

termination
  by (relation "measure (\<lambda>(d, e, m). if dir_stop d then 0 else Suc (length d))")
    (use Dir_measure in auto)

declare ancestor_loop.simps [simp del]

text \<open>The outer loop ranges over the mounts as they were at its start.\<close>

fun add_ancestors :: "Mount list \<Rightarrow> string set \<Rightarrow> Mount list \<Rightarrow> Mount list" where
  "add_ancestors [] existing mounts = mounts"
| "add_ancestors (m # ms) existing mounts =
     (if MetadataOnly m then add_ancestors ms existing mounts
      else (let r = ancestor_loop (filepath_Dir (Source m)) existing mounts
            in add_ancestors ms (fst r) (snd r)))"

definition AddAncestorMounts :: "Mount list \<Rightarrow> Mount list" where
  "AddAncestorMounts mounts = add_ancestors mounts (set (map Source mounts)) mounts"

text \<open>The directories above a path, nearest first, without the root: the reference.\<close>

function ancestors_of :: "string \<Rightarrow> string list" where
  "ancestors_of p =
     (if dir_stop (filepath_Dir p) then [] else filepath_Dir p # ancestors_of (filepath_Dir p))"
  by pat_completeness auto
termination
  by (relation "measure length") (use Dir_shorter in \<open>auto simp: dir_stop_def\<close>)

declare ancestors_of.simps [simp del]

section \<open>What the loops do\<close>

lemma ancestor_loop_spec:
  assumes "ancestor_loop d E ms = (E', ms')"
  shows "\<exists>ds. ms' = ms @ map metadata_mount ds \<and> E' = E \<union> set ds \<and> distinct ds
    \<and> set ds \<inter> E = {} \<and> (\<forall>x \<in> set ds. \<not> dir_stop x)
    \<and> (\<forall>x \<in> set ds. dir_stop (filepath_Dir x) \<or> filepath_Dir x \<in> E')
    \<and> (dir_stop d \<or> d \<in> E') \<and> (dir_stop d \<longrightarrow> ds = [])
    \<and> (\<forall>x \<in> set ds. x = d \<or> x \<in> set (ancestors_of d))"
  using assms
proof (induction d E ms rule: ancestor_loop.induct)
  case (1 d E ms)
  show ?case
  proof (cases "dir_stop d \<or> d \<in> E")
    case True
    with "1.prems" show ?thesis
      by (intro exI [of _ "[]"]) (auto simp: ancestor_loop.simps [of d] split: if_splits)
  next
    case False
    then have rec: "ancestor_loop (filepath_Dir d) (insert d E) (ms @ [metadata_mount d]) = (E', ms')"
      using "1.prems" by (simp add: ancestor_loop.simps [of d])
    from "1.IH" [OF _ _ rec] False obtain ds where
      ds: "ms' = (ms @ [metadata_mount d]) @ map metadata_mount ds" "E' = insert d E \<union> set ds"
        "distinct ds" "set ds \<inter> insert d E = {}" "\<forall>x \<in> set ds. \<not> dir_stop x"
        "\<forall>x \<in> set ds. dir_stop (filepath_Dir x) \<or> filepath_Dir x \<in> E'"
        "dir_stop (filepath_Dir d) \<or> filepath_Dir d \<in> E'"
        "dir_stop (filepath_Dir d) \<longrightarrow> ds = []"
        "\<forall>x \<in> set ds. x = filepath_Dir d \<or> x \<in> set (ancestors_of (filepath_Dir d))"
      by auto
    have "x = d \<or> x \<in> set (ancestors_of d)" if "x \<in> set (d # ds)" for x
      using that ds(8,9) by (cases "x = d") (auto simp: ancestors_of.simps [of d])
    with ds False show ?thesis
      by (intro exI [of _ "d # ds"]) auto
  qed
qed

lemma add_ancestors_spec:
  "\<exists>ds. add_ancestors todo E ms = ms @ map metadata_mount ds \<and> distinct ds \<and> set ds \<inter> E = {}
    \<and> (\<forall>x \<in> set ds. \<not> dir_stop x)
    \<and> (\<forall>x \<in> set ds. dir_stop (filepath_Dir x) \<or> filepath_Dir x \<in> E \<union> set ds)
    \<and> (\<forall>m \<in> set todo. \<not> MetadataOnly m \<longrightarrow>
         dir_stop (filepath_Dir (Source m)) \<or> filepath_Dir (Source m) \<in> E \<union> set ds)
    \<and> (\<forall>x \<in> set ds. \<exists>m \<in> set todo. \<not> MetadataOnly m \<and> x \<in> set (ancestors_of (Source m)))"
proof (induction todo arbitrary: E ms)
  case Nil
  show ?case by (intro exI [of _ "[]"]) simp
next
  case (Cons m todo)
  show ?case
  proof (cases "MetadataOnly m")
    case True
    then show ?thesis using Cons.IH [of E ms] by fastforce
  next
    case False
    obtain E' ms' where r: "ancestor_loop (filepath_Dir (Source m)) E ms = (E', ms')"
      by (cases "ancestor_loop (filepath_Dir (Source m)) E ms")
    from ancestor_loop_spec [OF r] obtain ds where ds:
      "ms' = ms @ map metadata_mount ds" "E' = E \<union> set ds" "distinct ds" "set ds \<inter> E = {}"
      "\<forall>x \<in> set ds. \<not> dir_stop x"
      "\<forall>x \<in> set ds. dir_stop (filepath_Dir x) \<or> filepath_Dir x \<in> E'"
      "dir_stop (filepath_Dir (Source m)) \<or> filepath_Dir (Source m) \<in> E'"
      "dir_stop (filepath_Dir (Source m)) \<longrightarrow> ds = []"
      "\<forall>x \<in> set ds. x = filepath_Dir (Source m) \<or> x \<in> set (ancestors_of (filepath_Dir (Source m)))"
      by blast
    from Cons.IH [of E' ms'] obtain es where es:
      "add_ancestors todo E' ms' = ms' @ map metadata_mount es" "distinct es" "set es \<inter> E' = {}"
      "\<forall>x \<in> set es. \<not> dir_stop x"
      "\<forall>x \<in> set es. dir_stop (filepath_Dir x) \<or> filepath_Dir x \<in> E' \<union> set es"
      "\<forall>m \<in> set todo. \<not> MetadataOnly m \<longrightarrow>
         dir_stop (filepath_Dir (Source m)) \<or> filepath_Dir (Source m) \<in> E' \<union> set es"
      "\<forall>x \<in> set es. \<exists>m \<in> set todo. \<not> MetadataOnly m \<and> x \<in> set (ancestors_of (Source m))"
      by blast
    have anc: "x \<in> set (ancestors_of (Source m))" if "x \<in> set ds" for x
      using that ds(8,9) by (auto simp: ancestors_of.simps [of "Source m"])
    show ?thesis
      by (rule exI [of _ "ds @ es"]) (use False r ds es anc in auto)
  qed
qed

lemma AddAncestorMounts_spec:
  obtains ds where "AddAncestorMounts ms = ms @ map metadata_mount ds"
    and "distinct ds" and "set ds \<inter> set (map Source ms) = {}"
    and "\<forall>x \<in> set ds. \<not> dir_stop x"
    and "\<forall>x \<in> set ds. dir_stop (filepath_Dir x) \<or> filepath_Dir x \<in> set (map Source ms) \<union> set ds"
    and "\<forall>m \<in> set ms. \<not> MetadataOnly m \<longrightarrow>
      dir_stop (filepath_Dir (Source m)) \<or> filepath_Dir (Source m) \<in> set (map Source ms) \<union> set ds"
    and "\<forall>x \<in> set ds. \<exists>m \<in> set ms. \<not> MetadataOnly m \<and> x \<in> set (ancestors_of (Source m))"
  using add_ancestors_spec [of ms "set (map Source ms)" ms] unfolding AddAncestorMounts_def
  by blast

lemma ancestors_closed:
  "dir_stop (filepath_Dir p) \<or> filepath_Dir p \<in> S \<Longrightarrow>
   (\<And>x. x \<in> set (ancestors_of p) \<Longrightarrow> x \<in> S \<Longrightarrow> dir_stop (filepath_Dir x) \<or> filepath_Dir x \<in> S) \<Longrightarrow>
   set (ancestors_of p) \<subseteq> S"
proof (induction p rule: ancestors_of.induct)
  case (1 p)
  show ?case
  proof (cases "dir_stop (filepath_Dir p)")
    case True
    then show ?thesis by (simp add: ancestors_of.simps [of p])
  next
    case False
    let ?d = "filepath_Dir p"
    have anc: "set (ancestors_of p) = insert ?d (set (ancestors_of ?d))"
      using False by (simp add: ancestors_of.simps [of p])
    have d: "?d \<in> S" using "1.prems"(1) False by simp
    have "set (ancestors_of ?d) \<subseteq> S"
    proof (rule "1.IH" [OF False])
      show "dir_stop (filepath_Dir ?d) \<or> filepath_Dir ?d \<in> S"
        using "1.prems"(2) anc d by blast
    next
      fix x assume "x \<in> set (ancestors_of ?d)" "x \<in> S"
      then show "dir_stop (filepath_Dir x) \<or> filepath_Dir x \<in> S"
        using "1.prems"(2) anc by blast
    qed
    with anc d show ?thesis by simp
  qed
qed

lemma AddAncestorMounts_complete:
  assumes granted: "m \<in> set ms" "\<not> MetadataOnly m"
    and clear: "\<And>n. n \<in> set ms \<Longrightarrow> Source n \<in> set (ancestors_of (Source m)) \<Longrightarrow>
      \<exists>n' \<in> set ms. Source n' = Source n \<and> \<not> MetadataOnly n'"
  shows "set (ancestors_of (Source m)) \<subseteq> set (map Source (AddAncestorMounts ms))"
proof (rule AddAncestorMounts_spec [of ms])
  fix ds
  assume eq: "AddAncestorMounts ms = ms @ map metadata_mount ds"
    and cl: "\<forall>x \<in> set ds. dir_stop (filepath_Dir x) \<or> filepath_Dir x \<in> set (map Source ms) \<union> set ds"
    and gr: "\<forall>m \<in> set ms. \<not> MetadataOnly m \<longrightarrow>
      dir_stop (filepath_Dir (Source m)) \<or> filepath_Dir (Source m) \<in> set (map Source ms) \<union> set ds"
  let ?S = "set (map Source ms) \<union> set ds"
  have S: "set (map Source (AddAncestorMounts ms)) = ?S"
    by (auto simp: eq metadata_mount_def comp_def)
  have "set (ancestors_of (Source m)) \<subseteq> ?S"
  proof (rule ancestors_closed)
    show "dir_stop (filepath_Dir (Source m)) \<or> filepath_Dir (Source m) \<in> ?S"
      using gr granted by blast
  next
    fix x assume x: "x \<in> set (ancestors_of (Source m))" "x \<in> ?S"
    show "dir_stop (filepath_Dir x) \<or> filepath_Dir x \<in> ?S"
    proof (cases "x \<in> set ds")
      case True
      then show ?thesis using cl by blast
    next
      case False
      with x obtain n where "n \<in> set ms" "Source n = x" by auto
      with clear [of n] x obtain n' where "n' \<in> set ms" "Source n' = x" "\<not> MetadataOnly n'" by auto
      then show ?thesis using gr by blast
    qed
  qed
  with S show ?thesis by simp
qed

text \<open>On cleaned absolute paths the ancestors are the proper prefixes of the components.\<close>

lemma dir_stop_abs_path:
  assumes "\<forall>c \<in> set cs. path_comp c"
  shows "dir_stop (abs_path cs) \<longleftrightarrow> cs = []"
proof (cases cs)
  case Nil
  then show ?thesis by (simp add: dir_stop_def abs_path_def)
next
  case (Cons c cs')
  with assms have "c \<noteq> []" by (auto simp: path_comp_def)
  then have "strings_Join cs ''/'' \<noteq> []" using Cons by (cases cs') auto
  with Cons show ?thesis by (simp add: dir_stop_def abs_path_def)
qed

lemma ancestors_of_abs_path:
  assumes "\<forall>d \<in> set (cs @ [c]). path_comp d"
  shows "ancestors_of (abs_path (cs @ [c])) =
     (if cs = [] then [] else abs_path cs # ancestors_of (abs_path cs))"
  using Dir_abs_path [OF assms] dir_stop_abs_path [of cs] assms
  by (simp add: ancestors_of.simps [of "abs_path (cs @ [c])"])

lemma set_ancestors_abs_path:
  "\<forall>d \<in> set cs. path_comp d \<Longrightarrow>
   set (ancestors_of (abs_path cs)) = {abs_path ps | ps. strict_prefix ps cs \<and> ps \<noteq> []}"
proof (induction cs rule: rev_induct)
  case Nil
  have "filepath_Dir (abs_path []) = ''/''"
    by (simp add: filepath_Dir_def abs_path_def filepath_Clean_def filepath_IsAbs_def render_path_def)
  then show ?case by (simp add: ancestors_of.simps [of "abs_path []"] dir_stop_def)
next
  case (snoc c cs)
  have pre: "strict_prefix ps (cs @ [c]) \<longleftrightarrow> ps = cs \<or> strict_prefix ps cs" for ps
    by (auto simp: strict_prefix_def)
  show ?case
  proof (cases "cs = []")
    case True
    with snoc.prems show ?thesis by (auto simp: ancestors_of_abs_path [of "[]" c, simplified]
          strict_prefix_def prefix_Cons)
  next
    case False
    have "ancestors_of (abs_path (cs @ [c])) = abs_path cs # ancestors_of (abs_path cs)"
      using ancestors_of_abs_path [OF snoc.prems] False by simp
    with snoc False show ?thesis by (auto simp: pre)
  qed
qed

section \<open>Request mounts\<close>

definition BaselineMounts :: "Config \<Rightarrow> Mount list" where
  "BaselineMounts c =
     map (\<lambda>p. \<lparr>Source = p, Target = p, ReadOnly = True, MetadataOnly = False\<rparr>) (AllowRead c)
     @ map (\<lambda>p. \<lparr>Source = p, Target = p, ReadOnly = False, MetadataOnly = False\<rparr>) (AllowWrite c)"

text \<open>The error carries the rejected path.\<close>

definition validatePath :: "string \<Rightarrow> string + unit" where
  "validatePath p = (if \<not> filepath_IsAbs (filepath_Clean p) then Inl p else Inr ())"

definition request_mount :: "AllowedPath \<Rightarrow> Mount" where
  "request_mount ap = \<lparr>Source = filepath_Clean (ap_Path ap), Target = filepath_Clean (ap_Path ap),
     ReadOnly = ap_ReadOnly ap, MetadataOnly = ap_MetadataOnly ap\<rparr>"

definition buildMounts :: "Mount list \<Rightarrow> AllowedPath list \<Rightarrow> string + Mount list" where
  "buildMounts baseline paths =
     bind_result
       (traverse (\<lambda>ap. bind_result (validatePath (ap_Path ap)) (\<lambda>_. Inr (request_mount ap))) paths)
       (\<lambda>req. Inr (AddAncestorMounts (baseline @ req)))"

definition buildExecConfig :: "host \<Rightarrow> string list \<Rightarrow> Mount list \<Rightarrow> AllowedPath list \<Rightarrow> ExecConfig" where
  "buildExecConfig h envSlice mounts requestPaths =
     \<lparr>Env = envSlice, MountDirs = mounts,
      WorkingDir = (case requestPaths of [] \<Rightarrow> temp_dir h | ap # _ \<Rightarrow> filepath_Clean (ap_Path ap))\<rparr>"

lemma validatePath_Inr: "validatePath p = Inr u \<longleftrightarrow> filepath_IsAbs p"
  by (simp add: validatePath_def)

lemma buildMounts_Inr:
  "buildMounts baseline paths = Inr ms \<longleftrightarrow>
     (\<forall>ap \<in> set paths. filepath_IsAbs (ap_Path ap))
     \<and> ms = AddAncestorMounts (baseline @ map request_mount paths)"
proof -
  have "traverse (\<lambda>ap. bind_result (validatePath (ap_Path ap)) (\<lambda>_. Inr (request_mount ap))) paths = Inr req
      \<longleftrightarrow> (\<forall>ap \<in> set paths. filepath_IsAbs (ap_Path ap)) \<and> req = map request_mount paths" for req
  proof (induction paths arbitrary: req)
    case Nil
    then show ?case by auto
  next
    case (Cons ap paths)
    let ?t = "traverse (\<lambda>ap. bind_result (validatePath (ap_Path ap)) (\<lambda>_. Inr (request_mount ap))) paths"
    show ?case
    proof (cases ?t)
      case (Inl e)
      then have "\<not> (\<forall>ap \<in> set paths. filepath_IsAbs (ap_Path ap))" using Cons.IH by auto
      with Inl show ?thesis by (auto simp: validatePath_def)
    next
      case (Inr ys)
      with Cons.IH [of ys] show ?thesis by (auto simp: validatePath_def)
    qed
  qed
  then show ?thesis by (auto simp: buildMounts_def bind_result_Inr_iff)
qed

lemma buildMounts_Inl:
  "buildMounts baseline paths = Inl p \<Longrightarrow>
   \<exists>ap \<in> set paths. ap_Path ap = p \<and> \<not> filepath_IsAbs p"
  by (auto simp: buildMounts_def bind_result_Inl_iff validatePath_def dest!: traverse_Inl split: if_splits)

lemma request_mount_clean: "filepath_IsAbs (ap_Path ap) \<Longrightarrow> clean_abs (Source (request_mount ap))"
  by (simp add: request_mount_def clean_absI)

section \<open>Properties\<close>

text \<open>
  Every directory above a granted mount is visible: where no metadata-only mount in the list
  is itself above it, each proper prefix of its path but the root is the source of some mount
  of the result.
\<close>

theorem ancestors_visible:
  assumes "m \<in> set ms" "\<not> MetadataOnly m" "Source m = abs_path cs" "list_all path_comp cs"
    and "\<And>n. n \<in> set ms \<Longrightarrow> MetadataOnly n \<Longrightarrow> Source n \<notin> set (ancestors_of (Source m))"
    and "strict_prefix ps cs" "ps \<noteq> []"
  shows "abs_path ps \<in> Source ` set (AddAncestorMounts ms)"
proof -
  have "abs_path ps \<in> set (ancestors_of (Source m))"
    using assms set_ancestors_abs_path [of cs] by (auto simp: list_all_iff)
  moreover have "set (ancestors_of (Source m)) \<subseteq> set (map Source (AddAncestorMounts ms))"
    by (rule AddAncestorMounts_complete [OF assms(1,2)]) (use assms(5) in blast)
  ultimately show ?thesis by auto
qed

theorem ancestors_visible_witness:
  "abs_path [''srv''] \<in> Source ` set (AddAncestorMounts
     [\<lparr>Source = abs_path [''srv'', ''data''], Target = abs_path [''srv'', ''data''], ReadOnly = True, MetadataOnly = False\<rparr>])"
  by (rule ancestors_visible [where cs = "[''srv'', ''data'']" and m = "\<lparr>Source = abs_path [''srv'', ''data''],
      Target = abs_path [''srv'', ''data''], ReadOnly = True, MetadataOnly = False\<rparr>"])
    (auto simp: path_comp_def strict_prefix_def)

text \<open>
  The pass adds nothing but metadata: the given mounts come first and unchanged, and each
  added mount is metadata-only, new, not the root, and lies above a granted mount.
\<close>

theorem ancestors_metadata_only:
  "\<exists>ds. AddAncestorMounts ms = ms @ map metadata_mount ds \<and> distinct ds \<and> set ds \<inter> Source ` set ms = {}
    \<and> list_all (\<lambda>d. d \<noteq> ''/'' \<and> list_ex (\<lambda>m. \<not> MetadataOnly m \<and> d \<in> set (ancestors_of (Source m))) ms) ds"
  by (rule AddAncestorMounts_spec [of ms]) (auto simp: list_all_iff list_ex_iff dir_stop_def)

text \<open>
  The condition of \<open>ancestors_visible\<close> is needed: a metadata-only mount of a directory stops the
  walk there, and the directories above it stay invisible.
\<close>

lemma ancestors_gap:
  "''/a'' \<notin> Source ` set (AddAncestorMounts
     [\<lparr>Source = ''/a/b/c'', Target = ''/a/b/c'', ReadOnly = False, MetadataOnly = False\<rparr>,
      \<lparr>Source = ''/a/b'', Target = ''/a/b'', ReadOnly = False, MetadataOnly = True\<rparr>])"
proof -
  have d: "filepath_Dir ''/a/b/c'' = ''/a/b''" by code_simp
  show ?thesis
    by (simp add: AddAncestorMounts_def d ancestor_loop.simps [of "''/a/b''"] dir_stop_def)
qed

text \<open>
  An accepted request mounts canonical paths only: the mount of each requested path has equal
  source and target, an absolute path whose components are neither empty nor \<open>.\<close> nor \<open>..\<close>, and
  carries the requested permissions.
\<close>

theorem request_mounts_canonical:
  assumes "buildMounts baseline paths = Inr ms" "ap \<in> set paths"
  shows "\<exists>cs. list_all path_comp cs \<and>
    \<lparr>Source = abs_path cs, Target = abs_path cs, ReadOnly = ap_ReadOnly ap, MetadataOnly = ap_MetadataOnly ap\<rparr> \<in> set ms"
proof -
  have b: "filepath_IsAbs (ap_Path ap)" "ms = AddAncestorMounts (baseline @ map request_mount paths)"
    using assms by (auto simp: buildMounts_Inr)
  obtain cs where cs: "filepath_Clean (ap_Path ap) = abs_path cs" "\<forall>c \<in> set cs. path_comp c"
    using clean_absI [OF b(1)] clean_absE by metis
  have "request_mount ap \<in> set ms"
    unfolding b(2) by (rule AddAncestorMounts_spec [of "baseline @ map request_mount paths"]) (use assms(2) in simp)
  with cs show ?thesis by (auto simp: request_mount_def list_all_iff)
qed

theorem request_mounts_canonical_witness:
  "\<exists>cs. list_all path_comp cs \<and>
    \<lparr>Source = abs_path cs, Target = abs_path cs, ReadOnly = True, MetadataOnly = False\<rparr> \<in>
      set (AddAncestorMounts [request_mount \<lparr>ap_Path = ''/srv/../etc'', ap_ReadOnly = True, ap_MetadataOnly = False\<rparr>])"
  using request_mounts_canonical [of "[]" "[\<lparr>ap_Path = ''/srv/../etc'', ap_ReadOnly = True, ap_MetadataOnly = False\<rparr>]"
      _ "\<lparr>ap_Path = ''/srv/../etc'', ap_ReadOnly = True, ap_MetadataOnly = False\<rparr>"]
  by (simp add: buildMounts_Inr filepath_IsAbs_def)

end
