(* ===== verification/ToolPaths.thy ===== *)
theory ToolPaths
  imports Config
begin

text \<open>
  \<open>sandbox/paths.go\<close>: the registry of tool directories, its discovery (cached by a
  \<open>sync.Once\<close>), and the \<open>PATH\<close> built from it. The lemmas say that only directories that
  exist are exposed, and that the dynamic ones lie strictly inside the daemon's home.
\<close>

section \<open>The registry\<close>

record ToolDir =
  BinDir :: string
  ReadDirs :: "string list"
  ExecDirs :: "string list"

definition darwinToolDirs :: "ToolDir list" where
  "darwinToolDirs =
     [\<lparr>BinDir = ''/opt/homebrew/bin'', ReadDirs = [''/opt/homebrew''], ExecDirs = [''/opt/homebrew'']\<rparr>]"

definition linuxToolDirs :: "ToolDir list" where
  "linuxToolDirs =
     [\<lparr>BinDir = ''/home/linuxbrew/.linuxbrew/bin'', ReadDirs = [''/home/linuxbrew/.linuxbrew''], ExecDirs = []\<rparr>,
      \<lparr>BinDir = ''/snap/bin'', ReadDirs = [''/snap''], ExecDirs = []\<rparr>,
      \<lparr>BinDir = ''/run/current-system/sw/bin'', ReadDirs = [''/run/current-system/sw''], ExecDirs = []\<rparr>]"

definition staticToolDirs :: "host \<Rightarrow> ToolDir list" where
  "staticToolDirs h = (if goos h = ''darwin'' then darwinToolDirs else linuxToolDirs)"

definition daemonHome :: "host \<Rightarrow> string" where
  "daemonHome h =
     (if getenv h ''HOME'' \<noteq> [] then getenv h ''HOME''
      else case os_UserHomeDir h of None \<Rightarrow> [] | Some d \<Rightarrow> d)"

definition resolveGOPATHBin :: "host \<Rightarrow> string" where
  "resolveGOPATHBin h =
     (if getenv h ''GOPATH'' \<noteq> [] then filepath_Join [getenv h ''GOPATH'', ''bin'']
      else if daemonHome h \<noteq> [] then filepath_Join [daemonHome h, ''go'', ''bin'']
      else [])"

definition resolveHomeSub :: "host \<Rightarrow> string list \<Rightarrow> string" where
  "resolveHomeSub h parts = (if daemonHome h = [] then [] else filepath_Join (daemonHome h # parts))"

definition add_bin_dir :: "string \<Rightarrow> ToolDir list" where
  "add_bin_dir binDir =
     (if binDir \<noteq> [] then [\<lparr>BinDir = binDir, ReadDirs = [binDir], ExecDirs = []\<rparr>] else [])"

definition dynamicToolDirs :: "host \<Rightarrow> ToolDir list" where
  "dynamicToolDirs h =
     add_bin_dir (resolveGOPATHBin h)
     @ add_bin_dir (resolveHomeSub h [''.cargo'', ''bin''])
     @ (let miseRoot = resolveHomeSub h [''.local'', ''share'', ''mise''] in
        if miseRoot \<noteq> []
        then [\<lparr>BinDir = filepath_Join [miseRoot, ''shims''], ReadDirs = [miseRoot], ExecDirs = []\<rparr>]
        else [])
     @ add_bin_dir (resolveHomeSub h [''.local'', ''bin''])
     @ add_bin_dir (resolveHomeSub h [''.bun'', ''bin''])
     @ add_bin_dir (resolveHomeSub h [''.proto'', ''bin''])"

section \<open>Discovery and its cache\<close>

text \<open>A directory is kept when it has a \<open>BinDir\<close> and \<open>os.Stat\<close> succeeds on it.\<close>

definition tool_dir_exists :: "host \<Rightarrow> ToolDir \<Rightarrow> bool" where
  "tool_dir_exists h td \<longleftrightarrow> BinDir td \<noteq> [] \<and> stat_path h (BinDir td) = Stat_ok"

definition discoverToolDirs :: "host \<Rightarrow> ToolDir list" where
  "discoverToolDirs h = filter (tool_dir_exists h) (staticToolDirs h @ dynamicToolDirs h)"

text \<open>
  \<open>sync.Once\<close> with its cached result: \<open>None\<close> before the first call. The function runs on the
  first call only; later calls return what it stored, whatever the host is by then.
\<close>

definition once_do :: "'a option \<Rightarrow> 'a \<Rightarrow> 'a \<times> 'a option" where
  "once_do cache v = (case cache of None \<Rightarrow> (v, Some v) | Some w \<Rightarrow> (w, cache))"

lemma once_do_idem: "fst (once_do (snd (once_do c v)) w) = fst (once_do c v)"
  by (simp add: once_do_def split: option.split)

lemma once_do_cached [simp]: "once_do (Some v) w = (v, Some v)"
  by (simp add: once_do_def)

definition allToolDirs :: "host \<Rightarrow> ToolDir list option \<Rightarrow> ToolDir list \<times> ToolDir list option" where
  "allToolDirs h cache = once_do cache (discoverToolDirs h)"

definition resetToolDirsCache :: "ToolDir list option \<Rightarrow> ToolDir list option" where
  "resetToolDirsCache cache = None"

text \<open>
  The functions below take \<open>tds\<close>, the value \<open>allToolDirs()\<close> returns where the code calls it;
  by \<open>once_do_idem\<close> every call after the first returns the same list.
\<close>

definition buildSandboxPATH :: "ToolDir list \<Rightarrow> string" where
  "buildSandboxPATH tds =
     strings_Join ([''/usr/bin'', ''/usr/local/bin'', ''/bin''] @ map BinDir tds) '':''"

definition seatbeltMetadataDirs :: "host \<Rightarrow> string list" where
  "seatbeltMetadataDirs h = (if goos h = ''darwin'' then [''/opt''] else [])"

section \<open>Where the tool directories lie\<close>

lemma filepath_Join_abs:
  assumes "\<forall>c \<in> set cs. path_comp c" "\<forall>c \<in> set ps. path_comp c" "ps \<noteq> []"
  shows "filepath_Join (abs_path cs # ps) = abs_path (cs @ ps)"
proof -
  have ne: "abs_path cs \<noteq> []" by (simp add: abs_path_def)
  have "clean_list (strings_Join (abs_path cs # ps) ''/'') = cs @ ps"
  proof -
    have sp: "strings_Split slash (strings_Join ps ''/'') = ps"
      using assms by (intro Split_Join) (auto simp: path_comp_def)
    have "strings_Join (abs_path cs # ps) ''/'' = abs_path cs @ slash # strings_Join ps ''/''"
      using assms(3) by (simp add: Join_Cons)
    then have "strings_Split slash (strings_Join (abs_path cs # ps) ''/'')
        = ([] # (if cs = [] then [[]] else cs)) @ ps"
      by (simp only: Split_append Split_abs_path [OF assms(1)] sp)
    moreover have "filepath_IsAbs (strings_Join (abs_path cs # ps) ''/'')"
      using assms(3) by (simp add: Join_Cons IsAbs_append ne)
    moreover have "clean_comps True (([] # (if cs = [] then [[]] else cs)) @ ps) [] = cs @ ps"
    proof (cases "cs = []")
      case True
      then show ?thesis
        using assms(2) by (simp del: clean_comps.simps add: clean_comps_skip clean_comps_id)
    next
      case False
      have "clean_comps True (cs @ ps) [] = rev [] @ (cs @ ps)"
        by (rule clean_comps_id) (use assms in auto)
      with False show ?thesis by (simp del: clean_comps.simps add: clean_comps_skip)
    qed
    ultimately show ?thesis by (simp only: clean_list_def)
  qed
  moreover have "filepath_IsAbs (strings_Join (abs_path cs # ps) ''/'')"
    using assms(3) by (simp add: Join_Cons IsAbs_append ne)
  ultimately show ?thesis
    using ne by (simp add: Clean_abs)
qed

lemma path_comp_consts [simp]:
  "path_comp ''bin''" "path_comp ''go''" "path_comp ''.cargo''" "path_comp ''.local''"
  "path_comp ''share''" "path_comp ''mise''" "path_comp ''shims''" "path_comp ''.bun''"
  "path_comp ''.proto''"
  by (simp_all add: path_comp_def)

lemma discovered_exists: "td \<in> set (discoverToolDirs h) \<Longrightarrow> stat_path h (BinDir td) = Stat_ok"
  by (auto simp: discoverToolDirs_def tool_dir_exists_def)

lemma dynamicToolDirs_inside_home:
  assumes "getenv h ''GOPATH'' = []" "getenv h ''HOME'' = abs_path cs"
    and "\<forall>c \<in> set cs. path_comp c"
    and "td \<in> set (dynamicToolDirs h)" "d \<in> set (BinDir td # ReadDirs td)"
  shows "\<exists>sub. sub \<noteq> [] \<and> d = abs_path (cs @ sub)"
proof -
  have ne: "abs_path cs \<noteq> []" by (simp add: abs_path_def)
  then have home: "daemonHome h = abs_path cs" using assms(2) by (simp add: daemonHome_def)
  have go: "resolveGOPATHBin h = abs_path (cs @ [''go'', ''bin''])"
    using assms(1) home ne filepath_Join_abs [OF assms(3), of "[''go'', ''bin'']"]
    by (simp add: resolveGOPATHBin_def del: filepath_Join.simps)
  have sub: "resolveHomeSub h ps = abs_path (cs @ ps)"
    if "\<forall>c \<in> set ps. path_comp c" "ps \<noteq> []" for ps
    using home ne filepath_Join_abs [OF assms(3) that]
    by (simp add: resolveHomeSub_def del: filepath_Join.simps)
  have "filepath_Join [abs_path (cs @ [''.local'', ''share'', ''mise'']), ''shims'']
      = abs_path ((cs @ [''.local'', ''share'', ''mise'']) @ [''shims''])"
    using assms(3) by (intro filepath_Join_abs) auto
  then have "d \<in> (\<lambda>sub. abs_path (cs @ sub)) `
      {[''go'', ''bin''], [''.cargo'', ''bin''], [''.local'', ''share'', ''mise''],
       [''.local'', ''share'', ''mise'', ''shims''], [''.local'', ''bin''], [''.bun'', ''bin''],
       [''.proto'', ''bin'']}"
    using assms(4,5)
    by (auto simp: dynamicToolDirs_def add_bin_dir_def go sub Let_def simp del: filepath_Join.simps
        split: if_splits)
  then show ?thesis by auto
qed

text \<open>The \<open>PATH\<close> lists the base directories first, then the bin directories in order.\<close>

lemma buildSandboxPATH_split:
  assumes "\<forall>td \<in> set tds. CHR '':'' \<notin> set (BinDir td)"
  shows "strings_Split (CHR '':'') (buildSandboxPATH tds) =
     [''/usr/bin'', ''/usr/local/bin'', ''/bin''] @ map BinDir tds"
  unfolding buildSandboxPATH_def by (rule Split_Join) (use assms in auto)

end
