(* ===== verification/EnvPolicy.thy ===== *)
theory EnvPolicy
  imports Mounts ToolPaths
begin

text \<open>
  The environment of a sandboxed command: the baseline allow list, its union with the
  operator's list and \<open>FilterEnv\<close> of \<open>sandbox/config.go\<close>; \<open>validateEnv\<close> and
  \<open>envMapToSlice\<close> of \<open>internal/daemon/handler.go\<close>; \<open>buildEnv\<close> of \<open>sandbox/sandbox.go\<close>.
  The env map of a request is a Go map: a list of its entries in iteration order.
\<close>

section \<open>The allow list\<close>

definition BaselineAllowEnv :: "string list" where
  "BaselineAllowEnv =
     [''USER'', ''LOGNAME'', ''LANG'', ''LC_*'', ''TZ'', ''HOME'', ''PWD'', ''TMPDIR'', ''SHELL'',
      ''COLUMNS'', ''LINES'', ''DEBUG'', ''CI'', ''NO_COLOR'', ''FORCE_COLOR'', ''TMUX'', ''TMUX_PANE'']"

text \<open>The package's \<open>init\<close>: \<open>False\<close> is its panic.\<close>

definition baseline_init :: "string list \<Rightarrow> bool" where
  "baseline_init ps \<longleftrightarrow>
     list_all (\<lambda>p. \<not> (p = ''PATH'' \<or> p = ''TERM'' \<or> p = ''GOTELEMETRY'')) ps"

fun dedup_into :: "string list \<Rightarrow> string list \<times> string set \<Rightarrow> string list \<times> string set" where
  "dedup_into [] acc = acc"
| "dedup_into (p # ps) acc =
     (if p \<in> snd acc then dedup_into ps acc
      else dedup_into ps (fst acc @ [p], insert p (snd acc)))"

definition EffectiveAllowEnv :: "Config \<Rightarrow> string list" where
  "EffectiveAllowEnv c = fst (dedup_into (AllowEnv c) (dedup_into BaselineAllowEnv ([], {})))"

section \<open>FilterEnv\<close>

fun key_matched :: "string list \<Rightarrow> string \<Rightarrow> bool" where
  "key_matched [] key = False"
| "key_matched (p # ps) key = (if filepath_Match p key = Some True then True else key_matched ps key)"

fun filter_loop :: "string list \<Rightarrow> (string, string) gomap \<Rightarrow>
    (string, string) gomap \<times> string list \<Rightarrow> (string, string) gomap \<times> string list" where
  "filter_loop patterns [] acc = acc"
| "filter_loop patterns ((key, value) # env) acc =
     (if key_matched patterns key
      then filter_loop patterns env (AList.update key value (fst acc), snd acc)
      else filter_loop patterns env (fst acc, snd acc @ [key]))"

text \<open>A nil map and an empty map are the same entries.\<close>

definition FilterEnv :: "Config \<Rightarrow> (string, string) gomap \<Rightarrow> (string, string) gomap \<times> string list" where
  "FilterEnv c env =
     (if env = [] then ([], [])
      else (let r = filter_loop (EffectiveAllowEnv c) env ([], [])
            in (fst r, sort (snd r))))"

section \<open>validateEnv\<close>

definition isAlpha :: "char \<Rightarrow> bool" where
  "isAlpha c \<longleftrightarrow> (CHR ''A'' \<le> c \<and> c \<le> CHR ''Z'') \<or> (CHR ''a'' \<le> c \<and> c \<le> CHR ''z'')"

definition isDigit :: "char \<Rightarrow> bool" where
  "isDigit c \<longleftrightarrow> CHR ''0'' \<le> c \<and> c \<le> CHR ''9''"

definition isValidEnvName :: "string \<Rightarrow> bool" where
  "isValidEnvName s \<longleftrightarrow> (case s of [] \<Rightarrow> False
     | c # cs \<Rightarrow> (isAlpha c \<or> c = CHR ''_'') \<and>
         list_all (\<lambda>c. isAlpha c \<or> isDigit c \<or> c = CHR ''_'') cs)"

datatype env_error = InvalidEnvName string | InvalidEnvValue string

fun validateEnv :: "(string, string) gomap \<Rightarrow> env_error + unit" where
  "validateEnv [] = Inr ()"
| "validateEnv ((key, val) # env) =
     (if \<not> isValidEnvName key then Inl (InvalidEnvName key)
      else if strings_ContainsAny val [CHR 0x00, CHR 0x0A, CHR 0x0D] then Inl (InvalidEnvValue key)
      else validateEnv env)"

definition envMapToSlice :: "(string, string) gomap \<Rightarrow> string list" where
  "envMapToSlice env = map (\<lambda>(k, v). k @ ''='' @ v) env"

section \<open>buildEnv\<close>

definition envContainsKey :: "string list \<Rightarrow> string \<Rightarrow> bool" where
  "envContainsKey env key = list_ex (\<lambda>e. strings_HasPrefix e (key @ ''='')) env"

definition buildEnv :: "ToolDir list \<Rightarrow> ExecConfig option \<Rightarrow> string \<Rightarrow> string list" where
  "buildEnv tds cfg fallbackHome =
     (let base = [''PATH='' @ buildSandboxPATH tds, ''TERM=dumb'', ''GOTELEMETRY=off'']
            @ (case cfg of None \<Rightarrow> [] | Some c \<Rightarrow> Env c)
      in if \<not> envContainsKey base ''HOME'' then
           (let home = (if fallbackHome \<noteq> [] then fallbackHome else ''/home/agent'')
            in hd base # (''HOME='' @ home) # tl base)
         else base)"

text \<open>
  What the started process sees of a variable: of several entries for a name \<open>os/exec\<close>
  keeps the last. An entry's name ends at its first \<open>=\<close>.
\<close>

definition env_entry_name :: "string \<Rightarrow> string" where
  "env_entry_name e = takeWhile (\<lambda>c. c \<noteq> CHR ''='') e"

definition exec_env_lookup :: "string list \<Rightarrow> string \<Rightarrow> string option" where
  "exec_env_lookup env key =
     map_option (\<lambda>e. drop (Suc (length key)) e)
       (find (\<lambda>e. env_entry_name e = key \<and> length key < length e) (rev env))"

section \<open>The effective allow list\<close>

lemma dedup_into_spec:
  assumes "set (fst acc) = snd acc" "distinct (fst acc)"
  shows "\<exists>ds. dedup_into ps acc = (fst acc @ ds, snd acc \<union> set ps)
    \<and> distinct (fst acc @ ds) \<and> set ds = set ps - snd acc \<and> subseq ds ps"
  using assms
proof (induction ps acc rule: dedup_into.induct)
  case (1 acc)
  then show ?case by (cases acc) (auto intro!: exI [of _ "[]"])
next
  case (2 p ps acc)
  show ?case
  proof (cases "p \<in> snd acc")
    case True
    with 2 obtain ds where "dedup_into ps acc = (fst acc @ ds, snd acc \<union> set ps)"
      "distinct (fst acc @ ds)" "set ds = set ps - snd acc" "subseq ds ps" by auto
    with True show ?thesis by (intro exI [of _ ds]) auto
  next
    case False
    have "set (fst (fst acc @ [p], insert p (snd acc))) = snd (fst acc @ [p], insert p (snd acc))"
      "distinct (fst (fst acc @ [p], insert p (snd acc)))"
      using False "2.prems" by auto
    from "2.IH"(2) [OF False this] obtain ds where ds:
      "dedup_into ps (fst acc @ [p], insert p (snd acc))
        = ((fst acc @ [p]) @ ds, insert p (snd acc) \<union> set ps)"
      "distinct ((fst acc @ [p]) @ ds)" "set ds = set ps - insert p (snd acc)" "subseq ds ps" by auto
    with False show ?thesis by (intro exI [of _ "p # ds"]) auto
  qed
qed

lemma distinct_Baseline: "distinct BaselineAllowEnv"
  by (simp add: BaselineAllowEnv_def)

lemma dedup_Baseline: "dedup_into BaselineAllowEnv ([], {}) = (BaselineAllowEnv, set BaselineAllowEnv)"
  by (simp add: BaselineAllowEnv_def insert_commute)

lemma EffectiveAllowEnv_spec:
  obtains ds where "EffectiveAllowEnv c = BaselineAllowEnv @ ds" "distinct (BaselineAllowEnv @ ds)"
    "set ds = set (AllowEnv c) - set BaselineAllowEnv" "subseq ds (AllowEnv c)"
  using dedup_into_spec [of "(BaselineAllowEnv, set BaselineAllowEnv)" "AllowEnv c"] distinct_Baseline
  unfolding EffectiveAllowEnv_def dedup_Baseline by auto

lemma set_EffectiveAllowEnv: "set (EffectiveAllowEnv c) = set BaselineAllowEnv \<union> set (AllowEnv c)"
  by (rule EffectiveAllowEnv_spec [of c]) auto

section \<open>Matching\<close>

lemma key_matched_iff: "key_matched ps key \<longleftrightarrow> (\<exists>p \<in> set ps. filepath_Match p key = Some True)"
  by (induction ps) auto

definition env_allowed :: "Config \<Rightarrow> string \<Rightarrow> bool" where
  "env_allowed c key \<longleftrightarrow>
     (\<exists>p \<in> set BaselineAllowEnv \<union> set (AllowEnv c). filepath_Match p key = Some True)"

lemma key_matched_Effective: "key_matched (EffectiveAllowEnv c) key \<longleftrightarrow> env_allowed c key"
  by (simp add: key_matched_iff env_allowed_def set_EffectiveAllowEnv)

lemma filter_loop_spec:
  "gomap_ok env \<Longrightarrow> gomap_ok (fst acc) \<Longrightarrow> fst ` set (fst acc) \<inter> fst ` set env = {} \<Longrightarrow>
   filter_loop ps env acc =
     (fst acc @ filter (\<lambda>kv. key_matched ps (fst kv)) env,
      snd acc @ map fst (filter (\<lambda>kv. \<not> key_matched ps (fst kv)) env))"
proof (induction ps env acc rule: filter_loop.induct)
  case (1 ps acc)
  then show ?case by simp
next
  case (2 ps key val env acc)
  have ok: "gomap_ok env" and k: "key \<notin> fst ` set env" "key \<notin> fst ` set (fst acc)"
    using "2.prems" by (auto simp: gomap_ok_def)
  have up: "AList.update key val (fst acc) = fst acc @ [(key, val)]"
    using k(2) by (simp add: update_fresh)
  show ?case
  proof (cases "key_matched ps key")
    case True
    have "gomap_ok (fst acc @ [(key, val)])"
      using "2.prems"(2) k(2) by (auto simp: gomap_ok_def)
    with 2 True ok k up show ?thesis by auto
  next
    case False
    with 2 ok show ?thesis by auto
  qed
qed

lemma FilterEnv_eq:
  assumes "gomap_ok env"
  shows "FilterEnv c env =
    (filter (\<lambda>kv. env_allowed c (fst kv)) env,
     sort (map fst (filter (\<lambda>kv. \<not> env_allowed c (fst kv)) env)))"
  using filter_loop_spec [OF assms, of "([], [])" "EffectiveAllowEnv c"]
  by (simp add: FilterEnv_def gomap_ok_Nil key_matched_Effective)

text \<open>Which keys the baseline lets through.\<close>

lemma glob_literal_Baseline: "p \<in> set BaselineAllowEnv \<Longrightarrow> p \<noteq> ''LC_*'' \<Longrightarrow> glob_literal p"
  by (auto simp: BaselineAllowEnv_def)

lemma Match_LC: "filepath_Match ''LC_*'' key =
    Some (strings_HasPrefix key ''LC_'' \<and> CHR ''/'' \<notin> set (drop 3 key))"
  using Match_literal_star [of "''LC_''" key] by (simp add: numeral_3_eq_3)

lemma Baseline_match_iff:
  "(\<exists>p \<in> set BaselineAllowEnv. filepath_Match p key = Some True) \<longleftrightarrow>
     key \<in> set BaselineAllowEnv - {''LC_*''} \<or>
     strings_HasPrefix key ''LC_'' \<and> CHR ''/'' \<notin> set (drop 3 key)"
proof -
  have lit: "filepath_Match p key = Some True \<longleftrightarrow> key = p"
    if "p \<in> set BaselineAllowEnv - {''LC_*''}" for p
    using Match_literal [OF glob_literal_Baseline, of p key] that by simp
  have "''LC_*'' \<in> set BaselineAllowEnv" by (simp add: BaselineAllowEnv_def)
  then have "set BaselineAllowEnv = insert ''LC_*'' (set BaselineAllowEnv - {''LC_*''})" by blast
  then have "(\<exists>p \<in> set BaselineAllowEnv. filepath_Match p key = Some True) \<longleftrightarrow>
      filepath_Match ''LC_*'' key = Some True \<or>
      (\<exists>p \<in> set BaselineAllowEnv - {''LC_*''}. filepath_Match p key = Some True)" by blast
  then show ?thesis using lit Match_LC by auto
qed

lemma Baseline_hardcoded:
  assumes "key \<in> {''PATH'', ''TERM'', ''GOTELEMETRY''}" "p \<in> set BaselineAllowEnv"
  shows "filepath_Match p key \<noteq> Some True"
proof
  assume "filepath_Match p key = Some True"
  then have "key \<in> set BaselineAllowEnv - {''LC_*''} \<or> strings_HasPrefix key ''LC_''"
    using Baseline_match_iff assms(2) by blast
  then show False using assms(1) by (auto simp: BaselineAllowEnv_def)
qed

section \<open>What the process sees\<close>

definition env_entries :: "string list \<Rightarrow> (string \<times> string) list" where
  "env_entries env =
     map (\<lambda>e. (env_entry_name e, drop (Suc (length (env_entry_name e))) e))
       (filter (\<lambda>e. CHR ''='' \<in> set e) env)"

lemma env_entry_name_length: "CHR ''='' \<in> set e \<longleftrightarrow> length (env_entry_name e) < length e"
  by (induction e) (auto simp: env_entry_name_def)

lemma find_map_of:
  "map_option (\<lambda>e. drop (Suc (length key)) e)
     (find (\<lambda>e. env_entry_name e = key \<and> length key < length e) es) = map_of (env_entries es) key"
  by (induction es) (auto simp: env_entries_def env_entry_name_length)

lemma exec_env_lookup_map_of: "exec_env_lookup env key = map_of (rev (env_entries env)) key"
proof -
  have "rev (env_entries env) = env_entries (rev env)"
    by (simp add: env_entries_def rev_map rev_filter)
  then show ?thesis by (simp add: exec_env_lookup_def find_map_of)
qed

lemma env_entries_append [simp]: "env_entries (xs @ ys) = env_entries xs @ env_entries ys"
  by (simp add: env_entries_def)

lemma env_entry_name_kv: "CHR ''='' \<notin> set k \<Longrightarrow> env_entry_name (k @ CHR ''='' # v) = k"
  unfolding env_entry_name_def by (rule takeWhile_append_stop) auto

lemma env_entries_kv:
  "CHR ''='' \<notin> set k \<Longrightarrow> env_entries ((k @ CHR ''='' # v) # es) = (k, v) # env_entries es"
  by (simp add: env_entries_def env_entry_name_kv)

lemma valid_name_no_eq: "isValidEnvName k \<Longrightarrow> CHR ''='' \<notin> set k"
  by (cases k) (auto simp: isValidEnvName_def list_all_iff isAlpha_def isDigit_def less_eq_char_def)

lemma env_entries_slice:
  "\<forall>kv \<in> set m. CHR ''='' \<notin> set (fst kv) \<Longrightarrow> env_entries (envMapToSlice m) = m"
proof (induction m)
  case Nil
  then show ?case by (simp add: envMapToSlice_def env_entries_def)
next
  case (Cons kv m)
  obtain k v where kv: "kv = (k, v)" by (cases kv)
  with Cons have "env_entries (envMapToSlice m) = m" "CHR ''='' \<notin> set k" by simp_all
  then show ?case using kv env_entries_kv [of k v] by (simp add: envMapToSlice_def)
qed

definition good_env_entry :: "string \<times> string \<Rightarrow> bool" where
  "good_env_entry kv \<longleftrightarrow> isValidEnvName (fst kv)
     \<and> set (snd kv) \<inter> {CHR 0x00, CHR 0x0A, CHR 0x0D} = {}"

lemma good_env_entry_iff:
  "good_env_entry (k, v) \<longleftrightarrow>
     isValidEnvName k \<and> \<not> strings_ContainsAny v [CHR 0x00, CHR 0x0A, CHR 0x0D]"
  by (simp add: good_env_entry_def ContainsAny_iff)

lemma validateEnv_Inr: "validateEnv env = Inr u \<longleftrightarrow> (\<forall>kv \<in> set env. good_env_entry kv)"
proof (induction env)
  case Nil
  then show ?case by simp
next
  case (Cons kv env)
  obtain k v where kv: "kv = (k, v)" by (cases kv)
  have "validateEnv (kv # env) = Inr u \<longleftrightarrow> good_env_entry kv \<and> validateEnv env = Inr u"
    by (simp add: kv good_env_entry_iff)
  with Cons.IH show ?case by simp
qed

definition bad_env_entry :: "string \<times> string \<Rightarrow> env_error \<Rightarrow> bool" where
  "bad_env_entry kv e \<longleftrightarrow>
     (e = InvalidEnvName (fst kv) \<and> \<not> isValidEnvName (fst kv)) \<or>
     (e = InvalidEnvValue (fst kv) \<and> strings_ContainsAny (snd kv) [CHR 0x00, CHR 0x0A, CHR 0x0D])"

lemma validateEnv_Inl: "validateEnv env = Inl e \<Longrightarrow> \<exists>kv \<in> set env. bad_env_entry kv e"
proof (induction env)
  case Nil
  then show ?case by simp
next
  case (Cons kv env)
  obtain k v where kv: "kv = (k, v)" by (cases kv)
  show ?case
  proof (cases "validateEnv env = Inl e")
    case True
    with Cons.IH show ?thesis by auto
  next
    case False
    with Cons.prems kv have "bad_env_entry kv e" by (simp add: bad_env_entry_def split: if_splits)
    then show ?thesis by simp
  qed
qed

lemma envContainsKey_slice:
  assumes "\<forall>kv \<in> set m. CHR ''='' \<notin> set (fst kv)" "CHR ''='' \<notin> set k"
  shows "envContainsKey (envMapToSlice m) k \<longleftrightarrow> k \<in> fst ` set m"
proof -
  have "strings_HasPrefix (k' @ ''='' @ v) (k @ ''='') \<longleftrightarrow> k' = k"
    if "CHR ''='' \<notin> set k'" for k' v
  proof
    assume "strings_HasPrefix (k' @ ''='' @ v) (k @ ''='')"
    then obtain r where "k' @ CHR ''='' # v = k @ CHR ''='' # r" by (auto simp: HasPrefix_iff)
    then show "k' = k" using env_entry_name_kv that assms(2) by metis
  qed (simp add: HasPrefix_iff)
  then show ?thesis
    using assms(1) by (auto simp: envContainsKey_def envMapToSlice_def list_ex_iff image_iff split: prod.splits) force+
qed

text \<open>The values the sandbox sets itself, where the request's variables do not override them.\<close>

definition builtin_env :: "ToolDir list \<Rightarrow> string \<Rightarrow> string \<Rightarrow> string option" where
  "builtin_env tds fallbackHome k =
     (if k = ''PATH'' then Some (buildSandboxPATH tds)
      else if k = ''TERM'' then Some ''dumb''
      else if k = ''GOTELEMETRY'' then Some ''off''
      else if k = ''HOME'' then Some (if fallbackHome \<noteq> [] then fallbackHome else ''/home/agent'')
      else None)"

lemma buildEnv_lookup:
  assumes "gomap_ok m" "\<forall>kv \<in> set m. CHR ''='' \<notin> set (fst kv)" "Env c = envMapToSlice m"
  shows "exec_env_lookup (buildEnv tds (Some c) fb) k =
    (case map_of m k of Some v \<Rightarrow> Some v | None \<Rightarrow> builtin_env tds fb k)"
proof -
  let ?P = "''PATH='' @ buildSandboxPATH tds"
  let ?H = "''HOME='' @ (if fb \<noteq> [] then fb else ''/home/agent'')"
  have home: "envContainsKey ([?P, ''TERM=dumb'', ''GOTELEMETRY=off''] @ Env c) ''HOME''
      \<longleftrightarrow> ''HOME'' \<in> fst ` set m"
    using envContainsKey_slice [OF assms(2), of "''HOME''"] assms(3)
    by (simp add: envContainsKey_def)
  have ents: "env_entries [?P] = [(''PATH'', buildSandboxPATH tds)]"
    "env_entries [?P, ?H] = [(''PATH'', buildSandboxPATH tds),
        (''HOME'', if fb \<noteq> [] then fb else ''/home/agent'')]"
    "env_entries [''TERM=dumb'', ''GOTELEMETRY=off''] = [(''TERM'', ''dumb''), (''GOTELEMETRY'', ''off'')]"
    by (simp_all add: env_entries_def env_entry_name_def)
  have m: "env_entries (Env c) = m" using assms by (simp add: env_entries_slice)
  show ?thesis
  proof (cases "''HOME'' \<in> fst ` set m")
    case True
    have "buildEnv tds (Some c) fb = [?P] @ [''TERM=dumb'', ''GOTELEMETRY=off''] @ Env c"
      using True home by (simp add: buildEnv_def Let_def)
    then have "exec_env_lookup (buildEnv tds (Some c) fb) k =
        map_of (rev m @ [(''GOTELEMETRY'', ''off''), (''TERM'', ''dumb''), (''PATH'', buildSandboxPATH tds)]) k"
      by (simp only: exec_env_lookup_map_of env_entries_append ents m) simp
    moreover have "k = ''HOME'' \<Longrightarrow> map_of m k \<noteq> None"
      using True by (metis map_of_eq_None_iff)
    ultimately show ?thesis
      using assms(1) by (auto simp: map_add_def map_of_rev_ok builtin_env_def split: option.splits)
  next
    case False
    have "buildEnv tds (Some c) fb = [?P, ?H] @ [''TERM=dumb'', ''GOTELEMETRY=off''] @ Env c"
      using False home by (simp add: buildEnv_def Let_def)
    then have "exec_env_lookup (buildEnv tds (Some c) fb) k =
        map_of (rev m @ [(''GOTELEMETRY'', ''off''), (''TERM'', ''dumb''),
          (''HOME'', if fb \<noteq> [] then fb else ''/home/agent''), (''PATH'', buildSandboxPATH tds)]) k"
      by (simp only: exec_env_lookup_map_of env_entries_append ents m) simp
    then show ?thesis
      using assms(1) by (auto simp: map_add_def map_of_rev_ok builtin_env_def split: option.splits)
  qed
qed

section \<open>Properties\<close>

text \<open>
  \<open>FilterEnv\<close> splits a request's variables exactly: a variable is kept, with its value,
  if and only if some baseline or operator pattern matches its name; the stripped names are
  the others, each once and in order.
\<close>

theorem FilterEnv_partition:
  assumes "gomap_ok env"
  shows "map_of (fst (FilterEnv c env)) k = (if env_allowed c k then map_of env k else None)
    \<and> set (snd (FilterEnv c env)) = {k. map_of env k \<noteq> None \<and> \<not> env_allowed c k}
    \<and> sorted (snd (FilterEnv c env)) \<and> distinct (snd (FilterEnv c env))"
proof -
  have d: "distinct (map fst (filter (\<lambda>kv. \<not> env_allowed c (fst kv)) env))"
    using gomap_ok_filter [OF assms] by (simp add: gomap_ok_def)
  have "map_of (filter (\<lambda>kv. env_allowed c (fst kv)) env) k = (if env_allowed c k then map_of env k else None)"
  proof (cases "map_of (filter (\<lambda>kv. env_allowed c (fst kv)) env) k")
    case (Some v)
    then show ?thesis using gomap_filter_lookup [OF assms, of "\<lambda>kv. env_allowed c (fst kv)" k v] by simp
  next
    case None
    then have "\<not> (map_of env k = Some v \<and> env_allowed c k)" for v
      using gomap_filter_lookup [OF assms, of "\<lambda>kv. env_allowed c (fst kv)" k v] by simp
    with None show ?thesis by (cases "map_of env k") auto
  qed
  moreover have "fst ` {kv \<in> set env. \<not> env_allowed c (fst kv)} = {k \<in> fst ` set env. \<not> env_allowed c k}" by auto
  then have "fst ` {kv \<in> set env. \<not> env_allowed c (fst kv)} = {k. map_of env k \<noteq> None \<and> \<not> env_allowed c k}"
    by (simp only: map_of_eq_None_iff [of env] not_not)
  ultimately show ?thesis using d by (simp add: FilterEnv_eq [OF assms])
qed

theorem FilterEnv_partition_witness:
  "map_of (fst (FilterEnv zero_Config [(''USER'', ''u''), (''SECRET'', ''x'')])) ''USER'' =
     (if env_allowed zero_Config ''USER'' then Some ''u'' else None)"
  using FilterEnv_partition [of "[(''USER'', ''u''), (''SECRET'', ''x'')]" zero_Config "''USER''"]
  by (simp add: gomap_ok_def)

text \<open>
  C31. The order in which Go visits the map does not matter: for two lists of the same entries
  \<open>validateEnv\<close> accepts both or neither, and \<open>FilterEnv\<close> keeps the same variables and reports
  the same stripped names.
\<close>

theorem env_order_irrelevant:
  assumes "gomap_ok env" "gomap_ok env'" "map_of env = map_of env'"
  shows "(validateEnv env = Inr () \<longleftrightarrow> validateEnv env' = Inr ())
    \<and> map_of (fst (FilterEnv c env)) = map_of (fst (FilterEnv c env'))
    \<and> snd (FilterEnv c env) = snd (FilterEnv c env')"
proof -
  have s: "set env = set env'"
    using gomap_lookup_iff [OF assms(1)] gomap_lookup_iff [OF assms(2)] assms(3) by auto
  let ?f = "\<lambda>env. map fst (filter (\<lambda>kv. \<not> env_allowed c (fst kv)) env)"
  have "sort (?f env) = sort (?f env')"
    by (rule sort_set_eq)
      (use gomap_ok_filter [OF assms(1)] gomap_ok_filter [OF assms(2)] s in \<open>auto simp: gomap_ok_def\<close>)
  then have "snd (FilterEnv c env) = snd (FilterEnv c env')"
    by (simp add: FilterEnv_eq [OF assms(1)] FilterEnv_eq [OF assms(2)])
  moreover have "map_of (fst (FilterEnv c env)) = map_of (fst (FilterEnv c env'))"
  proof
    fix k
    have "map_of (filter (\<lambda>kv. env_allowed c (fst kv)) env) k = Some v \<longleftrightarrow>
        map_of (filter (\<lambda>kv. env_allowed c (fst kv)) env') k = Some v" for v
      using gomap_filter_lookup [OF assms(1)] gomap_filter_lookup [OF assms(2)] assms(3) by metis
    then show "map_of (fst (FilterEnv c env)) k = map_of (fst (FilterEnv c env')) k"
      by (simp add: FilterEnv_eq [OF assms(1)] FilterEnv_eq [OF assms(2)]) (metis not_None_eq)
  qed
  ultimately show ?thesis by (simp add: validateEnv_Inr s)
qed

theorem env_order_irrelevant_witness:
  "snd (FilterEnv zero_Config [(''A'', ''1''), (''B'', ''2'')]) = snd (FilterEnv zero_Config [(''B'', ''2''), (''A'', ''1'')])"
  using env_order_irrelevant [of "[(''A'', ''1''), (''B'', ''2'')]" "[(''B'', ''2''), (''A'', ''1'')]" zero_Config]
  by (simp add: gomap_ok_def fun_eq_iff)

text \<open>The names that the baseline lets through, and those a configuration adds.\<close>

lemma env_allowed_iff:
  "env_allowed c key \<longleftrightarrow> key \<in> set BaselineAllowEnv - {''LC_*''}
     \<or> strings_HasPrefix key ''LC_'' \<and> CHR ''/'' \<notin> set (drop 3 key)
     \<or> (\<exists>p \<in> set (AllowEnv c). filepath_Match p key = Some True)"
  using Baseline_match_iff [of key] by (auto simp: env_allowed_def)

text \<open>
  C30. What \<open>FilterEnv\<close> lets through: a variable keeps its value exactly if its name is one of the
  baseline's names, or starts with \<open>LC_\<close> (and has no slash after it), or matches a pattern of the
  operator's, whether or not there are such patterns, and every other name is reported as stripped,
  in order; so without a pattern for it no request can set \<open>PATH\<close>, \<open>TERM\<close>, \<open>GOTELEMETRY\<close> or
  \<open>LD_PRELOAD\<close>.
\<close>

theorem baseline_policy:
  assumes "gomap_ok env" "FilterEnv c env = (allowed, stripped)"
  shows "map_of allowed key =
      (if key \<in> {''USER'', ''LOGNAME'', ''LANG'', ''TZ'', ''HOME'', ''PWD'', ''TMPDIR'', ''SHELL'', ''COLUMNS'', ''LINES'',
          ''DEBUG'', ''CI'', ''NO_COLOR'', ''FORCE_COLOR'', ''TMUX'', ''TMUX_PANE''}
         \<or> strings_HasPrefix key ''LC_'' \<and> CHR ''/'' \<notin> set (drop 3 key)
         \<or> (\<exists>p \<in> set (AllowEnv c). filepath_Match p key = Some True)
       then map_of env key else None)
    \<and> sorted stripped \<and> distinct stripped \<and> set stripped = dom (map_of env) - dom (map_of allowed)
    \<and> (AllowEnv c = [] \<longrightarrow> set [''PATH'', ''TERM'', ''GOTELEMETRY'', ''LD_PRELOAD''] \<inter> dom (map_of allowed) = {})"
proof -
  have names: "set BaselineAllowEnv - {''LC_*''} =
      {''USER'', ''LOGNAME'', ''LANG'', ''TZ'', ''HOME'', ''PWD'', ''TMPDIR'', ''SHELL'', ''COLUMNS'', ''LINES'',
          ''DEBUG'', ''CI'', ''NO_COLOR'', ''FORCE_COLOR'', ''TMUX'', ''TMUX_PANE''}"
    by (auto simp: BaselineAllowEnv_def)
  have f: "allowed = filter (\<lambda>kv. env_allowed c (fst kv)) env"
    "stripped = sort (map fst (filter (\<lambda>kv. \<not> env_allowed c (fst kv)) env))"
    using FilterEnv_eq [OF assms(1), of c] assms(2) by simp_all
  have d: "distinct (map fst env)" using assms(1) by (simp add: gomap_ok_def)
  have get: "map_of allowed k = (if env_allowed c k then map_of env k else None)" for k
    unfolding f(1) by (induction env) auto
  have "k \<in> set stripped \<longleftrightarrow> k \<in> fst ` set env \<and> \<not> env_allowed c k" for k by (auto simp: f(2))
  moreover have "k \<in> dom (map_of allowed) \<longleftrightarrow> k \<in> fst ` set env \<and> env_allowed c k" for k
    by (auto simp: dom_map_of_conv_image_fst f(1))
  ultimately have "set stripped = dom (map_of env) - dom (map_of allowed)"
    by (auto simp: dom_map_of_conv_image_fst)
  moreover have "distinct stripped" "sorted stripped" using d by (simp_all add: f(2) distinct_map_filter)
  moreover have "set [''PATH'', ''TERM'', ''GOTELEMETRY'', ''LD_PRELOAD''] \<inter> dom (map_of allowed) = {}" if "AllowEnv c = []"
    using that by (auto simp: get env_allowed_iff names split: if_splits)
  ultimately show ?thesis using get [of key] env_allowed_iff [of c key, unfolded names] by simp
qed

theorem baseline_policy_witness:
  "map_of (fst (FilterEnv zero_Config [(''PATH'', ''/x''), (''LC_ALL'', ''C'')])) ''LC_ALL'' = Some ''C''
   \<and> set (snd (FilterEnv zero_Config [(''PATH'', ''/x''), (''LC_ALL'', ''C'')])) = {''PATH''}"
proof -
  let ?env = "[(''PATH'', ''/x''), (''LC_ALL'', ''C'')]"
  have ok: "gomap_ok ?env" by (simp add: gomap_ok_def)
  note p = baseline_policy [OF ok prod.collapse [symmetric], of zero_Config]
  have lc: "map_of (fst (FilterEnv zero_Config ?env)) ''LC_ALL'' = Some ''C''"
    using p [of "''LC_ALL''"] by simp
  moreover have "map_of (fst (FilterEnv zero_Config ?env)) ''PATH'' = None"
    using p [of "''PATH''"] by (simp add: zero_Config_def)
  ultimately have "dom (map_of ?env) - dom (map_of (fst (FilterEnv zero_Config ?env))) = {''PATH''}"
    by (auto simp: dom_def split: if_splits)
  with lc p show ?thesis by simp
qed

end
