(* ===== verification/Bwrap.thy ===== *)
theory Bwrap
  imports Mounts ToolPaths
begin

text \<open>
  The bubblewrap command line: \<open>buildArgs\<close> of \<open>sandbox/bwrap.go\<close> and its helpers. The
  abstract view is a list of mount options, \<open>bwrap_options\<close>; a reader of bubblewrap's
  option syntax, \<open>parse_args\<close>, recovers exactly these options and the command from the
  argument vector, whatever the paths and the command contain.
\<close>

section \<open>Definitions\<close>

record BwrapSandbox =
  BwrapPath :: string
  bw_Timeout :: duration
  MemoryLimitMB :: go_int
  KubernetesMode :: bool

definition isSubdirOf :: "string \<Rightarrow> string \<Rightarrow> bool" where
  "isSubdirOf child parent \<longleftrightarrow>
     length child > length parent \<and> take (Suc (length parent)) child = parent @ ''/''"

definition bwrapStaticRoots :: "string list" where
  "bwrapStaticRoots = [''/usr'', ''/bin'', ''/lib'']"

definition coveredByStaticRoot :: "string \<Rightarrow> bool" where
  "coveredByStaticRoot path = list_ex (\<lambda>root. path = root \<or> isSubdirOf path root) bwrapStaticRoots"

fun isBound :: "string list \<Rightarrow> string \<Rightarrow> bool" where
  "isBound (a # b # args) source =
     ((a = ''--ro-bind'' \<or> a = ''--bind'') \<and> b = source \<or> isBound (b # args) source)"
| "isBound args source = False"

fun tool_bind_loop :: "host \<Rightarrow> string list \<Rightarrow> string set \<Rightarrow> string list \<Rightarrow> string list" where
  "tool_bind_loop h [] seen args = args"
| "tool_bind_loop h (rd # rds) seen args =
     (if rd \<in> seen then tool_bind_loop h rds seen args
      else if coveredByStaticRoot rd then tool_bind_loop h rds seen args
      else if stat_path h rd \<noteq> Stat_ok then tool_bind_loop h rds seen args
      else tool_bind_loop h rds (insert rd seen) (args @ [''--ro-bind'', rd, rd]))"

text \<open>The two nested loops over the tool directories and their \<open>ReadDirs\<close> share \<open>seen\<close>.\<close>

definition appendBwrapToolBinds :: "host \<Rightarrow> ToolDir list \<Rightarrow> string list \<Rightarrow> string list" where
  "appendBwrapToolBinds h tds args = tool_bind_loop h (concat (map ReadDirs tds)) {} args"

definition bwrapNixStorePath :: string where
  "bwrapNixStorePath = ''/nix/store''"

definition appendNixStoreBind :: "host \<Rightarrow> string list \<Rightarrow> string list" where
  "appendNixStoreBind h args =
     (if stat_path h bwrapNixStorePath \<noteq> Stat_ok then args
      else if isBound args bwrapNixStorePath then args
      else args @ [''--ro-bind'', bwrapNixStorePath, bwrapNixStorePath])"

fun mount_loop :: "host \<Rightarrow> Mount list \<Rightarrow> string list \<Rightarrow> string list" where
  "mount_loop h [] args = args"
| "mount_loop h (m # ms) args =
     (if MetadataOnly m then mount_loop h ms args
      else if stat_path h (Source m) \<noteq> Stat_ok then mount_loop h ms args
      else if ReadOnly m then mount_loop h ms (args @ [''--ro-bind'', Source m, Target m])
      else mount_loop h ms (args @ [''--bind'', Source m, Target m]))"

definition static_args :: "bool \<Rightarrow> string list" where
  "static_args kubernetes =
     (if kubernetes then
        [''--ro-bind'', ''/usr'', ''/usr'', ''--ro-bind'', ''/bin'', ''/bin'',
         ''--tmpfs'', ''/tmp'', ''--tmpfs'', ''/home/agent'',
         ''--unshare-user-try'', ''--unshare-ipc'', ''--unshare-uts'', ''--unshare-cgroup-try'']
      else
        [''--ro-bind'', ''/usr'', ''/usr'', ''--ro-bind'', ''/bin'', ''/bin'',
         ''--tmpfs'', ''/tmp'', ''--tmpfs'', ''/home/agent'',
         ''--proc'', ''/proc'', ''--unshare-all''])"

definition common_args :: "string list" where
  "common_args =
     [''--share-net'', ''--dev'', ''/dev'',
      ''--ro-bind'', ''/etc/resolv.conf'', ''/etc/resolv.conf'',
      ''--ro-bind'', ''/etc/ssl/certs'', ''/etc/ssl/certs'',
      ''--ro-bind'', ''/etc/hosts'', ''/etc/hosts'', ''--die-with-parent'']"

definition buildArgs :: "host \<Rightarrow> ToolDir list \<Rightarrow> BwrapSandbox \<Rightarrow> string \<Rightarrow> ExecConfig option \<Rightarrow> string list" where
  "buildArgs h tds s command cfg =
     (let args = static_args (KubernetesMode s);
          args = args @ common_args;
          args = (if goos h = ''linux''
                  then args @ [''--ro-bind'', ''/lib'', ''/lib'', ''--symlink'', ''/usr/lib64'', ''/lib64'']
                  else args);
          args = appendBwrapToolBinds h tds args;
          args = appendNixStoreBind h args;
          args = (case cfg of None \<Rightarrow> args | Some c \<Rightarrow> mount_loop h (MountDirs c) args);
          args = (case cfg of None \<Rightarrow> args
                  | Some c \<Rightarrow> if WorkingDir c \<noteq> [] then args @ [''--chdir'', WorkingDir c] else args)
      in args @ [''--'', ''bash'', ''-c'', command])"

section \<open>Options, abstractly\<close>

datatype bwrap_option =
    RoBind string string | BindRW string string | Tmpfs string | Proc string | Dev string
  | Symlink string string | Chdir string | Flag string

definition bwrap_flags :: "string list" where
  "bwrap_flags = [''--unshare-all'', ''--unshare-user-try'', ''--unshare-ipc'', ''--unshare-uts'',
     ''--unshare-cgroup-try'', ''--share-net'', ''--die-with-parent'']"

fun render_option :: "bwrap_option \<Rightarrow> string list" where
  "render_option (RoBind s t) = [''--ro-bind'', s, t]"
| "render_option (BindRW s t) = [''--bind'', s, t]"
| "render_option (Tmpfs d) = [''--tmpfs'', d]"
| "render_option (Proc d) = [''--proc'', d]"
| "render_option (Dev d) = [''--dev'', d]"
| "render_option (Symlink s d) = [''--symlink'', s, d]"
| "render_option (Chdir d) = [''--chdir'', d]"
| "render_option (Flag f) = [f]"

text \<open>
  Bubblewrap reads its options left to right, each with its number of operands, up to \<open>--\<close>;
  the rest is the command.
\<close>

fun parse_args :: "string list \<Rightarrow> (bwrap_option list \<times> string list) option" where
  "parse_args [] = None"
| "parse_args (a # args) =
     (if a = ''--'' then Some ([], args)
      else if a \<in> set bwrap_flags then map_option (apfst (Cons (Flag a))) (parse_args args)
      else (case args of [] \<Rightarrow> None
        | x # rest \<Rightarrow>
          if a = ''--tmpfs'' then map_option (apfst (Cons (Tmpfs x))) (parse_args rest)
          else if a = ''--proc'' then map_option (apfst (Cons (Proc x))) (parse_args rest)
          else if a = ''--dev'' then map_option (apfst (Cons (Dev x))) (parse_args rest)
          else if a = ''--chdir'' then map_option (apfst (Cons (Chdir x))) (parse_args rest)
          else (case rest of [] \<Rightarrow> None
            | y # rest2 \<Rightarrow>
              if a = ''--ro-bind'' then map_option (apfst (Cons (RoBind x y))) (parse_args rest2)
              else if a = ''--bind'' then map_option (apfst (Cons (BindRW x y))) (parse_args rest2)
              else if a = ''--symlink'' then map_option (apfst (Cons (Symlink x y))) (parse_args rest2)
              else None)))"

declare parse_args.simps(2) [simp del]

definition option_ok :: "bwrap_option \<Rightarrow> bool" where
  "option_ok opt \<longleftrightarrow> (case opt of Flag f \<Rightarrow> f \<in> set bwrap_flags | _ \<Rightarrow> True)"

lemma parse_render_option:
  "option_ok opt \<Longrightarrow> parse_args (render_option opt @ rest) = map_option (apfst (Cons opt)) (parse_args rest)"
  by (cases opt) (auto simp: option_ok_def parse_args.simps(2) bwrap_flags_def)

lemma parse_render:
  "list_all option_ok opts \<Longrightarrow>
   parse_args (concat (map render_option opts) @ ''--'' # argv) = Some (opts, argv)"
proof (induction opts)
  case Nil
  then show ?case by (simp add: parse_args.simps(2))
next
  case (Cons opt opts)
  then show ?case by (simp add: parse_render_option)
qed

text \<open>What \<open>buildArgs\<close> asks bubblewrap for.\<close>

definition first_occurrences :: "'a list \<Rightarrow> 'a list" where
  "first_occurrences xs = rev (remdups (rev xs))"

definition tool_binds :: "host \<Rightarrow> ToolDir list \<Rightarrow> string list" where
  "tool_binds h tds =
     first_occurrences (filter (\<lambda>rd. \<not> coveredByStaticRoot rd \<and> stat_path h rd = Stat_ok)
       (concat (map ReadDirs tds)))"

definition granted_mounts :: "host \<Rightarrow> Mount list \<Rightarrow> Mount list" where
  "granted_mounts h ms = filter (\<lambda>m. \<not> MetadataOnly m \<and> stat_path h (Source m) = Stat_ok) ms"

definition mount_option :: "Mount \<Rightarrow> bwrap_option" where
  "mount_option m = (if ReadOnly m then RoBind (Source m) (Target m) else BindRW (Source m) (Target m))"

definition isolation_options :: "bool \<Rightarrow> bwrap_option list" where
  "isolation_options kubernetes =
     [RoBind ''/usr'' ''/usr'', RoBind ''/bin'' ''/bin'', Tmpfs ''/tmp'', Tmpfs ''/home/agent'']
     @ (if kubernetes
        then map Flag [''--unshare-user-try'', ''--unshare-ipc'', ''--unshare-uts'', ''--unshare-cgroup-try'']
        else [Proc ''/proc'', Flag ''--unshare-all''])
     @ [Flag ''--share-net'', Dev ''/dev'', RoBind ''/etc/resolv.conf'' ''/etc/resolv.conf'',
        RoBind ''/etc/ssl/certs'' ''/etc/ssl/certs'', RoBind ''/etc/hosts'' ''/etc/hosts'',
        Flag ''--die-with-parent'']"

definition system_options :: "host \<Rightarrow> ToolDir list \<Rightarrow> BwrapSandbox \<Rightarrow> bwrap_option list" where
  "system_options h tds s =
     isolation_options (KubernetesMode s)
     @ (if goos h = ''linux'' then [RoBind ''/lib'' ''/lib'', Symlink ''/usr/lib64'' ''/lib64''] else [])
     @ map (\<lambda>rd. RoBind rd rd) (tool_binds h tds)
     @ (if stat_path h ''/nix/store'' = Stat_ok \<and> ''/nix/store'' \<notin> set (tool_binds h tds)
        then [RoBind ''/nix/store'' ''/nix/store''] else [])"

definition bwrap_options :: "host \<Rightarrow> ToolDir list \<Rightarrow> BwrapSandbox \<Rightarrow> ExecConfig option \<Rightarrow> bwrap_option list" where
  "bwrap_options h tds s cfg =
     system_options h tds s
     @ (case cfg of None \<Rightarrow> []
        | Some c \<Rightarrow> map mount_option (granted_mounts h (MountDirs c))
            @ (if WorkingDir c \<noteq> [] then [Chdir (WorkingDir c)] else []))"

section \<open>The loops append what the abstract view says\<close>

lemma first_occurrences_Cons_filter:
  "first_occurrences (x # xs) = x # first_occurrences (filter (\<lambda>y. y \<noteq> x) xs)"
proof -
  have "remdups (ys @ [x]) = remdups (filter (\<lambda>y. y \<noteq> x) ys) @ [x]" for ys
    by (induction ys) auto
  then show ?thesis by (simp add: first_occurrences_def rev_filter)
qed

lemma tool_bind_loop_spec:
  "tool_bind_loop h rds seen args =
     args @ concat (map (\<lambda>rd. [''--ro-bind'', rd, rd])
       (first_occurrences (filter (\<lambda>rd. rd \<notin> seen \<and> \<not> coveredByStaticRoot rd \<and> stat_path h rd = Stat_ok) rds)))"
proof (induction rds arbitrary: seen args)
  case Nil
  then show ?case by (simp add: first_occurrences_def)
next
  case (Cons rd rds)
  show ?case
  proof (cases "rd \<notin> seen \<and> \<not> coveredByStaticRoot rd \<and> stat_path h rd = Stat_ok")
    case True
    have "filter (\<lambda>x. x \<notin> insert rd seen \<and> \<not> coveredByStaticRoot x \<and> stat_path h x = Stat_ok) rds =
        filter (\<lambda>y. y \<noteq> rd) (filter (\<lambda>x. x \<notin> seen \<and> \<not> coveredByStaticRoot x \<and> stat_path h x = Stat_ok) rds)"
      by (auto intro: filter_cong)
    with True Cons.IH show ?thesis by (simp add: first_occurrences_Cons_filter)
  next
    case False
    with Cons.IH show ?thesis by auto
  qed
qed

lemma appendBwrapToolBinds_spec:
  "appendBwrapToolBinds h tds args =
     args @ concat (map render_option (map (\<lambda>rd. RoBind rd rd) (tool_binds h tds)))"
  by (simp add: appendBwrapToolBinds_def tool_bind_loop_spec tool_binds_def comp_def)

lemma mount_loop_spec:
  "mount_loop h ms args = args @ concat (map render_option (map mount_option (granted_mounts h ms)))"
  by (induction ms arbitrary: args) (auto simp: granted_mounts_def mount_option_def)

lemma isBound_skip:
  "a \<noteq> ''--ro-bind'' \<Longrightarrow> a \<noteq> ''--bind'' \<Longrightarrow> isBound (a # zs) src = isBound zs src"
  by (cases zs) simp_all

lemma isBound_bind:
  "s \<noteq> ''--ro-bind'' \<Longrightarrow> s \<noteq> ''--bind'' \<Longrightarrow> t \<noteq> ''--ro-bind'' \<Longrightarrow> t \<noteq> ''--bind'' \<Longrightarrow>
   isBound (''--ro-bind'' # s # t # ys) src \<longleftrightarrow> s = src \<or> isBound ys src"
  using isBound_skip [of s "t # ys" src] isBound_skip [of t ys src] by simp

lemma isBound_binds:
  assumes "\<forall>rd \<in> set rds. rd \<noteq> ''--ro-bind'' \<and> rd \<noteq> ''--bind''"
  shows "isBound (concat (map render_option (map (\<lambda>rd. RoBind rd rd) rds))) src \<longleftrightarrow> src \<in> set rds"
  using assms
proof (induction rds)
  case Nil
  then show ?case by simp
next
  case (Cons rd rds)
  then show ?case by (simp add: isBound_bind del: isBound.simps(1)) auto
qed

lemma static_args_render:
  "static_args k @ common_args = concat (map render_option (isolation_options k))"
  by (simp add: static_args_def common_args_def isolation_options_def)

lemma isBound_static:
  "src \<notin> {''/usr'', ''/bin'', ''/lib'', ''/etc/resolv.conf'', ''/etc/ssl/certs'', ''/etc/hosts''} \<Longrightarrow>
   isBound (static_args k @ common_args @ ys) src = isBound ys src"
  "src \<notin> {''/usr'', ''/bin'', ''/lib'', ''/etc/resolv.conf'', ''/etc/ssl/certs'', ''/etc/hosts''} \<Longrightarrow>
   isBound (static_args k @ common_args @
     [''--ro-bind'', ''/lib'', ''/lib'', ''--symlink'', ''/usr/lib64'', ''/lib64''] @ ys) src = isBound ys src"
  by (auto simp: static_args_def common_args_def isBound_bind isBound_skip simp del: isBound.simps(1))

text \<open>No tool directory is named like an option: all come from absolute paths.\<close>

definition tool_dirs_ok :: "ToolDir list \<Rightarrow> bool" where
  "tool_dirs_ok tds \<longleftrightarrow> list_all (\<lambda>td. list_all filepath_IsAbs (ReadDirs td)) tds"

lemma tool_binds_abs: "tool_dirs_ok tds \<Longrightarrow> rd \<in> set (tool_binds h tds) \<Longrightarrow> filepath_IsAbs rd"
  by (auto simp: tool_binds_def first_occurrences_def tool_dirs_ok_def list_all_iff)

lemma appendNixStoreBind_spec:
  assumes "tool_dirs_ok tds"
    and "pre = static_args k @ common_args \<or> pre = static_args k @ common_args @
      [''--ro-bind'', ''/lib'', ''/lib'', ''--symlink'', ''/usr/lib64'', ''/lib64'']"
  shows "appendNixStoreBind h (appendBwrapToolBinds h tds pre) =
    appendBwrapToolBinds h tds pre @
    concat (map render_option (if stat_path h ''/nix/store'' = Stat_ok
      \<and> ''/nix/store'' \<notin> set (tool_binds h tds) then [RoBind ''/nix/store'' ''/nix/store''] else []))"
proof -
  let ?b = "concat (map render_option (map (\<lambda>rd. RoBind rd rd) (tool_binds h tds)))"
  have "rd \<noteq> ''--ro-bind'' \<and> rd \<noteq> ''--bind''" if "rd \<in> set (tool_binds h tds)" for rd
    using tool_binds_abs [OF assms(1) that] by (auto simp: filepath_IsAbs_def)
  then have "isBound ?b ''/nix/store'' \<longleftrightarrow> ''/nix/store'' \<in> set (tool_binds h tds)"
    by (intro isBound_binds) blast
  moreover have "isBound (pre @ ?b) ''/nix/store'' = isBound ?b ''/nix/store''"
    using assms(2) isBound_static [of "''/nix/store''" k ?b] by auto
  ultimately show ?thesis
    by (simp add: appendNixStoreBind_def appendBwrapToolBinds_spec bwrapNixStorePath_def)
qed

lemma buildArgs_eq:
  assumes "tool_dirs_ok tds"
  shows "buildArgs h tds s command cfg =
    concat (map render_option (bwrap_options h tds s cfg)) @ [''--'', ''bash'', ''-c'', command]"
proof -
  let ?k = "KubernetesMode s"
  let ?st = "static_args ?k @ common_args"
  let ?lib = "[''--ro-bind'', ''/lib'', ''/lib'', ''--symlink'', ''/usr/lib64'', ''/lib64'']"
  have nix: "appendNixStoreBind h (appendBwrapToolBinds h tds
        (if goos h = ''linux'' then ?st @ ?lib else ?st))
      = concat (map render_option (system_options h tds s))"
  proof (cases "goos h = ''linux''")
    case True
    have "?lib = concat (map render_option [RoBind ''/lib'' ''/lib'', Symlink ''/usr/lib64'' ''/lib64''])"
      by simp
    then show ?thesis
      using appendNixStoreBind_spec [OF assms, of "?st @ ?lib" ?k h] True
      by (simp only: if_True append_assoc simp_thms appendBwrapToolBinds_spec system_options_def
          map_append concat_append static_args_render [symmetric])
  next
    case False
    then show ?thesis
      using appendNixStoreBind_spec [OF assms, of ?st ?k h]
      by (simp only: if_False append_assoc simp_thms appendBwrapToolBinds_spec system_options_def
          map_append concat_append static_args_render [symmetric] list.map concat.simps append_Nil)
  qed
  show ?thesis
    unfolding buildArgs_def Let_def nix
    by (cases cfg) (simp_all add: bwrap_options_def mount_loop_spec)
qed

lemma bwrap_options_ok: "list_all option_ok (bwrap_options h tds s cfg)"
  by (auto simp: bwrap_options_def system_options_def isolation_options_def option_ok_def
      bwrap_flags_def mount_option_def list_all_iff split: option.splits)

lemma parse_buildArgs:
  "tool_dirs_ok tds \<Longrightarrow>
   parse_args (buildArgs h tds s command cfg) =
     Some (bwrap_options h tds s cfg, [''bash'', ''-c'', command])"
  using parse_render [OF bwrap_options_ok, of h tds s cfg "[''bash'', ''-c'', command]"]
  by (simp add: buildArgs_eq)

section \<open>What the sandboxed command can reach\<close>

text \<open>The host paths an option binds, and whether the binding is writable.\<close>

fun binds_rw :: "bwrap_option \<Rightarrow> string option" where
  "binds_rw (BindRW s t) = Some s"
| "binds_rw _ = None"

fun binds_host :: "bwrap_option \<Rightarrow> string option" where
  "binds_host (RoBind s t) = Some s"
| "binds_host (BindRW s t) = Some s"
| "binds_host _ = None"

definition rw_set :: "bwrap_option list \<Rightarrow> string set" where
  "rw_set opts = {s. \<exists>opt \<in> set opts. binds_rw opt = Some s}"

definition host_set :: "bwrap_option list \<Rightarrow> string set" where
  "host_set opts = {s. \<exists>opt \<in> set opts. binds_host opt = Some s}"

lemma host_set_simps [simp]:
  "host_set [] = {}"
  "host_set (x # xs) = (case binds_host x of None \<Rightarrow> host_set xs | Some s \<Rightarrow> insert s (host_set xs))"
  "host_set (xs @ ys) = host_set xs \<union> host_set ys"
  "host_set (map (\<lambda>rd. RoBind rd rd) rds) = set rds"
  "host_set (map Flag fs) = {}"
  by (auto simp: host_set_def split: option.split)

definition writable_sources :: "string list \<Rightarrow> string set" where
  "writable_sources args = (case parse_args args of None \<Rightarrow> {} | Some (opts, _) \<Rightarrow> rw_set opts)"

definition exposed_sources :: "string list \<Rightarrow> string set" where
  "exposed_sources args = (case parse_args args of None \<Rightarrow> {} | Some (opts, _) \<Rightarrow> host_set opts)"

definition static_sources :: "host \<Rightarrow> string set" where
  "static_sources h =
     {''/usr'', ''/bin'', ''/etc/resolv.conf'', ''/etc/ssl/certs'', ''/etc/hosts''}
     \<union> (if goos h = ''linux'' then {''/lib''} else {})"

lemma isolation_rw: "rw_set (isolation_options k) = {}"
  by (simp add: rw_set_def isolation_options_def)

lemma system_options_rw: "rw_set (system_options h tds s) = {}"
  using isolation_rw [of "KubernetesMode s"] by (auto simp: system_options_def rw_set_def)

lemma isolation_host: "host_set (isolation_options k) =
    {''/usr'', ''/bin'', ''/etc/resolv.conf'', ''/etc/ssl/certs'', ''/etc/hosts''}"
  by (cases k) (simp_all add: isolation_options_def)

lemma system_options_host:
  "host_set (system_options h tds s) =
     static_sources h \<union> set (tool_binds h tds)
     \<union> (if stat_path h ''/nix/store'' = Stat_ok then {''/nix/store''} else {})"
proof -
  have lib: "host_set (if b then [RoBind ''/lib'' ''/lib'', Symlink ''/usr/lib64'' ''/lib64''] else [])
      = (if b then {''/lib''} else {})" for b
    by (cases b) simp_all
  have nix: "set bs \<union> host_set (if b \<and> n \<notin> set bs then [RoBind n n] else [])
      = set bs \<union> (if b then {n} else {})" for b n bs
    by (cases b; cases "n \<in> set bs") auto
  show ?thesis
    by (simp only: system_options_def host_set_simps(3,4) isolation_host lib Un_assoc nix
        static_sources_def)
qed

lemma mount_options_rw: "rw_set (map mount_option ms) = Source ` {m \<in> set ms. \<not> ReadOnly m}"
proof -
  have "binds_rw (mount_option m) = Some x \<longleftrightarrow> \<not> ReadOnly m \<and> x = Source m" for m x
    by (auto simp: mount_option_def)
  then show ?thesis by (auto simp: rw_set_def)
qed

lemma mount_options_host: "host_set (map mount_option ms) = Source ` set ms"
proof -
  have "binds_host (mount_option m) = Some x \<longleftrightarrow> x = Source m" for m x
    by (auto simp: mount_option_def)
  then show ?thesis by (auto simp: host_set_def)
qed

lemma writable_sources_buildArgs:
  assumes "tool_dirs_ok tds"
  shows "writable_sources (buildArgs h tds s command (Some c)) =
    Source ` {m \<in> set (MountDirs c). \<not> MetadataOnly m \<and> \<not> ReadOnly m \<and> stat_path h (Source m) = Stat_ok}"
proof -
  have "rw_set (bwrap_options h tds s (Some c)) =
      rw_set (system_options h tds s) \<union> rw_set (map mount_option (granted_mounts h (MountDirs c)))"
    by (auto simp: bwrap_options_def rw_set_def)
  then show ?thesis
    by (auto simp: writable_sources_def parse_buildArgs [OF assms] system_options_rw
        mount_options_rw granted_mounts_def)
qed

lemma exposed_sources_buildArgs:
  assumes "tool_dirs_ok tds"
  shows "exposed_sources (buildArgs h tds s command (Some c)) =
    static_sources h \<union> set (tool_binds h tds)
    \<union> (if stat_path h ''/nix/store'' = Stat_ok then {''/nix/store''} else {})
    \<union> Source ` {m \<in> set (MountDirs c). \<not> MetadataOnly m \<and> stat_path h (Source m) = Stat_ok}"
proof -
  have "host_set (bwrap_options h tds s (Some c)) =
      host_set (system_options h tds s) \<union> host_set (map mount_option (granted_mounts h (MountDirs c)))"
    by (simp add: bwrap_options_def)
  then show ?thesis
    by (simp only: exposed_sources_def parse_buildArgs [OF assms] option.case prod.case
        system_options_host mount_options_host) (auto simp: granted_mounts_def)
qed

text \<open>Metadata-only mounts change nothing: the ancestor pass is invisible to bubblewrap.\<close>

lemma mount_loop_AddAncestorMounts: "mount_loop h (AddAncestorMounts ms) args = mount_loop h ms args"
proof (rule AddAncestorMounts_spec [of ms])
  fix ds assume "AddAncestorMounts ms = ms @ map metadata_mount ds"
  then show ?thesis by (simp add: mount_loop_spec granted_mounts_def metadata_mount_def)
qed

section \<open>The discovered tool directories\<close>

lemma IsAbs_Join: "filepath_IsAbs e \<Longrightarrow> filepath_IsAbs (filepath_Join (e # es))"
proof -
  assume abs: "filepath_IsAbs e"
  then have ne: "e \<noteq> []" by (auto simp: IsAbs_Cons)
  have "filepath_IsAbs (strings_Join (e # es) ''/'')"
    using abs ne by (cases es) (simp_all add: IsAbs_append)
  with ne show ?thesis by (simp del: strings_Join.simps)
qed

text \<open>The variables the discovery reads hold absolute paths, where they are set.\<close>

definition host_paths_ok :: "host \<Rightarrow> bool" where
  "host_paths_ok h \<longleftrightarrow>
     (getenv h ''HOME'' = [] \<or> filepath_IsAbs (getenv h ''HOME''))
     \<and> (getenv h ''GOPATH'' = [] \<or> filepath_IsAbs (getenv h ''GOPATH''))"

lemma discover_tool_dirs_ok:
  assumes "host_paths_ok h"
  shows "tool_dirs_ok (discoverToolDirs h)"
proof -
  have home: "daemonHome h = [] \<or> filepath_IsAbs (daemonHome h)"
    using assms by (auto simp: daemonHome_def host_paths_ok_def os_UserHomeDir_def)
  have sub: "resolveHomeSub h ps = [] \<or> filepath_IsAbs (resolveHomeSub h ps)" for ps
    using home IsAbs_Join by (auto simp: resolveHomeSub_def simp del: filepath_Join.simps)
  have gp: "resolveGOPATHBin h = [] \<or> filepath_IsAbs (resolveGOPATHBin h)"
    using assms home IsAbs_Join
    by (auto simp: resolveGOPATHBin_def host_paths_ok_def simp del: filepath_Join.simps)
  have add: "tool_dirs_ok (add_bin_dir d)" if "d = [] \<or> filepath_IsAbs d" for d
    using that by (auto simp: add_bin_dir_def tool_dirs_ok_def)
  have app: "tool_dirs_ok (xs @ ys) \<longleftrightarrow> tool_dirs_ok xs \<and> tool_dirs_ok ys" for xs ys
    by (simp add: tool_dirs_ok_def)
  have stat: "tool_dirs_ok (staticToolDirs h)"
    by (simp add: tool_dirs_ok_def staticToolDirs_def darwinToolDirs_def linuxToolDirs_def filepath_IsAbs_def)
  have mise: "tool_dirs_ok (let r = resolveHomeSub h ps in
      if r \<noteq> [] then [\<lparr>BinDir = f r, ReadDirs = [r], ExecDirs = []\<rparr>] else [])" for ps f
    using sub [of ps] by (auto simp: tool_dirs_ok_def Let_def)
  have "tool_dirs_ok (staticToolDirs h @ dynamicToolDirs h)"
    unfolding dynamicToolDirs_def app by (intro conjI stat add gp sub mise)
  then show ?thesis by (auto simp: discoverToolDirs_def tool_dirs_ok_def list_all_iff)
qed

section \<open>Properties\<close>

definition sample_bwrap :: BwrapSandbox where
  "sample_bwrap = \<lparr>BwrapPath = ''bwrap'', bw_Timeout = 0, MemoryLimitMB = 0, KubernetesMode = False\<rparr>"

lemma sample_host_paths: "host_paths_ok sample_host"
  by (simp add: host_paths_ok_def sample_host_def filepath_IsAbs_def)

text \<open>
  C25. The argument vector cannot be broken out of: whatever the paths, the working directory and
  the command contain, bubblewrap's reading of it gives back exactly the options meant and the
  command \<open>bash -c\<close> with the command text as one argument.
\<close>

theorem buildArgs_parses_back:
  assumes "host_paths_ok h"
  shows "parse_args (buildArgs h (discoverToolDirs h) s command cfg) =
    Some (bwrap_options h (discoverToolDirs h) s cfg, [''bash'', ''-c'', command])"
  by (rule parse_buildArgs [OF discover_tool_dirs_ok [OF assms]])

theorem buildArgs_parses_back_witness:
  "parse_args (buildArgs sample_host (discoverToolDirs sample_host) sample_bwrap ''-- --bind / /'' None) =
    Some (bwrap_options sample_host (discoverToolDirs sample_host) sample_bwrap None, [''bash'', ''-c'', ''-- --bind / /''])"
  by (rule buildArgs_parses_back [OF sample_host_paths])

text \<open>
  What bubblewrap makes of the flags, in their order: the namespaces it gives the command of its
  own. \<open>--unshare-all\<close> takes all of them, the flags of single namespaces one each, and \<open>--share-net\<close>
  gives the network's back.
\<close>

fun namespace_flag :: "bwrap_option \<Rightarrow> string set \<Rightarrow> string set" where
  "namespace_flag (Flag f) ns =
     (if f = ''--unshare-all'' then ns \<union> {''user'', ''ipc'', ''pid'', ''net'', ''uts'', ''cgroup''}
      else if f = ''--unshare-user-try'' then ns \<union> {''user''}
      else if f = ''--unshare-ipc'' then ns \<union> {''ipc''}
      else if f = ''--unshare-uts'' then ns \<union> {''uts''}
      else if f = ''--unshare-cgroup-try'' then ns \<union> {''cgroup''}
      else if f = ''--share-net'' then ns - {''net''}
      else ns)"
| "namespace_flag _ ns = ns"

definition namespaces :: "bwrap_option list \<Rightarrow> string set" where
  "namespaces opts = fold namespace_flag opts {}"

definition is_flag :: "bwrap_option \<Rightarrow> bool" where
  "is_flag x = (case x of Flag f \<Rightarrow> True | _ \<Rightarrow> False)"

lemma fold_namespace_flags: "fold namespace_flag opts ns = fold namespace_flag (filter is_flag opts) ns"
proof (induction opts arbitrary: ns)
  case (Cons x opts)
  then show ?case by (cases x) (simp_all add: is_flag_def)
qed simp

text \<open>The flags come from the fixed part, whatever is mounted.\<close>

definition isolation_flags :: "bool \<Rightarrow> string list" where
  "isolation_flags kubernetes =
     (if kubernetes then [''--unshare-user-try'', ''--unshare-ipc'', ''--unshare-uts'', ''--unshare-cgroup-try'']
      else [''--unshare-all'']) @ [''--share-net'', ''--die-with-parent'']"

lemma flags_of_options: "filter is_flag (bwrap_options h tds s cfg) = map Flag (isolation_flags (KubernetesMode s))"
  by (cases cfg; cases "KubernetesMode s")
    (auto simp: bwrap_options_def system_options_def isolation_options_def isolation_flags_def is_flag_def
      mount_option_def filter_empty_conv)

lemma isolation_namespaces:
  "namespaces (bwrap_options h tds s cfg) =
     {''user'', ''ipc'', ''uts'', ''cgroup''} \<union> (if KubernetesMode s then {} else {''pid''})"
proof -
  have "namespaces (bwrap_options h tds s cfg) = fold namespace_flag (map Flag (isolation_flags (KubernetesMode s))) {}"
    by (simp only: namespaces_def fold_namespace_flags [of "bwrap_options h tds s cfg"] flags_of_options)
  also have "\<dots> = {''user'', ''ipc'', ''uts'', ''cgroup''} \<union> (if KubernetesMode s then {} else {''pid''})"
    by (cases "KubernetesMode s") (auto simp: isolation_flags_def)
  finally show ?thesis .
qed

text \<open>
  C26. Isolation of a bubblewrap command, by an option reader that follows bubblewrap's own: in
  both modes the command has its own user, ipc, uts and cgroup namespaces and shares the network's; outside
  Kubernetes mode it has its own process namespace too, with a \<open>/proc\<close> of its own, in Kubernetes
  mode neither; the flags are exactly the ones that say this and the one that makes the command
  die with its parent; and nothing outside the given mounts is bound writable.
\<close>

theorem buildArgs_isolation:
  assumes "host_paths_ok h" "parse_args (buildArgs h (discoverToolDirs h) s command (Some c)) = Some (opts, argv)"
  shows "namespaces opts = {''user'', ''ipc'', ''uts'', ''cgroup''} \<union> (if KubernetesMode s then {} else {''pid''})
    \<and> {p. Proc p \<in> set opts} = (if KubernetesMode s then {} else {''/proc''})
    \<and> {f. Flag f \<in> set opts} = {''--share-net'', ''--die-with-parent''} \<union>
        (if KubernetesMode s then {''--unshare-user-try'', ''--unshare-ipc'', ''--unshare-uts'', ''--unshare-cgroup-try''}
         else {''--unshare-all''})
    \<and> (BindRW src dst \<in> set opts \<longleftrightarrow>
        (\<exists>m \<in> set (MountDirs c). Source m = src \<and> Target m = dst \<and> \<not> MetadataOnly m \<and> \<not> ReadOnly m
           \<and> stat_path h src = Stat_ok))"
proof -
  let ?k = "KubernetesMode s"
  have opts: "opts = bwrap_options h (discoverToolDirs h) s (Some c)"
    using assms(2) parse_buildArgs [OF discover_tool_dirs_ok [OF assms(1)]] by simp
  have "Flag f \<in> set opts \<longleftrightarrow> Flag f \<in> set (filter is_flag opts)" for f by (simp add: is_flag_def)
  then have "Flag f \<in> set opts \<longleftrightarrow> f \<in> set (isolation_flags ?k)" for f
    unfolding opts flags_of_options by auto
  then have flags: "{f. Flag f \<in> set opts} = {''--share-net'', ''--die-with-parent''} \<union>
      (if ?k then {''--unshare-user-try'', ''--unshare-ipc'', ''--unshare-uts'', ''--unshare-cgroup-try''}
       else {''--unshare-all''})"
    by (cases ?k) (auto simp: isolation_flags_def)
  have proc: "{p. Proc p \<in> set opts} = (if ?k then {} else {''/proc''})"
    by (cases ?k) (auto simp: opts bwrap_options_def system_options_def isolation_options_def mount_option_def)
  have "BindRW src dst \<in> set opts \<longleftrightarrow> (\<exists>m \<in> set (granted_mounts h (MountDirs c)). Source m = src \<and> Target m = dst \<and> \<not> ReadOnly m)"
    by (auto simp: opts bwrap_options_def system_options_def isolation_options_def mount_option_def)
  also have "\<dots> \<longleftrightarrow> (\<exists>m \<in> set (MountDirs c). Source m = src \<and> Target m = dst \<and> \<not> MetadataOnly m \<and> \<not> ReadOnly m
      \<and> stat_path h src = Stat_ok)"
    by (auto simp: granted_mounts_def)
  finally have rw: "BindRW src dst \<in> set opts \<longleftrightarrow> \<dots>" .
  show ?thesis
    by (intro conjI; (fact flags proc rw)?) (unfold opts, rule isolation_namespaces)
qed

theorem buildArgs_isolation_witness:
  "namespaces (bwrap_options sample_host (discoverToolDirs sample_host) sample_bwrap
     (Some \<lparr>Env = [], MountDirs = [], WorkingDir = ''/tmp''\<rparr>)) = {''user'', ''ipc'', ''uts'', ''cgroup'', ''pid''}"
  using buildArgs_isolation [OF sample_host_paths parse_buildArgs [OF discover_tool_dirs_ok [OF sample_host_paths],
    of sample_host sample_bwrap "''ls''" "Some \<lparr>Env = [], MountDirs = [], WorkingDir = ''/tmp''\<rparr>"]]
  by (auto simp: sample_bwrap_def)

end
