(* ===== verification/Seatbelt.thy ===== *)
theory Seatbelt
  imports Mounts ToolPaths
begin

text \<open>
  The macOS policy: \<open>buildPolicy\<close> and \<open>appendToolDirRules\<close> of \<open>sandbox/policy.go\<close>. The
  three embedded templates are arguments here (\<open>Templates\<close> has them). A mounted path never appears in the policy text:
  it is passed as a \<open>-D key=path\<close> parameter, and the text names the key. The lemmas give
  the text and the parameters in terms of the numbered grants, and that the keys are distinct.
\<close>

section \<open>Definitions\<close>

definition dquote :: string where
  "dquote = [CHR 0x22]"

text \<open>
  The verb \<open>%q\<close> on the strings the code passes to it here: the keys below and the constants
  of the tool registry, which hold neither quotes, backslashes nor unprintable characters.
\<close>

definition fmt_q :: "string \<Rightarrow> string" where
  "fmt_q s = dquote @ s @ dquote"

record policy_state =
  pol_text :: string
  pol_params :: "string list"
  readableIdx :: nat
  writableIdx :: nat
  metadataIdx :: nat

definition emit_metadata :: "string \<Rightarrow> policy_state \<Rightarrow> policy_state" where
  "emit_metadata src st =
     (let key = ''METADATA_ROOT_'' @ fmt_d (metadataIdx st) in
      st\<lparr>pol_text := pol_text st @ nl @ ''(allow file-read-metadata (literal (param '' @ fmt_q key @ '')))'',
         pol_params := pol_params st @ [''-D'', key @ ''='' @ src],
         metadataIdx := Suc (metadataIdx st)\<rparr>)"

definition emit_readable :: "string \<Rightarrow> policy_state \<Rightarrow> policy_state" where
  "emit_readable src st =
     (let key = ''READABLE_ROOT_'' @ fmt_d (readableIdx st) in
      st\<lparr>pol_text := pol_text st @ nl @ ''(allow file-read* (subpath (param '' @ fmt_q key @ '')))'',
         pol_params := pol_params st @ [''-D'', key @ ''='' @ src],
         readableIdx := Suc (readableIdx st)\<rparr>)"

definition emit_writable :: "string \<Rightarrow> policy_state \<Rightarrow> policy_state" where
  "emit_writable src st =
     (let key = ''WRITABLE_ROOT_'' @ fmt_d (writableIdx st) in
      st\<lparr>pol_text := pol_text st @ nl @ ''(allow file-read* file-write* (subpath (param '' @ fmt_q key @ '')))'',
         pol_params := pol_params st @ [''-D'', key @ ''='' @ src],
         writableIdx := Suc (writableIdx st)\<rparr>)"

text \<open>The loop over the mounts; the error carries the source and the target.\<close>

fun mount_rules :: "Mount list \<Rightarrow> policy_state \<Rightarrow> (string \<times> string) + policy_state" where
  "mount_rules [] st = Inr st"
| "mount_rules (m # ms) st =
     (if MetadataOnly m then mount_rules ms (emit_metadata (Source m) st)
      else if Source m \<noteq> Target m then Inl (Source m, Target m)
      else if ReadOnly m then mount_rules ms (emit_readable (Source m) st)
      else mount_rules ms (emit_writable (Source m) st))"

fun read_dir_rules :: "string list \<Rightarrow> string set \<Rightarrow> policy_state \<Rightarrow> string set \<times> policy_state" where
  "read_dir_rules [] seen st = (seen, st)"
| "read_dir_rules (rd # rds) seen st =
     (if rd \<in> seen then read_dir_rules rds seen st
      else read_dir_rules rds (insert rd seen) (emit_readable rd st))"

fun exec_dir_rules :: "string list \<Rightarrow> string set \<Rightarrow> policy_state \<Rightarrow> string set \<times> policy_state" where
  "exec_dir_rules [] seen st = (seen, st)"
| "exec_dir_rules (ed # eds) seen st =
     (if ''exec:'' @ ed \<in> seen then exec_dir_rules eds seen st
      else exec_dir_rules eds (insert (''exec:'' @ ed) seen)
        (st\<lparr>pol_text := pol_text st @ nl @ ''(allow file-map-executable (subpath '' @ fmt_q ed @ ''))''\<rparr>))"

fun appendToolDirRules :: "ToolDir list \<Rightarrow> string set \<Rightarrow> policy_state \<Rightarrow> policy_state" where
  "appendToolDirRules [] seen st = st"
| "appendToolDirRules (td # tds) seen st =
     (let r = read_dir_rules (ReadDirs td) seen st;
          e = exec_dir_rules (ExecDirs td) (fst r) (snd r)
      in appendToolDirRules tds (fst e) (snd e))"

text \<open>Fails on a remapped mount (\<open>Inl (Some _)\<close>) or where the cache directory is unknown.\<close>

definition buildPolicy :: "host \<Rightarrow> ToolDir list \<Rightarrow> string \<Rightarrow> string \<Rightarrow> string \<Rightarrow> string option \<Rightarrow>
    ExecConfig option \<Rightarrow> (string \<times> string) option + string \<times> string list" where
  "buildPolicy h tds seatbeltBase seatbeltPlatform seatbeltNetwork userCacheDir cfg =
     (let st0 = \<lparr>pol_text = seatbeltBase @ nl @ seatbeltPlatform @ nl @ seatbeltNetwork,
                 pol_params = [], readableIdx = 0, writableIdx = 0, metadataIdx = 0\<rparr>
      in case (case cfg of None \<Rightarrow> Inr st0 | Some c \<Rightarrow> mount_rules (MountDirs c) st0) of
           Inl e \<Rightarrow> Inl (Some e)
         | Inr st1 \<Rightarrow>
             (let st2 = appendToolDirRules tds {} st1;
                  b = pol_text st2 @ concat (map (\<lambda>d. nl @ ''(allow file-read-metadata (literal '' @ fmt_q d @ ''))'')
                        (seatbeltMetadataDirs h))
              in case userCacheDir of None \<Rightarrow> Inl None
                 | Some cacheDir \<Rightarrow>
                     Inr (b, pol_params st2 @ [''-D'', ''DARWIN_USER_CACHE_DIR='' @ cacheDir])))"

section \<open>Grants\<close>

text \<open>The abstract view: a list of numbered grants, each with its key, rule and path.\<close>

datatype grant = GMetadata | GRead | GWrite

fun grant_prefix :: "grant \<Rightarrow> string" where
  "grant_prefix GMetadata = ''METADATA_ROOT_''"
| "grant_prefix GRead = ''READABLE_ROOT_''"
| "grant_prefix GWrite = ''WRITABLE_ROOT_''"

definition grant_key :: "grant \<Rightarrow> nat \<Rightarrow> string" where
  "grant_key g n = grant_prefix g @ fmt_d n"

fun grant_rule :: "grant \<Rightarrow> nat \<Rightarrow> string" where
  "grant_rule GMetadata n = nl @ ''(allow file-read-metadata (literal (param '' @ fmt_q (grant_key GMetadata n) @ '')))''"
| "grant_rule GRead n = nl @ ''(allow file-read* (subpath (param '' @ fmt_q (grant_key GRead n) @ '')))''"
| "grant_rule GWrite n = nl @ ''(allow file-read* file-write* (subpath (param '' @ fmt_q (grant_key GWrite n) @ '')))''"

fun number_grants :: "(grant \<times> string) list \<Rightarrow> (grant \<Rightarrow> nat) \<Rightarrow> (grant \<times> nat \<times> string) list" where
  "number_grants [] c = []"
| "number_grants ((g, src) # gs) c = (g, c g, src) # number_grants gs (c(g := Suc (c g)))"

definition mount_grant :: "Mount \<Rightarrow> grant \<times> string" where
  "mount_grant m = (if MetadataOnly m then GMetadata else if ReadOnly m then GRead else GWrite, Source m)"

definition grant_param :: "grant \<times> nat \<times> string \<Rightarrow> string list" where
  "grant_param gns = [''-D'', grant_key (fst gns) (fst (snd gns)) @ ''='' @ snd (snd gns)]"

definition st_count :: "policy_state \<Rightarrow> grant \<Rightarrow> nat" where
  "st_count st g = (case g of GMetadata \<Rightarrow> metadataIdx st | GRead \<Rightarrow> readableIdx st | GWrite \<Rightarrow> writableIdx st)"

definition emit :: "grant \<times> string \<Rightarrow> policy_state \<Rightarrow> policy_state" where
  "emit gs st = (case fst gs of GMetadata \<Rightarrow> emit_metadata (snd gs) st
     | GRead \<Rightarrow> emit_readable (snd gs) st | GWrite \<Rightarrow> emit_writable (snd gs) st)"

lemma emit_fields:
  "pol_text (emit (g, src) st) = pol_text st @ grant_rule g (st_count st g)"
  "pol_params (emit (g, src) st) = pol_params st @ grant_param (g, st_count st g, src)"
  "st_count (emit (g, src) st) = (st_count st)(g := Suc (st_count st g))"
  by (cases g; simp add: emit_def emit_metadata_def emit_readable_def emit_writable_def Let_def
      st_count_def grant_key_def grant_param_def fun_eq_iff split: grant.splits)+

lemma fold_emit:
  "pol_params (fold emit gs st) = pol_params st @ concat (map grant_param (number_grants gs (st_count st)))"
  "pol_text (fold emit gs st) =
     pol_text st @ concat (map (\<lambda>(g, n, src). grant_rule g n) (number_grants gs (st_count st)))"
proof (induction gs arbitrary: st)
  case (Cons gs1 gs)
  obtain g src where "gs1 = (g, src)" by (cases gs1)
  { case 1 then show ?case using Cons.IH(1) \<open>gs1 = (g, src)\<close> by (simp add: emit_fields fun_upd_def) }
  { case 2 then show ?case using Cons.IH(2) \<open>gs1 = (g, src)\<close> by (simp add: emit_fields fun_upd_def) }
qed simp_all

lemma mount_rules_Inr:
  "\<forall>m \<in> set ms. MetadataOnly m \<or> Source m = Target m \<Longrightarrow>
   mount_rules ms st = Inr (fold emit (map mount_grant ms) st)"
  by (induction ms arbitrary: st) (auto simp: mount_grant_def emit_def)

lemma mount_rules_Inl:
  "mount_rules ms st = Inl e \<Longrightarrow>
   \<exists>m \<in> set ms. \<not> MetadataOnly m \<and> Source m \<noteq> Target m \<and> e = (Source m, Target m)"
  by (induction ms arbitrary: st) (auto split: if_splits)

lemma mount_rules_remap:
  "m \<in> set ms \<Longrightarrow> \<not> MetadataOnly m \<Longrightarrow> Source m \<noteq> Target m \<Longrightarrow> \<exists>e. mount_rules ms st = Inl e"
  by (induction ms arbitrary: st) auto

text \<open>The tool directories: each read directory once, each as a further readable grant.\<close>

fun dedup_seen :: "string list \<Rightarrow> string set \<Rightarrow> string list" where
  "dedup_seen [] seen = []"
| "dedup_seen (x # xs) seen =
     (if x \<in> seen then dedup_seen xs seen else x # dedup_seen xs (insert x seen))"

fun tool_reads :: "ToolDir list \<Rightarrow> string set \<Rightarrow> string list" where
  "tool_reads [] seen = []"
| "tool_reads (td # tds) seen =
     dedup_seen (ReadDirs td) seen
     @ tool_reads tds (seen \<union> set (ReadDirs td) \<union> (\<lambda>ed. ''exec:'' @ ed) ` set (ExecDirs td))"

lemma read_dir_rules_spec:
  "fst (read_dir_rules rds seen st) = seen \<union> set rds"
  "pol_params (snd (read_dir_rules rds seen st)) =
     pol_params (fold emit (map (Pair GRead) (dedup_seen rds seen)) st)"
  "st_count (snd (read_dir_rules rds seen st)) =
     st_count (fold emit (map (Pair GRead) (dedup_seen rds seen)) st)"
  by (induction rds arbitrary: seen st) (auto simp: emit_def)

lemma exec_dir_rules_spec:
  "fst (exec_dir_rules eds seen st) = seen \<union> (\<lambda>ed. ''exec:'' @ ed) ` set eds"
  "pol_params (snd (exec_dir_rules eds seen st)) = pol_params st"
  "st_count (snd (exec_dir_rules eds seen st)) = st_count st"
  by (induction eds arbitrary: seen st) (auto simp: st_count_def fun_eq_iff split: grant.splits)

lemma number_append:
  "number_grants (gs @ hs) c =
     number_grants gs c @ number_grants hs (\<lambda>g. c g + length (filter (\<lambda>x. fst x = g) gs))"
proof (induction gs arbitrary: c)
  case Nil
  then show ?case by simp
next
  case (Cons gs1 gs)
  obtain g src where g: "gs1 = (g, src)" by (cases gs1)
  have "(\<lambda>g'. (c(g := Suc (c g))) g' + length (filter (\<lambda>x. fst x = g') gs))
      = (\<lambda>g'. c g' + length (filter (\<lambda>x. fst x = g') (gs1 # gs)))"
    by (auto simp: fun_eq_iff g)
  with Cons.IH [of "c(g := Suc (c g))"] g show ?case by (simp add: fun_upd_def)
qed

lemma st_count_fold:
  "st_count (fold emit gs st) = (\<lambda>g. st_count st g + length (filter (\<lambda>x. fst x = g) gs))"
proof (induction gs arbitrary: st)
  case Nil
  then show ?case by simp
next
  case (Cons gs1 gs)
  obtain g src where "gs1 = (g, src)" by (cases gs1)
  with Cons show ?case by (auto simp: emit_fields fun_eq_iff)
qed

lemma appendToolDirRules_params:
  "pol_params (appendToolDirRules tds seen st) =
     pol_params st @ concat (map grant_param
       (number_grants (map (Pair GRead) (tool_reads tds seen)) (st_count st)))"
proof (induction tds arbitrary: seen st)
  case Nil
  then show ?case by simp
next
  case (Cons td tds)
  let ?r = "read_dir_rules (ReadDirs td) seen st"
  let ?e = "exec_dir_rules (ExecDirs td) (fst ?r) (snd ?r)"
  let ?gs = "map (Pair GRead) (dedup_seen (ReadDirs td) seen)"
  let ?seen = "seen \<union> set (ReadDirs td) \<union> (\<lambda>ed. ''exec:'' @ ed) ` set (ExecDirs td)"
  have "pol_params (appendToolDirRules (td # tds) seen st) =
      pol_params (fold emit ?gs st) @ concat (map grant_param
        (number_grants (map (Pair GRead) (tool_reads tds ?seen)) (st_count (fold emit ?gs st))))"
    using Cons.IH [of ?seen "snd ?e"]
    by (simp add: Let_def exec_dir_rules_spec read_dir_rules_spec)
  then show ?case
    by (simp add: fold_emit(1) st_count_fold number_append del: fold_map)
qed

text \<open>All grants of a policy: those of the mounts, then those of the tool directories.\<close>

definition policy_grants :: "ToolDir list \<Rightarrow> Mount list \<Rightarrow> (grant \<times> nat \<times> string) list" where
  "policy_grants tds ms =
     number_grants (map mount_grant ms @ map (Pair GRead) (tool_reads tds {})) (\<lambda>_. 0)"

definition policy_params :: "ToolDir list \<Rightarrow> Mount list \<Rightarrow> string \<Rightarrow> string list" where
  "policy_params tds ms cacheDir =
     concat (map grant_param (policy_grants tds ms)) @ [''-D'', ''DARWIN_USER_CACHE_DIR='' @ cacheDir]"

lemma st_count_zero:
  "st_count \<lparr>pol_text = t, pol_params = ps, readableIdx = 0, writableIdx = 0, metadataIdx = 0\<rparr> = (\<lambda>_. 0)"
  by (auto simp: st_count_def fun_eq_iff split: grant.split)

lemma buildPolicy_params:
  assumes "buildPolicy h tds b p n cacheDir (Some c) = Inr (text', params')"
  shows "\<exists>cd. cacheDir = Some cd \<and> params' = policy_params tds (MountDirs c) cd"
proof -
  let ?st0 = "\<lparr>pol_text = b @ nl @ p @ nl @ n, pol_params = [], readableIdx = 0, writableIdx = 0,
    metadataIdx = 0\<rparr>"
  let ?gs = "map mount_grant (MountDirs c)"
  have ok: "\<forall>m \<in> set (MountDirs c). MetadataOnly m \<or> Source m = Target m"
  proof (rule ccontr)
    assume "\<not> ?thesis"
    then obtain e where "mount_rules (MountDirs c) ?st0 = Inl e"
      using mount_rules_remap by blast
    with assms show False by (auto simp: buildPolicy_def Let_def)
  qed
  show ?thesis
    using assms by (auto simp: buildPolicy_def Let_def mount_rules_Inr [OF ok] appendToolDirRules_params
        fold_emit(1) st_count_fold st_count_zero policy_params_def policy_grants_def number_append
        split: option.splits)
qed

section \<open>Keys\<close>

lemma number_grants_ge: "(g, n, src) \<in> set (number_grants gs c) \<Longrightarrow> c g \<le> n"
  by (induction gs c rule: number_grants.induct) (auto split: if_splits dest: Suc_leD)

lemma number_grants_distinct: "distinct (map (\<lambda>(g, n, src). (g, n)) (number_grants gs c))"
proof (induction gs arbitrary: c)
  case Nil
  then show ?case by simp
next
  case (Cons gs1 gs)
  obtain g src where g: "gs1 = (g, src)" by (cases gs1)
  let ?c = "c(g := Suc (c g))"
  have "(g, c g) \<notin> set (map (\<lambda>(g, n, src). (g, n)) (number_grants gs ?c))"
  proof
    assume "(g, c g) \<in> set (map (\<lambda>(g, n, src). (g, n)) (number_grants gs ?c))"
    then obtain s where "(g, c g, s) \<in> set (number_grants gs ?c)" by force
    from number_grants_ge [OF this] show False by simp
  qed
  with Cons.IH [of ?c] show ?case
    unfolding g number_grants.simps list.map distinct.simps prod.case by blast
qed

lemma grant_key_inj: "grant_key g n = grant_key g' n' \<longleftrightarrow> g = g' \<and> n = n'"
  by (cases g; cases g') (auto simp: grant_key_def fmt_d_inj)

lemma grant_key_not_cache: "grant_key g n \<noteq> ''DARWIN_USER_CACHE_DIR''"
  by (cases g) (auto simp: grant_key_def)

text \<open>\<open>sandbox-exec\<close> reads \<open>-D key=value\<close> pairs; the key ends at the first \<open>=\<close>.\<close>

fun param_assignments :: "string list \<Rightarrow> (string \<times> string) list" where
  "param_assignments (d # kv # rest) =
     (if d = ''-D'' then
        (takeWhile (\<lambda>c. c \<noteq> CHR ''='') kv, drop 1 (dropWhile (\<lambda>c. c \<noteq> CHR ''='') kv))
          # param_assignments rest
      else param_assignments rest)"
| "param_assignments _ = []"

lemma digits_base_no_eq: "CHR ''='' \<notin> set acc \<Longrightarrow> CHR ''='' \<notin> set (digits_base 10 n acc)"
proof (induction "10::nat" n acc rule: digits_base.induct)
  case (1 n acc)
  have "digit_char (n mod 10) \<noteq> CHR ''=''"
  proof -
    have "n mod 10 < 10" by simp
    then have "of_char (digit_char (n mod 10)) = 48 + n mod 10" by (simp add: digit_char_def)
    moreover have "48 + n mod 10 \<noteq> (61 :: nat)" by presburger
    ultimately show ?thesis by auto
  qed
  with 1 show ?case by (subst digits_base.simps) auto
qed

lemma grant_key_no_eq: "CHR ''='' \<notin> set (grant_key g n)"
  using digits_base_no_eq [of "[]" n] by (cases g) (auto simp: grant_key_def fmt_d_def)

lemma split_at_eq:
  assumes "CHR ''='' \<notin> set k"
  shows "takeWhile (\<lambda>c. c \<noteq> CHR ''='') (k @ CHR ''='' # v) = k"
    "drop (Suc 0) (dropWhile (\<lambda>c. c \<noteq> CHR ''='') (k @ CHR ''='' # v)) = v"
proof -
  have *: "x \<noteq> CHR ''=''" if "x \<in> set k" for x using that assms by blast
  show "takeWhile (\<lambda>c. c \<noteq> CHR ''='') (k @ CHR ''='' # v) = k"
    by (rule takeWhile_append_stop) (use * in auto)
  have "dropWhile (\<lambda>c. c \<noteq> CHR ''='') (k @ CHR ''='' # v) = CHR ''='' # v"
    by (rule dropWhile_append_stop) (use * in auto)
  then show "drop (Suc 0) (dropWhile (\<lambda>c. c \<noteq> CHR ''='') (k @ CHR ''='' # v)) = v" by simp
qed

lemma param_assignments_grant:
  "param_assignments (grant_param (g, n, src) @ rest) = (grant_key g n, src) # param_assignments rest"
  using split_at_eq [OF grant_key_no_eq, of g n src] by (simp add: grant_param_def)

lemma param_assignments_policy:
  "param_assignments (policy_params tds ms cd) =
     map (\<lambda>(g, n, src). (grant_key g n, src)) (policy_grants tds ms) @ [(''DARWIN_USER_CACHE_DIR'', cd)]"
proof -
  have "param_assignments (concat (map grant_param gs) @ rest) =
      map (\<lambda>(g, n, src). (grant_key g n, src)) gs @ param_assignments rest" for gs rest
  proof (induction gs)
    case Nil
    then show ?case by simp
  next
    case (Cons g gs)
    obtain k n src where "g = (k, n, src)" by (cases g)
    with Cons show ?case by (simp only: list.map concat.simps append_assoc param_assignments_grant prod.case append_Cons)
  qed
  moreover have "param_assignments [''-D'', ''DARWIN_USER_CACHE_DIR='' @ cd] = [(''DARWIN_USER_CACHE_DIR'', cd)]"
    by simp
  ultimately show ?thesis by (simp only: policy_params_def)
qed

lemma policy_keys_distinct:
  "distinct (map fst (param_assignments (policy_params tds ms cd)))"
proof -
  let ?gs = "policy_grants tds ms"
  let ?pairs = "map (\<lambda>(g, n, src). (g, n)) ?gs"
  have keys: "map fst (param_assignments (policy_params tds ms cd)) =
      map (\<lambda>(g, n). grant_key g n) ?pairs @ [''DARWIN_USER_CACHE_DIR'']"
    unfolding param_assignments_policy map_append map_map
    by (simp add: case_prod_beta comp_def)
  have "inj_on (\<lambda>(g, n). grant_key g n) (set ?pairs)"
    by (rule inj_onI) (clarsimp simp only: grant_key_inj split_paired_all prod.case)
  moreover have "distinct ?pairs" unfolding policy_grants_def by (rule number_grants_distinct)
  ultimately have d: "distinct (map (\<lambda>(g, n). grant_key g n) ?pairs)"
    by (simp only: distinct_map simp_thms)
  have "''DARWIN_USER_CACHE_DIR'' \<notin> set (map (\<lambda>(g, n). grant_key g n) ?pairs)"
  proof
    assume "''DARWIN_USER_CACHE_DIR'' \<in> set (map (\<lambda>(g, n). grant_key g n) ?pairs)"
    then obtain x where "(case x of (g, n) \<Rightarrow> grant_key g n) = ''DARWIN_USER_CACHE_DIR''"
      unfolding set_map image_iff by metis
    with grant_key_not_cache [of "fst x" "snd x"] show False by (simp add: case_prod_beta)
  qed
  with d show ?thesis unfolding keys distinct_append by simp
qed

section \<open>The text does not depend on the paths\<close>

lemma number_grants_kinds:
  "map fst gs = map fst hs \<Longrightarrow>
   map (\<lambda>(g, n, src). grant_rule g n) (number_grants gs c) =
   map (\<lambda>(g, n, src). grant_rule g n) (number_grants hs c)"
proof (induction gs arbitrary: hs c)
  case Nil
  then show ?case by simp
next
  case (Cons gs1 gs)
  then obtain hs1 hs' where h: "hs = hs1 # hs'" "fst hs1 = fst gs1" "map fst gs = map fst hs'"
    by (cases hs) auto
  obtain g src where g: "gs1 = (g, src)" by (cases gs1)
  obtain src' where "hs1 = (g, src')" using h(2) g by (cases hs1) simp
  with g h(1) Cons.IH [OF h(3), of "c(g := Suc (c g))"] show ?case
    by (simp only: number_grants.simps list.map prod.case)
qed

text \<open>The tool directory rules depend on the state through two of its fields only.\<close>

lemma emit_readable_text:
  "pol_text st = pol_text st' \<Longrightarrow> readableIdx st = readableIdx st' \<Longrightarrow>
   pol_text (emit_readable d st) = pol_text (emit_readable d' st')
   \<and> readableIdx (emit_readable d st) = readableIdx (emit_readable d' st')"
  by (simp add: emit_readable_def Let_def)

lemma read_dir_rules_text:
  "pol_text st = pol_text st' \<Longrightarrow> readableIdx st = readableIdx st' \<Longrightarrow>
   pol_text (snd (read_dir_rules rds seen st)) = pol_text (snd (read_dir_rules rds seen st'))
   \<and> readableIdx (snd (read_dir_rules rds seen st)) = readableIdx (snd (read_dir_rules rds seen st'))
   \<and> fst (read_dir_rules rds seen st) = fst (read_dir_rules rds seen st')"
proof (induction rds arbitrary: seen st st')
  case (Cons rd rds)
  show ?case
  proof (cases "rd \<in> seen")
    case True
    with Cons.IH [OF Cons.prems] show ?thesis by (simp only: read_dir_rules.simps if_True simp_thms)
  next
    case False
    have "pol_text (emit_readable rd st) = pol_text (emit_readable rd st')"
      "readableIdx (emit_readable rd st) = readableIdx (emit_readable rd st')"
      using emit_readable_text [OF Cons.prems] by blast+
    from Cons.IH [OF this, of "insert rd seen"] False show ?thesis
      by (simp only: read_dir_rules.simps if_False simp_thms)
  qed
qed simp

lemma exec_dir_rules_text:
  "pol_text st = pol_text st' \<Longrightarrow> readableIdx st = readableIdx st' \<Longrightarrow>
   pol_text (snd (exec_dir_rules eds seen st)) = pol_text (snd (exec_dir_rules eds seen st'))
   \<and> readableIdx (snd (exec_dir_rules eds seen st)) = readableIdx (snd (exec_dir_rules eds seen st'))
   \<and> fst (exec_dir_rules eds seen st) = fst (exec_dir_rules eds seen st')"
proof (induction eds arbitrary: seen st st')
  case (Cons ed eds)
  let ?u = "\<lambda>st. st\<lparr>pol_text := pol_text st @ nl @ ''(allow file-map-executable (subpath '' @ fmt_q ed @ ''))''\<rparr>"
  have "pol_text (?u st) = pol_text (?u st')" "readableIdx (?u st) = readableIdx (?u st')"
    using Cons.prems by simp_all
  from Cons.IH [OF this] Cons.IH [OF Cons.prems] show ?case
    by (cases "''exec:'' @ ed \<in> seen") (simp_all only: exec_dir_rules.simps if_True if_False simp_thms)
qed simp

lemma appendToolDirRules_text:
  "pol_text st = pol_text st' \<Longrightarrow> readableIdx st = readableIdx st' \<Longrightarrow>
   pol_text (appendToolDirRules tds seen st) = pol_text (appendToolDirRules tds seen st')"
proof (induction tds arbitrary: seen st st')
  case Nil
  then show ?case by simp
next
  case (Cons td tds)
  let ?r = "\<lambda>st. read_dir_rules (ReadDirs td) seen st"
  let ?e = "\<lambda>st. exec_dir_rules (ExecDirs td) (fst (?r st)) (snd (?r st))"
  note r = read_dir_rules_text [OF Cons.prems, of "ReadDirs td" seen]
  have e: "pol_text (snd (?e st)) = pol_text (snd (?e st'))"
    "readableIdx (snd (?e st)) = readableIdx (snd (?e st'))" "fst (?e st) = fst (?e st')"
    using r exec_dir_rules_text [of "snd (?r st)" "snd (?r st')" "ExecDirs td" "fst (?r st)"] by simp_all
  from Cons.IH [OF e(1,2), of "fst (?e st)"] e(3) show ?case
    by (simp only: appendToolDirRules.simps Let_def)
qed

lemma mount_rules_Inr_all:
  "mount_rules ms st = Inr r \<Longrightarrow> \<forall>m \<in> set ms. MetadataOnly m \<or> Source m = Target m"
  using mount_rules_remap by (metis sum.distinct(1))

lemma mount_rules_text:
  assumes "mount_rules ms st = Inr r" "mount_rules ms' st = Inr r'"
    and "map (fst \<circ> mount_grant) ms = map (fst \<circ> mount_grant) ms'"
  shows "pol_text r = pol_text r' \<and> st_count r = st_count r'"
proof -
  have r: "r = fold emit (map mount_grant ms) st" "r' = fold emit (map mount_grant ms') st"
    using assms(1,2) mount_rules_Inr [OF mount_rules_Inr_all [OF assms(1)]]
      mount_rules_Inr [OF mount_rules_Inr_all [OF assms(2)]] by (simp_all only: sum.inject)
  have k: "map fst (map mount_grant ms) = map fst (map mount_grant ms')" using assms(3) by simp
  have cnt: "length (filter (\<lambda>x. fst x = g) gs) = length (filter (\<lambda>k. k = g) (map fst gs))"
    for g and gs :: "(grant \<times> string) list"
    by (induction gs) auto
  show ?thesis
    unfolding r fold_emit(2) st_count_fold number_grants_kinds [OF k] cnt k by simp
qed

text \<open>The policy text is the same for any two mount lists of the same kinds.\<close>

lemma buildPolicy_text:
  assumes "buildPolicy h tds b p n cd (Some c) = Inr (t, ps)"
    and "buildPolicy h tds b p n cd (Some c') = Inr (t', ps')"
    and "map (fst \<circ> mount_grant) (MountDirs c) = map (fst \<circ> mount_grant) (MountDirs c')"
  shows "t = t'"
proof -
  let ?st0 = "\<lparr>pol_text = b @ nl @ p @ nl @ n, pol_params = [], readableIdx = 0, writableIdx = 0,
    metadataIdx = 0\<rparr>"
  obtain r where r: "mount_rules (MountDirs c) ?st0 = Inr r"
    using assms(1) by (cases "mount_rules (MountDirs c) ?st0") (auto simp: buildPolicy_def Let_def)
  obtain r' where r': "mount_rules (MountDirs c') ?st0 = Inr r'"
    using assms(2) by (cases "mount_rules (MountDirs c') ?st0") (auto simp: buildPolicy_def Let_def)
  have eq: "pol_text r = pol_text r'" "st_count r = st_count r'"
    using mount_rules_text [OF r r' assms(3)] by blast+
  have idx: "readableIdx r = readableIdx r'" using fun_cong [OF eq(2), of GRead] by (simp add: st_count_def)
  show ?thesis
    using assms(1,2) appendToolDirRules_text [OF eq(1) idx, of tds "{}"]
    unfolding buildPolicy_def Let_def option.case r r' sum.case by (cases cd) auto
qed

section \<open>Properties\<close>

definition sample_mounts :: "Mount list" where
  "sample_mounts =
     [\<lparr>Source = ''/data'', Target = ''/data'', ReadOnly = True, MetadataOnly = False\<rparr>,
      \<lparr>Source = ''/x\")(allow default)'', Target = ''/x\")(allow default)'', ReadOnly = False, MetadataOnly = False\<rparr>]"

text \<open>
  Each mount of a policy becomes a parameter of its own: the keys \<open>sandbox-exec\<close> reads from
  the arguments are pairwise distinct, and their values are the mount sources in order, then
  the tool directories not seen before, then the cache directory.
\<close>

theorem buildPolicy_assigns:
  assumes "buildPolicy h tds b p n cacheDir (Some c) = Inr (text', params')"
  shows "\<exists>cd. cacheDir = Some cd \<and> distinct (map fst (param_assignments params'))
    \<and> map snd (param_assignments params') = map Source (MountDirs c) @ tool_reads tds {} @ [cd]"
proof -
  from buildPolicy_params [OF assms] obtain cd where cd: "cacheDir = Some cd" "params' = policy_params tds (MountDirs c) cd"
    by blast
  have num: "map (\<lambda>(g, n, src). src) (number_grants gs ct) = map snd gs" for gs ct
    by (induction gs ct rule: number_grants.induct) (auto simp: fun_upd_def)
  have "map snd (param_assignments params') = map (\<lambda>(g, n, src). src) (policy_grants tds (MountDirs c)) @ [cd]"
    unfolding cd(2) param_assignments_policy by (simp add: case_prod_beta comp_def)
  also have "\<dots> = map Source (MountDirs c) @ tool_reads tds {} @ [cd]"
    unfolding policy_grants_def num by (simp add: mount_grant_def comp_def)
  finally show ?thesis using cd policy_keys_distinct by blast
qed

lemma sample_policy:
  "\<exists>text params. buildPolicy sample_host [] [] [] [] (Some ''/c'') (Some \<lparr>Env = [], MountDirs = sample_mounts, WorkingDir = []\<rparr>)
     = Inr (text, params)"
  by (simp add: buildPolicy_def sample_mounts_def Let_def)

theorem buildPolicy_assigns_witness:
  "\<exists>text params. buildPolicy sample_host [] [] [] [] (Some ''/c'') (Some \<lparr>Env = [], MountDirs = sample_mounts, WorkingDir = []\<rparr>)
     = Inr (text, params) \<and> map snd (param_assignments params) = [''/data'', ''/x\")(allow default)'', ''/c'']"
proof -
  obtain t ps where p: "buildPolicy sample_host [] [] [] [] (Some ''/c'')
      (Some \<lparr>Env = [], MountDirs = sample_mounts, WorkingDir = []\<rparr>) = Inr (t, ps)"
    using sample_policy by blast
  from buildPolicy_assigns [OF p] have "map snd (param_assignments ps) = map Source sample_mounts @ [''/c'']" by simp
  with p show ?thesis by (simp add: sample_mounts_def)
qed

text \<open>
  No path of a request can inject policy rules: two requests whose mounts have the same kinds
  in the same order get the same policy text, whatever their paths are.
\<close>

theorem policy_text_independent_of_paths:
  assumes "buildPolicy h tds b p n cd (Some c) = Inr (t, ps)"
    and "buildPolicy h tds b p n cd (Some c') = Inr (t', ps')"
    and "map (fst \<circ> mount_grant) (MountDirs c) = map (fst \<circ> mount_grant) (MountDirs c')"
  shows "t = t'"
  by (rule buildPolicy_text [OF assms])

theorem policy_text_independent_of_paths_witness:
  "\<exists>text params params'. buildPolicy sample_host [] [] [] [] (Some ''/c'')
       (Some \<lparr>Env = [], MountDirs = sample_mounts, WorkingDir = []\<rparr>) = Inr (text, params)
     \<and> buildPolicy sample_host [] [] [] [] (Some ''/c'')
       (Some \<lparr>Env = [], MountDirs = map (\<lambda>m. m\<lparr>Source := ''/y'', Target := ''/y''\<rparr>) sample_mounts, WorkingDir = []\<rparr>)
       = Inr (text, params')"
proof -
  let ?c = "\<lparr>Env = [], MountDirs = sample_mounts, WorkingDir = []\<rparr>"
  let ?c' = "\<lparr>Env = [], MountDirs = map (\<lambda>m. m\<lparr>Source := ''/y'', Target := ''/y''\<rparr>) sample_mounts, WorkingDir = []\<rparr>"
  obtain t ps where p: "buildPolicy sample_host [] [] [] [] (Some ''/c'') (Some ?c) = Inr (t, ps)"
    using sample_policy by blast
  obtain t' ps' where p': "buildPolicy sample_host [] [] [] [] (Some ''/c'') (Some ?c') = Inr (t', ps')"
    by (simp add: buildPolicy_def sample_mounts_def Let_def)
  have "t = t'" by (rule policy_text_independent_of_paths [OF p p']) (simp add: sample_mounts_def mount_grant_def)
  with p p' show ?thesis by blast
qed

end
