(* ===== verification/Sbpl.thy ===== *)
theory Sbpl
  imports Seatbelt
begin

text \<open>
  An abstract reading of the policy text that \<open>buildPolicy\<close> of \<open>sandbox/policy.go\<close> writes: a
  reader of its parenthesized forms, with comments, strings and regular expressions, and what
  the \<open>allow\<close> forms grant under the parameters of the command line. The lemmas read the text of
  \<open>buildPolicy\<close> form by form: the templates, then one rule per grant, whatever the paths are.
\<close>

section \<open>Reading forms\<close>

datatype form = Sym string | Txt string | Rgx string | Frm "form list"

text \<open>
  A lexer takes one byte at a time and emits tokens: an opening, a closing, or a whole symbol,
  string or regular expression. The tokens act on a stack of the open forms, innermost first,
  each with its members so far in reverse.
\<close>

datatype lexing = Between | InComment | InSym string | InText bool string | InEscape string

datatype tok = TOpen | TClose | TForm form

definition is_blank :: "char \<Rightarrow> bool" where
  "is_blank c \<longleftrightarrow> c = CHR '' '' \<or> c = CHR 0x0A \<or> c = CHR 0x09 \<or> c = CHR 0x0D"

definition between_step :: "char \<Rightarrow> tok list \<times> lexing" where
  "between_step c =
     (if c = CHR ''('' then ([TOpen], Between)
      else if c = CHR '')'' then ([TClose], Between)
      else if c = CHR '';'' then ([], InComment)
      else if c = CHR 0x22 then ([], InText False [])
      else if is_blank c then ([], Between)
      else ([], InSym [c]))"

text \<open>A string starts with a quote, a regular expression with \<open>#\<close> and a quote.\<close>

fun lex_step :: "char \<Rightarrow> lexing \<Rightarrow> tok list \<times> lexing" where
  "lex_step c Between = between_step c"
| "lex_step c InComment = ([], if c = CHR 0x0A then Between else InComment)"
| "lex_step c (InSym acc) =
     (if c = CHR 0x22 \<and> acc = [CHR ''#''] then ([], InText True [])
      else if c = CHR ''('' \<or> c = CHR '')'' \<or> c = CHR '';'' \<or> c = CHR 0x22 \<or> is_blank c
      then (let (ts, m) = between_step c in (TForm (Sym (rev acc)) # ts, m))
      else ([], InSym (c # acc)))"
| "lex_step c (InText rx acc) =
     (if c = CHR 0x22 then ([TForm (if rx then Rgx (rev acc) else Txt (rev acc))], Between)
      else if c = CHR 0x5C \<and> \<not> rx then ([], InEscape acc)
      else ([], InText rx (c # acc)))"
| "lex_step c (InEscape acc) = ([], InText False (c # acc))"

fun sbpl_lex :: "string \<Rightarrow> lexing \<Rightarrow> tok list \<times> lexing" where
  "sbpl_lex [] m = ([], m)"
| "sbpl_lex (c # s) m = (let (ts, m') = lex_step c m; (us, m'') = sbpl_lex s m' in (ts @ us, m''))"

fun apply_tok :: "tok \<Rightarrow> form list list \<Rightarrow> form list list option" where
  "apply_tok TOpen st = Some ([] # st)"
| "apply_tok TClose (fs # gs # st) = Some ((Frm (rev fs) # gs) # st)"
| "apply_tok (TForm f) (fs # st) = Some ((f # fs) # st)"
| "apply_tok _ _ = None"

fun apply_toks :: "tok list \<Rightarrow> form list list \<Rightarrow> form list list option" where
  "apply_toks [] st = Some st"
| "apply_toks (t # ts) st = (case apply_tok t st of None \<Rightarrow> None | Some st' \<Rightarrow> apply_toks ts st')"

text \<open>The forms of a whole text, \<open>None\<close> where a form or a string is left open.\<close>

definition tok_forms :: "tok list \<Rightarrow> form list option" where
  "tok_forms ts = (case apply_toks ts [[]] of Some [fs] \<Rightarrow> Some (rev fs) | _ \<Rightarrow> None)"

definition sbpl_forms :: "string \<Rightarrow> form list option" where
  "sbpl_forms t = (let (ts, m) = sbpl_lex t Between in
     if m = Between \<or> m = InComment then tok_forms ts else None)"

section \<open>What the forms grant\<close>

text \<open>
  An \<open>allow\<close> form names operations and filters; without a filter it grants the operations
  everywhere. A star at the end of a name stands for all operations that start so.
\<close>

datatype target = Everywhere | At string | Below string | OtherFilter form

definition op_covers :: "string \<Rightarrow> string \<Rightarrow> bool" where
  "op_covers pat op \<longleftrightarrow> pat = op \<or> pat = ''default''
     \<or> (pat \<noteq> [] \<and> last pat = CHR ''*'' \<and> strings_HasPrefix op (butlast pat))"

fun form_names :: "form list \<Rightarrow> string list" where
  "form_names [] = []"
| "form_names (Sym s # fs) = s # form_names fs"
| "form_names (f # fs) = form_names fs"

fun form_filters :: "form list \<Rightarrow> form list" where
  "form_filters [] = []"
| "form_filters (Frm f # fs) = Frm f # form_filters fs"
| "form_filters (f # fs) = form_filters fs"

text \<open>The text of an argument, under the parameters of the command line.\<close>

fun text_of :: "(string \<Rightarrow> string option) \<Rightarrow> form \<Rightarrow> string option" where
  "text_of env (Txt s) = Some s"
| "text_of env (Frm [Sym h, Txt k]) = (if h = ''param'' then env k else None)"
| "text_of env (Frm [Sym h, a, b]) =
     (if h = ''string-append'' then
        (case (text_of env a, text_of env b) of (Some s, Some t) \<Rightarrow> Some (s @ t) | _ \<Rightarrow> None)
      else None)"
| "text_of env f = None"

definition target_of :: "(string \<Rightarrow> string option) \<Rightarrow> form \<Rightarrow> target" where
  "target_of env f =
     (case f of Frm [Sym h, x] \<Rightarrow>
        (case text_of env x of None \<Rightarrow> OtherFilter f
         | Some p \<Rightarrow> if h = ''literal'' then At p else if h = ''subpath'' then Below p else OtherFilter f)
      | _ \<Rightarrow> OtherFilter f)"

definition rule_args :: "string \<Rightarrow> form \<Rightarrow> form list option" where
  "rule_args action f = (case f of Frm (Sym h # args) \<Rightarrow> if h = action then Some args else None | _ \<Rightarrow> None)"

definition rule_targets :: "(string \<Rightarrow> string option) \<Rightarrow> string \<Rightarrow> form \<Rightarrow> target list" where
  "rule_targets env op f =
     (case rule_args ''allow'' f of None \<Rightarrow> []
      | Some args \<Rightarrow> if list_ex (\<lambda>n. op_covers n op) (form_names args)
          then (if form_filters args = [] then [Everywhere] else map (target_of env) (form_filters args)) else [])"

definition granted :: "(string \<Rightarrow> string option) \<Rightarrow> string \<Rightarrow> form list \<Rightarrow> target list" where
  "granted env op fs = concat (map (rule_targets env op) fs)"

definition denials :: "form list \<Rightarrow> form list list" where
  "denials fs = List.map_filter (rule_args ''deny'') fs"

definition ops_named :: "form list \<Rightarrow> string list" where
  "ops_named fs = concat (map form_names (List.map_filter (rule_args ''allow'') fs))"

lemma granted_append [simp]: "granted env op (fs @ gs) = granted env op fs @ granted env op gs"
  by (simp add: granted_def)

lemma denials_append [simp]: "denials (fs @ gs) = denials fs @ denials gs"
  by (simp add: denials_def List.map_filter_def)

lemma ops_named_append: "ops_named (fs @ gs) = ops_named fs @ ops_named gs"
  by (simp add: ops_named_def List.map_filter_def)

text \<open>Two operations that the same names cover are granted the same.\<close>

lemma granted_cong:
  assumes "\<And>n. n \<in> set (ops_named fs) \<Longrightarrow> op_covers n op \<longleftrightarrow> op_covers n op'"
  shows "granted env op fs = granted env op' fs"
proof -
  have "rule_targets env op f = rule_targets env op' f" if "f \<in> set fs" for f
  proof (cases "rule_args ''allow'' f")
    case (Some args)
    have "form_names args \<in> set (map form_names (List.map_filter (rule_args ''allow'') fs))"
      using that Some by (force simp: List.map_filter_def)
    then have "op_covers n op \<longleftrightarrow> op_covers n op'" if "n \<in> set (form_names args)" for n
      using that by (intro assms) (auto simp: ops_named_def)
    then have "list_ex (\<lambda>n. op_covers n op) (form_names args) = list_ex (\<lambda>n. op_covers n op') (form_names args)"
      by (auto simp: list_ex_iff)
    with Some show ?thesis by (simp add: rule_targets_def)
  qed (simp add: rule_targets_def)
  then show ?thesis unfolding granted_def by (intro arg_cong [where f = concat] map_cong) auto
qed

section \<open>Reading a text piece by piece\<close>

lemma lex_append:
  "sbpl_lex (s @ t) m = (let (ts, m') = sbpl_lex s m; (us, m'') = sbpl_lex t m' in (ts @ us, m''))"
  by (induction s arbitrary: m) (simp_all add: Let_def split_beta)

lemma apply_toks_append:
  "apply_toks (ts @ us) st = (case apply_toks ts st of None \<Rightarrow> None | Some st' \<Rightarrow> apply_toks us st')"
  by (induction ts st rule: apply_toks.induct) (auto split: option.split)

text \<open>The tokens never look at the members read so far, nor below the stack they were read on.\<close>

lemma apply_tok_frame:
  assumes "st \<noteq> []" "apply_tok t st = Some st'"
  shows "st' \<noteq> [] \<and> apply_tok t (butlast st @ (last st @ b) # low) = Some (butlast st' @ (last st' @ b) # low)"
  using assms by (cases "(t, st)" rule: apply_tok.cases) auto

lemma apply_toks_frame:
  "st \<noteq> [] \<Longrightarrow> apply_toks ts st = Some st' \<Longrightarrow>
   st' \<noteq> [] \<and> apply_toks ts (butlast st @ (last st @ b) # low) = Some (butlast st' @ (last st' @ b) # low)"
proof (induction ts arbitrary: st)
  case (Cons t ts)
  then obtain st1 where 1: "apply_tok t st = Some st1" "apply_toks ts st1 = Some st'"
    by (auto split: option.splits)
  note step = apply_tok_frame [OF Cons.prems(1) 1(1), of b low]
  from Cons.IH [OF step [THEN conjunct1] 1(2)] step show ?case by simp
qed auto

lemma tok_forms_frame:
  assumes "tok_forms ts = Some fs"
  shows "apply_toks ts (b # low) = Some ((rev fs @ b) # low)"
proof -
  have "apply_toks ts [[]] = Some [rev fs]"
    using assms by (auto simp: tok_forms_def split: option.splits list.splits)
  from apply_toks_frame [OF _ this, of b low] show ?thesis by simp
qed

lemma tok_forms_append:
  assumes "tok_forms ts = Some fs" "tok_forms us = Some gs"
  shows "tok_forms (ts @ us) = Some (fs @ gs)"
  using tok_forms_frame [OF assms(1), of "[]" "[]"] tok_forms_frame [OF assms(2), of "rev fs" "[]"]
  by (simp add: tok_forms_def apply_toks_append)

text \<open>A piece that starts on a line of its own reads the same wherever it stands.\<close>

definition reads_line :: "string \<Rightarrow> form list \<Rightarrow> bool" where
  "reads_line t fs \<longleftrightarrow> (\<forall>m. m = Between \<or> m = InComment \<longrightarrow>
     (\<exists>ts m'. sbpl_lex (nl @ t) m = (ts, m') \<and> (m' = Between \<or> m' = InComment) \<and> tok_forms ts = Some fs))"

lemma sbpl_forms_line:
  assumes "sbpl_forms t = Some fs" "reads_line u gs"
  shows "sbpl_forms (t @ nl @ u) = Some (fs @ gs)"
proof -
  obtain ts m where m: "m = Between \<or> m = InComment" "sbpl_lex t Between = (ts, m)" "tok_forms ts = Some fs"
    using assms(1) by (auto simp: sbpl_forms_def split: prod.splits if_splits)
  with assms(2) obtain us m' where "sbpl_lex (nl @ u) m = (us, m')" "m' = Between \<or> m' = InComment" "tok_forms us = Some gs"
    unfolding reads_line_def by blast
  then show ?thesis
    using m(2) tok_forms_append [OF m(3)]
    by (simp add: sbpl_forms_def lex_append [of t] del: append_Cons append_Nil)
qed

lemma reads_line_forms: "sbpl_forms t = Some fs \<Longrightarrow> reads_line t fs"
  by (auto simp: sbpl_forms_def reads_line_def between_step_def is_blank_def split: prod.splits if_splits)

text \<open>A text whose lines end between two tokens can be read line by line.\<close>

definition unlines :: "string list \<Rightarrow> string" where
  "unlines ls = concat (map (\<lambda>l. l @ nl) ls)"

definition lex_lines :: "string list \<Rightarrow> tok list option" where
  "lex_lines ls = (let rs = map (\<lambda>l. sbpl_lex (l @ nl) Between) ls in
     if list_all (\<lambda>r. snd r = Between) rs then Some (concat (map fst rs)) else None)"

lemma lex_unlines: "lex_lines ls = Some ts \<Longrightarrow> sbpl_lex (unlines ls) Between = (ts, Between)"
proof (induction ls arbitrary: ts)
  case (Cons l ls)
  obtain us where l: "sbpl_lex (l @ nl) Between = (us, Between)"
    using Cons.prems by (cases "sbpl_lex (l @ nl) Between") (auto simp: lex_lines_def Let_def split: if_splits)
  then obtain vs where vs: "lex_lines ls = Some vs" "ts = us @ vs"
    using Cons.prems by (auto simp: lex_lines_def Let_def split: if_splits)
  have "sbpl_lex ((l @ nl) @ unlines ls) Between = (us @ vs, Between)"
    using lex_append [of "l @ nl" "unlines ls" Between] l Cons.IH [OF vs(1)] by (simp only: Let_def prod.case)
  then show ?case using vs(2) by (simp add: unlines_def)
qed (simp add: lex_lines_def unlines_def)

definition line_forms :: "string list \<Rightarrow> form list option" where
  "line_forms ls = (case lex_lines ls of None \<Rightarrow> None | Some ts \<Rightarrow> tok_forms ts)"

lemma line_forms: "line_forms ls = Some fs \<Longrightarrow> sbpl_forms (unlines ls) = Some fs"
  using lex_unlines by (auto simp: line_forms_def sbpl_forms_def split: option.splits)

lemma line_forms_append:
  assumes "line_forms ls = Some fs" "line_forms ks = Some gs"
  shows "line_forms (ls @ ks) = Some (fs @ gs)"
proof -
  obtain ts us where t: "lex_lines ls = Some ts" "tok_forms ts = Some fs" "lex_lines ks = Some us" "tok_forms us = Some gs"
    using assms by (auto simp: line_forms_def split: option.splits)
  then have "lex_lines (ls @ ks) = Some (ts @ us)" by (auto simp: lex_lines_def Let_def split: if_splits)
  with tok_forms_append [OF t(2,4)] show ?thesis by (simp add: line_forms_def)
qed

section \<open>The rules of a policy\<close>

text \<open>A text without quotes and backslashes, as the keys and the constants of the registry are.\<close>

definition plain_quoted :: "string \<Rightarrow> bool" where
  "plain_quoted s \<longleftrightarrow> CHR 0x22 \<notin> set s \<and> CHR 0x5C \<notin> set s"

lemma lex_plain:
  "plain_quoted s \<Longrightarrow> sbpl_lex (s @ t) (InText rx acc) = sbpl_lex t (InText rx (rev s @ acc))"
  by (induction s arbitrary: acc) (auto simp: plain_quoted_def)

lemma lex_quoted:
  "plain_quoted s \<Longrightarrow> sbpl_lex (fmt_q s @ t) Between = (let (us, m) = sbpl_lex t Between in (TForm (Txt s) # us, m))"
  using lex_plain [of s "CHR 0x22 # t" False "[]"]
  by (simp add: fmt_q_def dquote_def between_step_def)

fun grant_form :: "grant \<Rightarrow> nat \<Rightarrow> form" where
  "grant_form GMetadata n = Frm [Sym ''allow'', Sym ''file-read-metadata'',
     Frm [Sym ''literal'', Frm [Sym ''param'', Txt (grant_key GMetadata n)]]]"
| "grant_form GRead n = Frm [Sym ''allow'', Sym ''file-read*'',
     Frm [Sym ''subpath'', Frm [Sym ''param'', Txt (grant_key GRead n)]]]"
| "grant_form GWrite n = Frm [Sym ''allow'', Sym ''file-read*'', Sym ''file-write*'',
     Frm [Sym ''subpath'', Frm [Sym ''param'', Txt (grant_key GWrite n)]]]"

definition exec_form :: "string \<Rightarrow> form" where
  "exec_form d = Frm [Sym ''allow'', Sym ''file-map-executable'', Frm [Sym ''subpath'', Txt d]]"

definition literal_form :: "string \<Rightarrow> form" where
  "literal_form d = Frm [Sym ''allow'', Sym ''file-read-metadata'', Frm [Sym ''literal'', Txt d]]"

lemma digits_base_digits:
  "(\<And>c. c \<in> set acc \<Longrightarrow> 48 \<le> (of_char c :: nat) \<and> (of_char c :: nat) \<le> 57) \<Longrightarrow>
   c \<in> set (digits_base 10 n acc) \<Longrightarrow> 48 \<le> (of_char c :: nat) \<and> (of_char c :: nat) \<le> 57"
proof (induction "10 :: nat" n acc rule: digits_base.induct)
  case (1 n acc)
  have "of_char (digit_char (n mod 10)) = (48 + n mod 10 :: nat)" by (simp add: digit_char_def)
  moreover have "n mod 10 \<le> 9" by presburger
  ultimately have "48 \<le> (of_char (digit_char (n mod 10)) :: nat)" "(of_char (digit_char (n mod 10)) :: nat) \<le> 57"
    by simp_all
  with 1 show ?case by (cases "n div 10 = 0") (auto simp: digits_base.simps [of 10 n])
qed

lemma plain_key: "plain_quoted (grant_key g n)"
proof -
  have "CHR 0x22 \<notin> set (fmt_d n)" "CHR 0x5C \<notin> set (fmt_d n)"
    using digits_base_digits [of "[]" _ n] unfolding fmt_d_def by fastforce+
  then show ?thesis by (cases g) (auto simp: plain_quoted_def grant_key_def)
qed

lemma reads_grant: "\<exists>t. grant_rule g n = nl @ t \<and> reads_line t [grant_form g n]"
  by (cases g) (auto simp: reads_line_def between_step_def is_blank_def lex_quoted [OF plain_key] tok_forms_def)

lemma reads_exec: "plain_quoted d \<Longrightarrow> reads_line (''(allow file-map-executable (subpath '' @ fmt_q d @ ''))'') [exec_form d]"
  by (auto simp: reads_line_def between_step_def is_blank_def lex_quoted tok_forms_def exec_form_def)

lemma reads_literal: "plain_quoted d \<Longrightarrow> reads_line (''(allow file-read-metadata (literal '' @ fmt_q d @ ''))'') [literal_form d]"
  by (auto simp: reads_line_def between_step_def is_blank_def lex_quoted tok_forms_def literal_form_def)

text \<open>The loops of \<open>buildPolicy\<close>, in terms of the forms that its text holds so far.\<close>

lemma emit_forms:
  assumes "sbpl_forms (pol_text st) = Some fs"
  shows "sbpl_forms (pol_text (emit (g, src) st)) = Some (fs @ [grant_form g (st_count st g)])"
  using reads_grant [of g "st_count st g"] sbpl_forms_line [OF assms] by (metis emit_fields(1))

definition grant_forms :: "(grant \<times> nat \<times> string) list \<Rightarrow> form list" where
  "grant_forms gs = map (\<lambda>(g, n, src). grant_form g n) gs"

lemma fold_emit_forms:
  "sbpl_forms (pol_text st) = Some fs \<Longrightarrow>
   sbpl_forms (pol_text (fold emit gs st)) = Some (fs @ grant_forms (number_grants gs (st_count st)))"
proof (induction gs arbitrary: st fs)
  case (Cons gs1 gs)
  obtain g src where g: "gs1 = (g, src)" by (cases gs1)
  from Cons.IH [OF emit_forms [OF Cons.prems, of g src]] show ?case
    by (simp add: g grant_forms_def emit_fields fun_upd_def)
qed (simp add: grant_forms_def)

text \<open>The rules of the tool directories: a grant for each new one, with executable mappings in between.\<close>

definition exec_forms :: "form list \<Rightarrow> bool" where
  "exec_forms fs \<longleftrightarrow> (\<forall>f \<in> set fs. \<exists>d. f = exec_form d)"

lemma read_dir_rules_eq:
  "snd (read_dir_rules rds seen st) = fold emit (map (Pair GRead) (dedup_seen rds seen)) st"
  by (induction rds arbitrary: seen st) (auto simp: emit_def)

lemma exec_dir_rules_forms:
  "sbpl_forms (pol_text st) = Some fs \<Longrightarrow> \<forall>d \<in> set eds. plain_quoted d \<Longrightarrow>
   \<exists>xs. exec_forms xs \<and> sbpl_forms (pol_text (snd (exec_dir_rules eds seen st))) = Some (fs @ xs)"
proof (induction eds arbitrary: seen st fs)
  case Nil
  then show ?case by (intro exI [of _ "[]"]) (simp add: exec_forms_def)
next
  case (Cons d eds)
  show ?case
  proof (cases "''exec:'' @ d \<in> seen")
    case True
    with Cons show ?thesis by simp
  next
    case False
    let ?st = "st\<lparr>pol_text := pol_text st @ nl @ ''(allow file-map-executable (subpath '' @ fmt_q d @ ''))''\<rparr>"
    have "sbpl_forms (pol_text ?st) = Some (fs @ [exec_form d])"
      using sbpl_forms_line [OF Cons.prems(1) reads_exec [of d]] Cons.prems(2) by simp
    from Cons.IH [OF this, of "insert (''exec:'' @ d) seen"] Cons.prems(2) False
    obtain xs where "exec_forms xs"
      "sbpl_forms (pol_text (snd (exec_dir_rules (d # eds) seen st))) = Some (fs @ exec_form d # xs)" by auto
    then show ?thesis by (intro exI [of _ "exec_form d # xs"]) (auto simp: exec_forms_def)
  qed
qed

definition non_exec :: "form list \<Rightarrow> form list" where
  "non_exec fs = filter (\<lambda>f. \<forall>d. f \<noteq> exec_form d) fs"

lemma non_exec_simps [simp]:
  "non_exec (fs @ gs) = non_exec fs @ non_exec gs" "exec_forms fs \<Longrightarrow> non_exec fs = []"
  "non_exec (grant_forms ns) = grant_forms ns"
proof -
  show "non_exec (grant_forms ns) = grant_forms ns"
    unfolding non_exec_def grant_forms_def
    by (rule filter_True) (auto simp: exec_form_def elim!: grant_form.elims)
qed (auto simp: non_exec_def exec_forms_def filter_empty_conv)

lemma appendToolDirRules_forms:
  assumes "sbpl_forms (pol_text st) = Some fs" "\<forall>td \<in> set tds. \<forall>d \<in> set (ExecDirs td). plain_quoted d"
  shows "\<exists>xs. sbpl_forms (pol_text (appendToolDirRules tds seen st)) = Some (fs @ xs)
    \<and> non_exec xs = grant_forms (number_grants (map (Pair GRead) (tool_reads tds seen)) (st_count st))
    \<and> (\<forall>f \<in> set xs. (\<exists>d. f = exec_form d) \<or> (\<exists>g n. f = grant_form g n))"
  using assms
proof (induction tds arbitrary: seen st fs)
  case Nil
  then show ?case by (intro exI [of _ "[]"]) (simp add: non_exec_def grant_forms_def)
next
  case (Cons td tds)
  let ?r = "read_dir_rules (ReadDirs td) seen st"
  let ?e = "exec_dir_rules (ExecDirs td) (fst ?r) (snd ?r)"
  let ?gs = "map (Pair GRead) (dedup_seen (ReadDirs td) seen)"
  let ?ns = "number_grants ?gs (st_count st)"
  let ?seen = "seen \<union> set (ReadDirs td) \<union> (\<lambda>ed. ''exec:'' @ ed) ` set (ExecDirs td)"
  have "sbpl_forms (pol_text (snd ?r)) = Some (fs @ grant_forms ?ns)"
    unfolding read_dir_rules_eq by (rule fold_emit_forms [OF Cons.prems(1)])
  then obtain xs where xs: "exec_forms xs" "sbpl_forms (pol_text (snd ?e)) = Some (fs @ grant_forms ?ns @ xs)"
    using exec_dir_rules_forms [of "snd ?r" _ "ExecDirs td" "fst ?r"] Cons.prems(2) by fastforce
  obtain ys where ys: "sbpl_forms (pol_text (appendToolDirRules tds ?seen (snd ?e))) = Some ((fs @ grant_forms ?ns @ xs) @ ys)"
    "non_exec ys = grant_forms (number_grants (map (Pair GRead) (tool_reads tds ?seen)) (st_count (snd ?e)))"
    "\<forall>f \<in> set ys. (\<exists>d. f = exec_form d) \<or> (\<exists>g n. f = grant_form g n)"
    using Cons.IH [OF xs(2)] Cons.prems(2) by (metis list.set_intros(2))
  have c: "st_count (snd ?e) = st_count (fold emit ?gs st)"
    by (simp only: exec_dir_rules_spec read_dir_rules_eq)
  have t: "appendToolDirRules (td # tds) seen st = appendToolDirRules tds ?seen (snd ?e)"
    by (simp only: appendToolDirRules.simps Let_def exec_dir_rules_spec(1) read_dir_rules_spec(1))
  have "grant_forms (ns @ ms) = grant_forms ns @ grant_forms ms" for ns ms by (simp add: grant_forms_def)
  then have "non_exec (grant_forms ?ns @ xs @ ys) =
      grant_forms (number_grants (map (Pair GRead) (tool_reads (td # tds) seen)) (st_count st))"
    using xs(1) ys(2) by (simp only: non_exec_simps c st_count_fold tool_reads.simps map_append number_append append_Nil)
  moreover have "\<forall>f \<in> set (grant_forms ?ns @ xs @ ys). (\<exists>d. f = exec_form d) \<or> (\<exists>g n. f = grant_form g n)"
    using xs(1) ys(3) by (auto simp: exec_forms_def grant_forms_def)
  ultimately show ?case using ys(1) t by (intro exI [of _ "grant_forms ?ns @ xs @ ys"]) simp
qed

section \<open>The whole policy\<close>

lemma literal_forms_read:
  assumes "sbpl_forms t = Some fs" "\<forall>d \<in> set ds. plain_quoted d"
  shows "sbpl_forms (t @ concat (map (\<lambda>d. nl @ ''(allow file-read-metadata (literal '' @ fmt_q d @ ''))'') ds))
    = Some (fs @ map literal_form ds)"
  using assms
proof (induction ds arbitrary: t fs)
  case (Cons d ds)
  have "sbpl_forms (t @ nl @ ''(allow file-read-metadata (literal '' @ fmt_q d @ ''))'') = Some (fs @ [literal_form d])"
    using sbpl_forms_line [OF Cons.prems(1) reads_literal [of d]] Cons.prems(2) by simp
  from Cons.IH [OF this] Cons.prems(2) show ?case by simp
qed simp

lemma buildPolicy_forms:
  assumes "buildPolicy h tds b p n cd (Some c) = Inr (t, ps)"
    and "sbpl_forms b = Some fb" "sbpl_forms p = Some fp" "sbpl_forms n = Some fn"
    and "\<forall>td \<in> set tds. \<forall>d \<in> set (ExecDirs td). plain_quoted d"
  shows "\<exists>xs. sbpl_forms t = Some (fb @ fp @ fn @ xs @ map literal_form (seatbeltMetadataDirs h))
    \<and> non_exec xs = grant_forms (policy_grants tds (MountDirs c))
    \<and> (\<forall>f \<in> set xs. (\<exists>d. f = exec_form d) \<or> (\<exists>g n. f = grant_form g n))"
proof -
  let ?st0 = "\<lparr>pol_text = b @ nl @ p @ nl @ n, pol_params = [], readableIdx = 0, writableIdx = 0, metadataIdx = 0\<rparr>"
  let ?gs = "map mount_grant (MountDirs c)"
  let ?st1 = "fold emit ?gs ?st0"
  have base: "sbpl_forms (pol_text ?st0) = Some (fb @ fp @ fn)"
    using sbpl_forms_line [OF sbpl_forms_line [OF assms(2) reads_line_forms [OF assms(3)]] reads_line_forms [OF assms(4)]]
    by simp
  obtain r where r: "mount_rules (MountDirs c) ?st0 = Inr r"
    using assms(1) by (cases "mount_rules (MountDirs c) ?st0") (auto simp: buildPolicy_def Let_def)
  have r1: "mount_rules (MountDirs c) ?st0 = Inr ?st1"
    using mount_rules_Inr [OF mount_rules_Inr_all [OF r]] by blast
  note mounts = fold_emit_forms [OF base, of ?gs, unfolded st_count_zero]
  from appendToolDirRules_forms [OF mounts assms(5), of "{}"] obtain xs where xs:
    "sbpl_forms (pol_text (appendToolDirRules tds {} ?st1)) = Some ((fb @ fp @ fn) @ grant_forms (number_grants ?gs (\<lambda>_. 0)) @ xs)"
    "non_exec xs = grant_forms (number_grants (map (Pair GRead) (tool_reads tds {})) (st_count ?st1))"
    "\<forall>f \<in> set xs. (\<exists>d. f = exec_form d) \<or> (\<exists>g n. f = grant_form g n)" by auto
  have "\<forall>d \<in> set (seatbeltMetadataDirs h). plain_quoted d" by (simp add: seatbeltMetadataDirs_def plain_quoted_def)
  from literal_forms_read [OF xs(1) this] have t: "sbpl_forms t =
      Some (fb @ fp @ fn @ (grant_forms (number_grants ?gs (\<lambda>_. 0)) @ xs) @ map literal_form (seatbeltMetadataDirs h))"
    using assms(1) unfolding buildPolicy_def Let_def option.case r1 sum.case by (simp split: option.splits)
  have "grant_forms (ns @ ms) = grant_forms ns @ grant_forms ms" for ns ms by (simp add: grant_forms_def)
  then have "non_exec (grant_forms (number_grants ?gs (\<lambda>_. 0)) @ xs) = grant_forms (policy_grants tds (MountDirs c))"
    using xs(2) by (simp only: non_exec_simps policy_grants_def number_append st_count_fold st_count_zero)
  with t xs(3) show ?thesis
    by (intro exI [of _ "grant_forms (number_grants ?gs (\<lambda>_. 0)) @ xs"]) (auto simp: grant_forms_def)
qed

text \<open>What the single rules grant.\<close>

lemma op_covers_names:
  "op_covers ''file-read*'' op \<longleftrightarrow> op = ''file-read*'' \<or> strings_HasPrefix op ''file-read''"
  "op_covers ''file-write*'' op \<longleftrightarrow> op = ''file-write*'' \<or> strings_HasPrefix op ''file-write''"
  "op_covers ''file-read-metadata'' op \<longleftrightarrow> op = ''file-read-metadata''"
  "op_covers ''file-map-executable'' op \<longleftrightarrow> op = ''file-map-executable''"
  by (auto simp: op_covers_def)

lemma exec_targets: "op \<noteq> ''file-map-executable'' \<Longrightarrow> rule_targets env op (exec_form d) = []"
  by (simp add: rule_targets_def rule_args_def exec_form_def op_covers_names)

lemma literal_targets: "op \<noteq> ''file-read-metadata'' \<Longrightarrow> rule_targets env op (literal_form d) = []"
  by (simp add: rule_targets_def rule_args_def literal_form_def op_covers_names)

lemma grant_targets:
  assumes "env (grant_key g n) = Some src"
  shows "rule_targets env ''file-read-data'' (grant_form g n) = (if g = GMetadata then [] else [Below src])"
    and "strings_HasPrefix op ''file-write'' \<Longrightarrow>
      rule_targets env op (grant_form g n) = (if g = GWrite then [Below src] else [])"
proof -
  show "rule_targets env ''file-read-data'' (grant_form g n) = (if g = GMetadata then [] else [Below src])"
    using assms by (cases g) (simp_all add: rule_targets_def rule_args_def op_covers_names target_of_def)
  assume w: "strings_HasPrefix op ''file-write''"
  then have "\<not> strings_HasPrefix op ''file-read''" "op \<noteq> ''file-read*''" "op \<noteq> ''file-read-metadata''"
    by (auto simp: HasPrefix_iff)
  with w show "rule_targets env op (grant_form g n) = (if g = GWrite then [Below src] else [])"
    using assms by (cases g) (simp_all add: rule_targets_def rule_args_def op_covers_names target_of_def)
qed

lemma granted_non_exec: "op \<noteq> ''file-map-executable'' \<Longrightarrow> granted env op (non_exec fs) = granted env op fs"
  by (induction fs) (auto simp: granted_def non_exec_def exec_targets)

lemma granted_literals: "op \<noteq> ''file-read-metadata'' \<Longrightarrow> granted env op (map literal_form ds) = []"
  by (auto simp: granted_def literal_targets)

lemma denials_none:
  "\<forall>f \<in> set fs. (\<exists>d. f = exec_form d) \<or> (\<exists>g n. f = grant_form g n) \<or> (\<exists>d. f = literal_form d) \<Longrightarrow> denials fs = []"
proof -
  have "rule_args ''deny'' (grant_form g n) = None" for g n by (cases g) (simp_all add: rule_args_def)
  moreover have "rule_args ''deny'' (exec_form d) = None" "rule_args ''deny'' (literal_form d) = None" for d
    by (simp_all add: rule_args_def exec_form_def literal_form_def)
  ultimately show "\<forall>f \<in> set fs. (\<exists>d. f = exec_form d) \<or> (\<exists>g n. f = grant_form g n) \<or> (\<exists>d. f = literal_form d) \<Longrightarrow>
      denials fs = []"
    by (force simp: denials_def List.map_filter_def filter_empty_conv)
qed

lemma granted_grants:
  assumes "\<And>g n src. (g, n, src) \<in> set gs \<Longrightarrow> env (grant_key g n) = Some src"
  shows "set (granted env ''file-read-data'' (grant_forms gs)) = {Below src | g n src. (g, n, src) \<in> set gs \<and> g \<noteq> GMetadata}"
    and "strings_HasPrefix op ''file-write'' \<Longrightarrow>
      set (granted env op (grant_forms gs)) = {Below src | n src. (GWrite, n, src) \<in> set gs}"
proof -
  have s: "set (granted env op (grant_forms gs)) = (\<Union>(g, n, src) \<in> set gs. set (rule_targets env op (grant_form g n)))" for op
    by (auto simp: granted_def grant_forms_def)
  have "set (rule_targets env ''file-read-data'' (grant_form g n)) = (if g = GMetadata then {} else {Below src})"
    if "(g, n, src) \<in> set gs" for g n src
    using grant_targets(1) [of env, OF assms [OF that]] by simp
  then have "set (granted env ''file-read-data'' (grant_forms gs)) = (\<Union>(g, n, src) \<in> set gs. if g = GMetadata then {} else {Below src})"
    unfolding s by (intro SUP_cong) auto
  then show "set (granted env ''file-read-data'' (grant_forms gs)) = {Below src | g n src. (g, n, src) \<in> set gs \<and> g \<noteq> GMetadata}"
    by (force split: if_splits)
  assume w: "strings_HasPrefix op ''file-write''"
  have "set (rule_targets env op (grant_form g n)) = (if g = GWrite then {Below src} else {})"
    if "(g, n, src) \<in> set gs" for g n src
    using grant_targets(2) [of env, OF assms [OF that] w] by simp
  then have "set (granted env op (grant_forms gs)) = (\<Union>(g, n, src) \<in> set gs. if g = GWrite then {Below src} else {})"
    unfolding s by (intro SUP_cong) auto
  then show "set (granted env op (grant_forms gs)) = {Below src | n src. (GWrite, n, src) \<in> set gs}"
    by (force split: if_splits)
qed

end
