(* ===== verification/Templates.thy ===== *)
theory Templates
  imports Sbpl
begin

text \<open>
  The three templates that \<open>sandbox/policy.go\<close> embeds, \<open>seatbelt_base.sbpl\<close>,
  \<open>seatbelt_platform.sbpl\<close> and \<open>seatbelt_network.sbpl\<close>, line by line (in parts, between forms),
  and what they grant as the reader of \<open>Sbpl\<close> reads them: the default is to deny, and files can be
  read and written exactly at the paths listed here. With the rules of \<open>buildPolicy\<close> this gives
  all that a policy grants.
\<close>

section \<open>The embedded files\<close>

text \<open>The UTF-8 bytes of a dash, which two comments contain.\<close>

definition long_dash :: string where
  "long_dash = [CHR 0xE2, CHR 0x80, CHR 0x94]"

definition base_part1 :: "string list" where
  "base_part1 =
    [''; Inspired by Codex CLI's sandbox policy (based on Chrome's macOS sandbox).'',
     ''; https://source.chromium.org/chromium/chromium/src/+/main:sandbox/policy/mac/common.sb'',
     ''(version 1)'',
     ''(deny default)'',
     [],
     ''; Child processes inherit the policy of their parent.'',
     ''(allow process-exec)'',
     ''(allow process-fork)'',
     ''(allow signal (target same-sandbox))'',
     [],
     ''; Process info for self and sandbox children.'',
     ''(allow process-info* (target same-sandbox))'',
     [],
     ''; Sysctls permitted.'',
     ''(allow sysctl-read'',
     ''  (sysctl-name-prefix \"hw.\")'',
     ''  (sysctl-name-prefix \"kern.proc.pid.\")'',
     ''  (sysctl-name-prefix \"kern.proc.pgrp.\")'',
     ''  (sysctl-name \"kern.argmax\")'',
     ''  (sysctl-name \"kern.hostname\")'',
     ''  (sysctl-name \"kern.maxfilesperproc\")'',
     ''  (sysctl-name \"kern.maxproc\")'',
     ''  (sysctl-name \"kern.osproductversion\")'',
     ''  (sysctl-name \"kern.osrelease\")'',
     ''  (sysctl-name \"kern.ostype\")'',
     ''  (sysctl-name \"kern.osvariant_status\")'',
     ''  (sysctl-name \"kern.osversion\")'',
     ''  (sysctl-name \"kern.version\")'',
     ''  (sysctl-name \"sysctl.proc_cputype\")'',
     ''  (sysctl-name \"vm.loadavg\")'',
     ''  (sysctl-name \"vm.pagesize\"))'']"

definition base_part2 :: "string list" where
  "base_part2 =
    [[],
     ''; IOKit access for root domain services.'',
     ''(allow iokit-open'',
     ''  (iokit-registry-entry-class \"RootDomainUserClient\"))'',
     [],
     ''; macOS Standard library queries opendirectoryd at startup.'',
     ''(allow mach-lookup (global-name \"com.apple.system.opendirectoryd.libinfo\"))'',
     [],
     ''; Allow IPC to system services needed for normal operation.'',
     ''(allow mach-lookup'',
     ''  (global-name \"com.apple.analyticsd\")'',
     ''  (global-name \"com.apple.bsd.dirhelper\")'',
     ''  (global-name \"com.apple.cfprefsd.agent\")'',
     ''  (global-name \"com.apple.cfprefsd.daemon\")'',
     ''  (global-name \"com.apple.logd\")'',
     ''  (global-name \"com.apple.logd.events\")'',
     ''  (global-name \"com.apple.PowerManagement.control\")'',
     ''  (global-name \"com.apple.runningboard\")'',
     ''  (global-name \"com.apple.secinitd\")'',
     ''  (global-name \"com.apple.system.DirectoryService.libinfo_v1\")'',
     ''  (global-name \"com.apple.system.logger\")'',
     ''  (global-name \"com.apple.system.notification_center\")'',
     ''  (global-name \"com.apple.system.opendirectoryd.membership\")'',
     ''  (global-name \"com.apple.trustd\")'',
     ''  (global-name \"com.apple.trustd.agent\")'',
     ''  (local-name \"com.apple.cfprefsd.agent\"))'']"

definition base_part3 :: "string list" where
  "base_part3 =
    [[],
     ''; Allow IPC to the syslog socket for logging.'',
     ''(allow network-outbound (literal \"/private/var/run/syslog\"))'',
     [],
     ''; Allow guarded vnodes (needed by dyld).'',
     ''(allow system-mac-syscall (mac-policy-name \"vnguard\"))'',
     [],
     ''; Allow sandbox introspection (needed for dyld to detect sandbox state).'',
     ''(allow system-mac-syscall'',
     ''  (require-all'',
     ''    (mac-policy-name \"Sandbox\")'',
     ''    (mac-syscall-number 67)))'',
     [],
     ''; Allow FSIOC_CAS_BSDFLAGS as alternate chflags.'',
     ''(allow system-fsctl (fsctl-command FSIOC_CAS_BSDFLAGS))'',
     [],
     ''; Needed for Python multiprocessing SemLock.'',
     ''(allow ipc-posix-sem)'',
     [],
     ''; Allow openpty().'',
     ''(allow pseudo-tty)'',
     ''(allow file-read* file-write* file-ioctl (literal \"/dev/ptmx\"))'',
     ''(allow file-read* file-write*'',
     ''  (require-all'',
     ''    (regex #\"^/dev/ttys[0-9]+\")'',
     ''    (extension \"com.apple.sandbox.pty\")))'']"

definition base_part4 :: "string list" where
  "base_part4 =
    [''; PTYs created before entering sandbox may lack the extension.'',
     ''(allow file-ioctl (regex #\"^/dev/ttys[0-9]+\"))'',
     [],
     ''; Standard special files.'',
     ''(allow file-read* file-test-existence'',
     ''  (literal \"/dev/autofs_nowait\")'',
     ''  (literal \"/dev/random\")'',
     ''  (literal \"/dev/urandom\")'',
     ''  (literal \"/private/etc/master.passwd\")'',
     ''  (literal \"/private/etc/passwd\")'',
     ''  (literal \"/private/etc/protocols\")'',
     ''  (literal \"/private/etc/services\"))'',
     [],
     ''; Null/zero read/write.'',
     ''(allow file-read* file-test-existence file-write-data'',
     ''  (literal \"/dev/null\")'',
     ''  (literal \"/dev/zero\"))'',
     [],
     ''; File descriptor access.'',
     ''(allow file-read-data file-test-existence file-write-data'',
     ''  (subpath \"/dev/fd\"))'',
     [],
     ''; dtrace helper.'',
     ''(allow file-read* file-test-existence file-write-data file-ioctl'',
     ''  (literal \"/dev/dtracehelper\"))'']"

definition base_part5 :: "string list" where
  "base_part5 =
    [[],
     ''; Allow processes to get their current working directory.'',
     ''(allow file-read* file-test-existence'',
     ''  (literal \"/\"))'',
     [],
     ''; Allow resolution of standard system symlinks.'',
     ''(allow file-read-metadata file-test-existence'',
     ''  (literal \"/etc\")'',
     ''  (literal \"/tmp\")'',
     ''  (literal \"/var\")'',
     ''  (literal \"/private/etc/localtime\"))'',
     [],
     ''; Allow stat'ing of firmlink parent path components.'',
     ''(allow file-read-metadata file-test-existence'',
     ''  (path-ancestors \"/System/Volumes/Data/private\"))'',
     [],
     ''; Some processes read /var metadata during startup.'',
     ''(allow file-read-metadata'',
     ''  (subpath \"/var\")'',
     ''  (subpath \"/private/var\"))'']"

definition seatbeltBase :: string where
  "seatbeltBase = unlines (base_part1 @ base_part2 @ base_part3 @ base_part4 @ base_part5)"

definition platform_part1 :: "string list" where
  "platform_part1 =
    [''; Read access to standard system paths.'',
     ''(allow file-read* file-test-existence'',
     ''  (subpath \"/Library/Apple\")'',
     ''  (subpath \"/Library/Filesystems/NetFSPlugins\")'',
     ''  (subpath \"/Library/Preferences/Logging\")'',
     ''  (subpath \"/private/var/db/DarwinDirectory/local/recordStore.data\")'',
     ''  (subpath \"/private/var/db/timezone\")'',
     ''  ; Allow reading SystemVersion.plist so xcselect stubs (git, clang, etc.)'',
     ''  ; can determine the host OS version for SDK resolution.'',
     ''  (literal \"/System/Library/CoreServices/SystemVersion.plist\")'',
     ''  (subpath \"/usr/lib\")'',
     ''  (subpath \"/usr/share\")'',
     ''  (subpath \"/Library/Preferences\")'',
     ''  (subpath \"/var/db\")'',
     ''  (subpath \"/private/var/db\"))'',
     [],
     ''; Map system frameworks and dylibs for the loader.'',
     ''(allow file-map-executable'',
     ''  (subpath \"/Library/Apple/System/Library/Frameworks\")'',
     ''  (subpath \"/Library/Apple/System/Library/PrivateFrameworks\")'',
     ''  (subpath \"/Library/Apple/usr/lib\")'',
     ''  (subpath \"/System/Library/Extensions\")'',
     ''  (subpath \"/System/Library/Frameworks\")'',
     ''  (subpath \"/System/Library/PrivateFrameworks\")'',
     ''  (subpath \"/System/Library/SubFrameworks\")'',
     ''  (subpath \"/System/iOSSupport/System/Library/Frameworks\")'',
     ''  (subpath \"/System/iOSSupport/System/Library/PrivateFrameworks\")'',
     ''  (subpath \"/System/iOSSupport/System/Library/SubFrameworks\")'',
     ''  (subpath \"/usr/lib\"))'']"

definition platform_part2 :: "string list" where
  "platform_part2 =
    [[],
     ''; Standard bin/usr/bin/usr/local/bin/etc access.'',
     ''(allow file-read*'',
     ''  (subpath \"/bin\")'',
     ''  (subpath \"/usr/bin\")'',
     ''  (subpath \"/usr/local\")'',
     ''  (subpath \"/etc\")'',
     ''  (subpath \"/private/etc\"))'',
     [],
     ''; /usr/local dylib loading (Intel Homebrew and user-installed tools).'',
     ''(allow file-map-executable'',
     ''  (subpath \"/usr/local/lib\")'',
     ''  (subpath \"/usr/local/Cellar\"))'',
     [],
     ''; /tmp read-write (HOME dir for sandboxed processes is created here).'',
     ''(allow file-read* file-test-existence file-write*'',
     ''  (subpath \"/tmp\")'',
     ''  (subpath \"/private/tmp\")'',
     ''  (subpath \"/var/tmp\")'',
     ''  (subpath \"/private/var/tmp\"))'',
     [],
     ''; Tool installation directories (Homebrew, GOPATH, Cargo, etc.) are'',
     ''; injected dynamically by buildPolicy() from the path registry in'',
     ''; paths.go. See docs/sandbox-security-model.md for rationale.'']"

definition seatbeltPlatform :: string where
  "seatbeltPlatform = unlines (platform_part1 @ platform_part2)"

definition network_part1 :: "string list" where
  "network_part1 =
    [''; Network access '' @ long_dash @ '' equivalent to bwrap's --share-net.'',
     ''(allow network-outbound)'',
     ''(allow network-inbound (local ip \"localhost:*\"))'',
     ''(allow network-bind (local ip \"localhost:*\"))'',
     [],
     ''; TLS mach services required for HTTPS.'',
     ''(allow mach-lookup'',
     ''  (global-name \"com.apple.SecurityServer\")'',
     ''  (global-name \"com.apple.networkd\")'',
     ''  (global-name \"com.apple.dnssd.service\")'',
     ''  (global-name \"com.apple.ocspd\")'',
     ''  (global-name \"com.apple.SystemConfiguration.configd\")'',
     ''  (global-name \"com.apple.SystemConfiguration.NetworkInformation\"))'',
     [],
     ''; TLS certificate cache '' @ long_dash @ '' scoped to com.apple.trustd only.'',
     ''; The full DARWIN_USER_CACHE_DIR subpath was too broad (covered browser caches, Xcode, etc.).'',
     ''(allow file-read* file-write*'',
     ''  (subpath (string-append (param \"DARWIN_USER_CACHE_DIR\") \"/com.apple.trustd\")))'']"

definition network_part2 :: "string list" where
  "network_part2 =
    [[],
     ''; DNS via mDNSResponder.'',
     ''(allow network-outbound'',
     ''  (remote unix-socket (path \"/var/run/mDNSResponder\")))'']"

definition seatbeltNetwork :: string where
  "seatbeltNetwork = unlines (network_part1 @ network_part2)"

section \<open>What the parts grant\<close>

text \<open>The names of operations that the templates use.\<close>

definition template_ops :: "string list" where
  "template_ops = [''process-exec'', ''process-fork'', ''signal'', ''process-info*'', ''sysctl-read'', ''iokit-open'',
     ''system-mac-syscall'', ''system-fsctl'', ''ipc-posix-sem'', ''pseudo-tty'', ''file-read-data'',
     ''file-write-data'', ''file-ioctl'', ''file-read-metadata'', ''file-map-executable'', ''file-test-existence'',
     ''network-inbound'', ''network-bind'', ''mach-lookup'', ''file-read*'', ''file-write*'', ''network-outbound'']"

record summary =
  sm_denials :: "form list list"
  sm_known :: bool
  sm_reads :: "target list"
  sm_writes :: "target list"
  sm_creates :: "target list"

definition summarize :: "(string \<Rightarrow> string option) \<Rightarrow> form list \<Rightarrow> summary" where
  "summarize env fs = \<lparr>sm_denials = denials fs, sm_known = list_all (List.member template_ops) (ops_named fs),
     sm_reads = granted env ''file-read-data'' fs, sm_writes = granted env ''file-write-data'' fs,
     sm_creates = granted env ''file-write-create'' fs\<rparr>"

text \<open>The terminal of the caller: a pattern of names that also needs an extension of the kernel.\<close>

definition terminal_filter :: target where
  "terminal_filter = OtherFilter (Frm [Sym ''require-all'', Frm [Sym ''regex'', Rgx ''^/dev/ttys[0-9]+''],
     Frm [Sym ''extension'', Txt ''com.apple.sandbox.pty'']])"

lemma base_summary:
  "map_option (summarize env) (line_forms base_part1) = Some \<lparr>sm_denials = [[Sym ''default'']], sm_known = True,
     sm_reads = [], sm_writes = [], sm_creates = []\<rparr>"
  "map_option (summarize env) (line_forms base_part2) = Some \<lparr>sm_denials = [], sm_known = True,
     sm_reads = [], sm_writes = [], sm_creates = []\<rparr>"
  "map_option (summarize env) (line_forms base_part3) = Some \<lparr>sm_denials = [], sm_known = True,
     sm_reads = [At ''/dev/ptmx'', terminal_filter], sm_writes = [At ''/dev/ptmx'', terminal_filter],
     sm_creates = [At ''/dev/ptmx'', terminal_filter]\<rparr>"
  "map_option (summarize env) (line_forms base_part4) = Some \<lparr>sm_denials = [], sm_known = True,
     sm_reads = [At ''/dev/autofs_nowait'', At ''/dev/random'', At ''/dev/urandom'',
       At ''/private/etc/master.passwd'', At ''/private/etc/passwd'', At ''/private/etc/protocols'',
       At ''/private/etc/services'', At ''/dev/null'', At ''/dev/zero'', Below ''/dev/fd'', At ''/dev/dtracehelper''],
     sm_writes = [At ''/dev/null'', At ''/dev/zero'', Below ''/dev/fd'', At ''/dev/dtracehelper''], sm_creates = []\<rparr>"
  "map_option (summarize env) (line_forms base_part5) = Some \<lparr>sm_denials = [], sm_known = True,
     sm_reads = [At ''/''], sm_writes = [], sm_creates = []\<rparr>"
  by code_simp+

lemma platform_summary:
  "map_option (summarize env) (line_forms platform_part1) = Some \<lparr>sm_denials = [], sm_known = True,
     sm_reads = [Below ''/Library/Apple'', Below ''/Library/Filesystems/NetFSPlugins'',
       Below ''/Library/Preferences/Logging'', Below ''/private/var/db/DarwinDirectory/local/recordStore.data'',
       Below ''/private/var/db/timezone'', At ''/System/Library/CoreServices/SystemVersion.plist'',
       Below ''/usr/lib'', Below ''/usr/share'', Below ''/Library/Preferences'', Below ''/var/db'', Below ''/private/var/db''],
     sm_writes = [], sm_creates = []\<rparr>"
  "map_option (summarize env) (line_forms platform_part2) = Some \<lparr>sm_denials = [], sm_known = True,
     sm_reads = [Below ''/bin'', Below ''/usr/bin'', Below ''/usr/local'', Below ''/etc'', Below ''/private/etc'',
       Below ''/tmp'', Below ''/private/tmp'', Below ''/var/tmp'', Below ''/private/var/tmp''],
     sm_writes = [Below ''/tmp'', Below ''/private/tmp'', Below ''/var/tmp'', Below ''/private/var/tmp''],
     sm_creates = [Below ''/tmp'', Below ''/private/tmp'', Below ''/var/tmp'', Below ''/private/var/tmp'']\<rparr>"
  by code_simp+

lemma network_summary:
  "env ''DARWIN_USER_CACHE_DIR'' = Some cd \<Longrightarrow>
   map_option (summarize env) (line_forms network_part1) = Some \<lparr>sm_denials = [], sm_known = True,
     sm_reads = [Below (cd @ ''/com.apple.trustd'')], sm_writes = [Below (cd @ ''/com.apple.trustd'')],
     sm_creates = [Below (cd @ ''/com.apple.trustd'')]\<rparr>"
proof -
  have "line_forms network_part1 = Some
     [Frm [Sym ''allow'', Sym ''network-outbound''],
      Frm [Sym ''allow'', Sym ''network-inbound'', Frm [Sym ''local'', Sym ''ip'', Txt ''localhost:*'']],
      Frm [Sym ''allow'', Sym ''network-bind'', Frm [Sym ''local'', Sym ''ip'', Txt ''localhost:*'']],
      Frm [Sym ''allow'', Sym ''mach-lookup'',
        Frm [Sym ''global-name'', Txt ''com.apple.SecurityServer''], Frm [Sym ''global-name'', Txt ''com.apple.networkd''],
        Frm [Sym ''global-name'', Txt ''com.apple.dnssd.service''], Frm [Sym ''global-name'', Txt ''com.apple.ocspd''],
        Frm [Sym ''global-name'', Txt ''com.apple.SystemConfiguration.configd''],
        Frm [Sym ''global-name'', Txt ''com.apple.SystemConfiguration.NetworkInformation'']],
      Frm [Sym ''allow'', Sym ''file-read*'', Sym ''file-write*'', Frm [Sym ''subpath'',
        Frm [Sym ''string-append'', Frm [Sym ''param'', Txt ''DARWIN_USER_CACHE_DIR''], Txt ''/com.apple.trustd'']]]]"
    by code_simp
  then show "env ''DARWIN_USER_CACHE_DIR'' = Some cd \<Longrightarrow>
    map_option (summarize env) (line_forms network_part1) = Some \<lparr>sm_denials = [], sm_known = True,
     sm_reads = [Below (cd @ ''/com.apple.trustd'')], sm_writes = [Below (cd @ ''/com.apple.trustd'')],
     sm_creates = [Below (cd @ ''/com.apple.trustd'')]\<rparr>"
    by (simp add: summarize_def denials_def ops_named_def granted_def rule_targets_def rule_args_def target_of_def
        op_covers_def template_ops_def List.map_filter_def)
qed

lemma network_summary_2:
  "map_option (summarize env) (line_forms network_part2) = Some \<lparr>sm_denials = [], sm_known = True,
     sm_reads = [], sm_writes = [], sm_creates = []\<rparr>"
  by code_simp

section \<open>What the templates grant\<close>

text \<open>All that the templates let a command read, create or change, and write data to.\<close>

definition template_reads :: "string \<Rightarrow> target list" where
  "template_reads cd =
     [At ''/dev/ptmx'', terminal_filter, At ''/dev/autofs_nowait'', At ''/dev/random'', At ''/dev/urandom'',
      At ''/private/etc/master.passwd'', At ''/private/etc/passwd'', At ''/private/etc/protocols'',
      At ''/private/etc/services'', At ''/dev/null'', At ''/dev/zero'', Below ''/dev/fd'', At ''/dev/dtracehelper'', At ''/'',
      Below ''/Library/Apple'', Below ''/Library/Filesystems/NetFSPlugins'', Below ''/Library/Preferences/Logging'',
      Below ''/private/var/db/DarwinDirectory/local/recordStore.data'', Below ''/private/var/db/timezone'',
      At ''/System/Library/CoreServices/SystemVersion.plist'', Below ''/usr/lib'', Below ''/usr/share'',
      Below ''/Library/Preferences'', Below ''/var/db'', Below ''/private/var/db'',
      Below ''/bin'', Below ''/usr/bin'', Below ''/usr/local'', Below ''/etc'', Below ''/private/etc'',
      Below ''/tmp'', Below ''/private/tmp'', Below ''/var/tmp'', Below ''/private/var/tmp'',
      Below (cd @ ''/com.apple.trustd'')]"

definition template_changes :: "string \<Rightarrow> target list" where
  "template_changes cd =
     [At ''/dev/ptmx'', terminal_filter, Below ''/tmp'', Below ''/private/tmp'', Below ''/var/tmp'', Below ''/private/var/tmp'',
      Below (cd @ ''/com.apple.trustd'')]"

definition template_writes :: "string \<Rightarrow> target list" where
  "template_writes cd =
     [At ''/dev/ptmx'', terminal_filter, At ''/dev/null'', At ''/dev/zero'', Below ''/dev/fd'', At ''/dev/dtracehelper'',
      Below ''/tmp'', Below ''/private/tmp'', Below ''/var/tmp'', Below ''/private/var/tmp'',
      Below (cd @ ''/com.apple.trustd'')]"

lemma templates_read:
  assumes "env ''DARWIN_USER_CACHE_DIR'' = Some cd"
  shows "\<exists>fb fp fn. sbpl_forms seatbeltBase = Some fb \<and> sbpl_forms seatbeltPlatform = Some fp
    \<and> sbpl_forms seatbeltNetwork = Some fn \<and> denials (fb @ fp @ fn) = [[Sym ''default'']]
    \<and> granted env ''file-read-data'' (fb @ fp @ fn) = template_reads cd
    \<and> granted env ''file-write-data'' (fb @ fp @ fn) = template_writes cd
    \<and> granted env ''file-write-create'' (fb @ fp @ fn) = template_changes cd
    \<and> set (ops_named (fb @ fp @ fn)) \<subseteq> set template_ops"
proof -
  obtain f1 f2 f3 f4 f5 p1 p2 n1 n2 where f:
    "line_forms base_part1 = Some f1" "line_forms base_part2 = Some f2" "line_forms base_part3 = Some f3"
    "line_forms base_part4 = Some f4" "line_forms base_part5 = Some f5"
    "line_forms platform_part1 = Some p1" "line_forms platform_part2 = Some p2"
    "line_forms network_part1 = Some n1" "line_forms network_part2 = Some n2"
    using base_summary [of env] platform_summary [of env] network_summary [of env, OF assms] network_summary_2 [of env] by blast
  note sums = base_summary [of env, unfolded f] platform_summary [of env, unfolded f]
    network_summary [of env, OF assms, unfolded f] network_summary_2 [of env, unfolded f]
  have "sbpl_forms seatbeltBase = Some (f1 @ f2 @ f3 @ f4 @ f5)"
    unfolding seatbeltBase_def by (intro line_forms line_forms_append f)
  moreover have "sbpl_forms seatbeltPlatform = Some (p1 @ p2)"
    unfolding seatbeltPlatform_def by (intro line_forms line_forms_append f)
  moreover have "sbpl_forms seatbeltNetwork = Some (n1 @ n2)"
    unfolding seatbeltNetwork_def by (intro line_forms line_forms_append f)
  moreover note eqs = sums [unfolded summarize_def option.map(2) option.inject summary.ext_inject]
  have "denials (f1 @ f2 @ f3 @ f4 @ f5 @ p1 @ p2 @ n1 @ n2) = [[Sym ''default'']]"
    "granted env ''file-read-data'' (f1 @ f2 @ f3 @ f4 @ f5 @ p1 @ p2 @ n1 @ n2) = template_reads cd"
    "granted env ''file-write-data'' (f1 @ f2 @ f3 @ f4 @ f5 @ p1 @ p2 @ n1 @ n2) = template_writes cd"
    "granted env ''file-write-create'' (f1 @ f2 @ f3 @ f4 @ f5 @ p1 @ p2 @ n1 @ n2) = template_changes cd"
    by (simp_all only: eqs granted_append denials_append append.simps template_reads_def template_changes_def
        template_writes_def)
  moreover have "list_all (List.member template_ops) (ops_named (f1 @ f2 @ f3 @ f4 @ f5 @ p1 @ p2 @ n1 @ n2))"
    by (simp only: eqs ops_named_append list_all_append simp_thms)
  then have "set (ops_named (f1 @ f2 @ f3 @ f4 @ f5 @ p1 @ p2 @ n1 @ n2)) \<subseteq> set template_ops"
    by (auto simp: list_all_iff)
  ultimately show ?thesis by (metis append_assoc)
qed

text \<open>Every operation that writes, but \<open>file-write-data\<close>, is granted the same by the templates.\<close>

lemma template_ops_write:
  assumes "strings_HasPrefix op ''file-write''" "op \<noteq> ''file-write-data''" "n \<in> set template_ops"
  shows "op_covers n op \<longleftrightarrow> op_covers n ''file-write-create''"
proof -
  obtain s where s: "op = ''file-write'' @ s" using assms(1) by (auto simp: HasPrefix_iff)
  then have "s \<noteq> ''-data''" using assms(2) by simp
  then have "list_all (\<lambda>n. op_covers n op \<longleftrightarrow> op_covers n ''file-write-create'') template_ops"
    unfolding s template_ops_def by (simp add: op_covers_def)
  with assms(3) show ?thesis by (simp only: list_all_iff)
qed

section \<open>What a policy grants\<close>

text \<open>\<open>sandbox-exec\<close>: a policy after \<open>-p\<close>, parameters after \<open>-D\<close>, the command after \<open>--\<close>.\<close>

fun sandbox_exec_args :: "string list \<Rightarrow> (string list \<times> (string \<times> string) list \<times> string list) option" where
  "sandbox_exec_args (a # v # rest) =
     (if a = ''--'' then Some ([], [], v # rest)
      else if a = ''-p'' then map_option (\<lambda>(ps, ds, com). (v # ps, ds, com)) (sandbox_exec_args rest)
      else if a = ''-D'' then map_option (\<lambda>(ps, ds, com). (ps, param_assignments [a, v] @ ds, com)) (sandbox_exec_args rest)
      else None)"
| "sandbox_exec_args _ = None"

lemma sandbox_exec_params:
  "sandbox_exec_args (concat (map (\<lambda>kv. [''-D'', kv]) kvs) @ [''--'', x] @ com) =
     Some ([], param_assignments (concat (map (\<lambda>kv. [''-D'', kv]) kvs)), x # com)"
  by (induction kvs) simp_all

lemma policy_params_pairs: "\<exists>kvs. policy_params tds ms cd = concat (map (\<lambda>kv. [''-D'', kv]) kvs)"
proof -
  have "concat (map grant_param gs) = concat (map (\<lambda>kv. [''-D'', kv])
      (map (\<lambda>gns. grant_key (fst gns) (fst (snd gns)) @ ''='' @ snd (snd gns)) gs))" for gs
    by (induction gs) (simp_all add: grant_param_def)
  from this [of "policy_grants tds ms"] show ?thesis
    unfolding policy_params_def
    by (intro exI [of _ "map (\<lambda>gns. grant_key (fst gns) (fst (snd gns)) @ ''='' @ snd (snd gns)) (policy_grants tds ms)
      @ [''DARWIN_USER_CACHE_DIR='' @ cd]"]) (simp only: map_append concat_append list.map concat.simps append_Nil2)
qed

lemma policy_args_read:
  assumes "ps = policy_params tds ms cd"
  shows "sandbox_exec_args ([''-p'', t] @ ps @ [''--'', x] @ com) = Some ([t], param_assignments ps, x # com)"
proof -
  obtain kvs where "ps = concat (map (\<lambda>kv. [''-D'', kv]) kvs)" using policy_params_pairs assms by blast
  then show ?thesis using sandbox_exec_params [of kvs x com] by simp
qed

text \<open>The parameters give every grant its path, and the cache directory.\<close>

lemma policy_params_lookup:
  shows "(g, n, src) \<in> set (policy_grants tds ms) \<Longrightarrow>
      map_of (param_assignments (policy_params tds ms cd)) (grant_key g n) = Some src"
    and "map_of (param_assignments (policy_params tds ms cd)) ''DARWIN_USER_CACHE_DIR'' = Some cd"
proof -
  note d = policy_keys_distinct [of tds ms cd]
  show "(g, n, src) \<in> set (policy_grants tds ms) \<Longrightarrow>
      map_of (param_assignments (policy_params tds ms cd)) (grant_key g n) = Some src"
    by (rule map_of_is_SomeI [OF d]) (force simp: param_assignments_policy)
  show "map_of (param_assignments (policy_params tds ms cd)) ''DARWIN_USER_CACHE_DIR'' = Some cd"
    by (rule map_of_is_SomeI [OF d]) (simp add: param_assignments_policy)
qed

lemma number_grants_pairs: "map (\<lambda>(g, n, src). (g, src)) (number_grants gs c) = gs"
  by (induction gs c rule: number_grants.induct) (auto simp: fun_upd_def)

lemma policy_grants_iff:
  "(\<exists>n. (g, n, src) \<in> set (policy_grants tds ms)) \<longleftrightarrow>
   (\<exists>m \<in> set ms. mount_grant m = (g, src)) \<or> g = GRead \<and> src \<in> set (tool_reads tds {})"
proof -
  let ?gs = "map mount_grant ms @ map (Pair GRead) (tool_reads tds {})"
  have "(\<exists>n. (g, n, src) \<in> set (policy_grants tds ms)) \<longleftrightarrow>
      (g, src) \<in> set (map (\<lambda>(g, n, src). (g, src)) (number_grants ?gs (\<lambda>_. 0)))"
    by (force simp: policy_grants_def)
  then show ?thesis unfolding number_grants_pairs by (auto simp: image_iff dest: sym)
qed

lemma policy_read_grants:
  "{Below src | g n src. (g, n, src) \<in> set (policy_grants tds ms) \<and> g \<noteq> GMetadata} =
     Below ` (Source ` {m \<in> set ms. \<not> MetadataOnly m} \<union> set (tool_reads tds {}))"
proof -
  have "{Below src | g n src. (g, n, src) \<in> set (policy_grants tds ms) \<and> g \<noteq> GMetadata} =
      Below ` {src. \<exists>g. g \<noteq> GMetadata \<and> (\<exists>n. (g, n, src) \<in> set (policy_grants tds ms))}" by blast
  also have "\<dots> = Below ` (Source ` {m \<in> set ms. \<not> MetadataOnly m} \<union> set (tool_reads tds {}))"
    unfolding policy_grants_iff by (rule arg_cong [where f = "(`) Below"]) (auto simp: mount_grant_def split: if_splits)
  finally show ?thesis .
qed

lemma policy_write_grants:
  "{Below src | n src. (GWrite, n, src) \<in> set (policy_grants tds ms)} =
     Below ` Source ` {m \<in> set ms. \<not> MetadataOnly m \<and> \<not> ReadOnly m}"
proof -
  have "{Below src | n src. (GWrite, n, src) \<in> set (policy_grants tds ms)} =
      Below ` {src. \<exists>n. (GWrite, n, src) \<in> set (policy_grants tds ms)}" by blast
  also have "\<dots> = Below ` Source ` {m \<in> set ms. \<not> MetadataOnly m \<and> \<not> ReadOnly m}"
    unfolding policy_grants_iff by (rule arg_cong [where f = "(`) Below"]) (auto simp: mount_grant_def split: if_splits)
  finally show ?thesis .
qed

lemma write_op_names:
  "strings_HasPrefix op ''file-write'' \<Longrightarrow> op \<noteq> ''file-map-executable'' \<and> op \<noteq> ''file-read-metadata''"
  by (auto simp: HasPrefix_iff)

text \<open>
  The policy of a command and its parameters, as \<open>sandbox-exec\<close> reads them: everything is denied
  but what is allowed, files may be read exactly where the templates say, in the mounts and in the
  tool directories, and written exactly where the templates say and in the writable mounts.
\<close>

lemma policy_read:
  assumes "buildPolicy h tds seatbeltBase seatbeltPlatform seatbeltNetwork cacheDir (Some c) = Inr (t, ps)"
    and "\<forall>td \<in> set tds. \<forall>d \<in> set (ExecDirs td). plain_quoted d"
  shows "\<exists>cd fs. cacheDir = Some cd \<and> ps = policy_params tds (MountDirs c) cd \<and> sbpl_forms t = Some fs
    \<and> denials fs = [[Sym ''default'']]
    \<and> set (granted (map_of (param_assignments ps)) ''file-read-data'' fs) = set (template_reads cd)
        \<union> Below ` (Source ` {m \<in> set (MountDirs c). \<not> MetadataOnly m} \<union> set (tool_reads tds {}))
    \<and> (\<forall>op. strings_HasPrefix op ''file-write'' \<longrightarrow>
        set (granted (map_of (param_assignments ps)) op fs) =
          set (if op = ''file-write-data'' then template_writes cd else template_changes cd)
          \<union> Below ` Source ` {m \<in> set (MountDirs c). \<not> MetadataOnly m \<and> \<not> ReadOnly m})"
proof -
  obtain cd where cd: "cacheDir = Some cd" "ps = policy_params tds (MountDirs c) cd"
    using buildPolicy_params [OF assms(1)] by blast
  define env where "env = map_of (param_assignments ps)"
  have env: "\<And>g n src. (g, n, src) \<in> set (policy_grants tds (MountDirs c)) \<Longrightarrow> env (grant_key g n) = Some src"
    "env ''DARWIN_USER_CACHE_DIR'' = Some cd"
    using policy_params_lookup cd(2) by (simp_all only: env_def)
  obtain fb fp fn where T: "sbpl_forms seatbeltBase = Some fb" "sbpl_forms seatbeltPlatform = Some fp"
    "sbpl_forms seatbeltNetwork = Some fn" "denials (fb @ fp @ fn) = [[Sym ''default'']]"
    "granted env ''file-read-data'' (fb @ fp @ fn) = template_reads cd"
    "granted env ''file-write-data'' (fb @ fp @ fn) = template_writes cd"
    "granted env ''file-write-create'' (fb @ fp @ fn) = template_changes cd"
    "set (ops_named (fb @ fp @ fn)) \<subseteq> set template_ops"
    using templates_read [of env, OF env(2)] by blast
  obtain xs where xs: "sbpl_forms t = Some ((fb @ fp @ fn) @ xs @ map literal_form (seatbeltMetadataDirs h))"
    "non_exec xs = grant_forms (policy_grants tds (MountDirs c))"
    "\<forall>f \<in> set xs. (\<exists>d. f = exec_form d) \<or> (\<exists>g n. f = grant_form g n)"
    using buildPolicy_forms [OF assms(1) T(1-3) assms(2)] by auto
  let ?fs = "(fb @ fp @ fn) @ xs @ map literal_form (seatbeltMetadataDirs h)"
  have rules: "granted env op ?fs = granted env op (fb @ fp @ fn) @ granted env op (grant_forms (policy_grants tds (MountDirs c)))"
    if "op \<noteq> ''file-map-executable''" "op \<noteq> ''file-read-metadata''" for op
    using xs(2) granted_non_exec [OF that(1), of env xs] granted_literals [OF that(2), of env "seatbeltMetadataDirs h"]
    by (simp only: granted_append append_Nil2)
  have d: "denials ?fs = [[Sym ''default'']]"
  proof -
    have "denials (xs @ map literal_form (seatbeltMetadataDirs h)) = []" by (rule denials_none) (use xs(3) in auto)
    with T(4) show ?thesis by (simp only: denials_append append_Nil2)
  qed
  have r: "set (granted env ''file-read-data'' ?fs) = set (template_reads cd)
      \<union> Below ` (Source ` {m \<in> set (MountDirs c). \<not> MetadataOnly m} \<union> set (tool_reads tds {}))"
  proof -
    have "''file-read-data'' \<noteq> ''file-map-executable''" "''file-read-data'' \<noteq> ''file-read-metadata''" by simp_all
    from rules [OF this] show ?thesis
      using granted_grants(1) [of "policy_grants tds (MountDirs c)" env, OF env(1)]
      by (simp only: T(5) set_append policy_read_grants)
  qed
  have w: "set (granted env op ?fs) = set (if op = ''file-write-data'' then template_writes cd else template_changes cd)
      \<union> Below ` Source ` {m \<in> set (MountDirs c). \<not> MetadataOnly m \<and> \<not> ReadOnly m}"
    if op: "strings_HasPrefix op ''file-write''" for op
  proof -
    have "granted env op (fb @ fp @ fn) = (if op = ''file-write-data'' then template_writes cd else template_changes cd)"
    proof (cases "op = ''file-write-data''")
      case False
      have "granted env op (fb @ fp @ fn) = granted env ''file-write-create'' (fb @ fp @ fn)"
        by (rule granted_cong) (use template_ops_write [OF op False] T(8) in blast)
      with T(7) False show ?thesis by simp
    qed (simp only: T(6) simp_thms if_True)
    with rules write_op_names [OF op] granted_grants(2) [of "policy_grants tds (MountDirs c)" env, OF env(1) op]
    show ?thesis by (simp only: set_append policy_write_grants simp_thms)
  qed
  from cd xs(1) d r w show ?thesis unfolding env_def by blast
qed

lemma discovered_exec_plain: "td \<in> set (discoverToolDirs h) \<Longrightarrow> d \<in> set (ExecDirs td) \<Longrightarrow> plain_quoted d"
  by (auto simp: discoverToolDirs_def staticToolDirs_def darwinToolDirs_def linuxToolDirs_def dynamicToolDirs_def
      add_bin_dir_def plain_quoted_def Let_def split: if_splits)

end
