(* ===== verification/Cgroup.thy ===== *)
theory Cgroup
  imports ToolPaths
begin

text \<open>
  Memory limits through cgroup v2: \<open>sandbox/cgroup.go\<close> and \<open>sandbox/cgroup_k8s.go\<close>. The
  kernel's cgroup file system is a parameter: what a read, a stat, a mkdir or a write yields
  is a function of the operations made so far, so that moving the process changes what
  \<open>/proc/self/cgroup\<close> shows afterwards. The code's own effects are recorded in order. The
  package variables (the two \<open>sync.Once\<close> results, \<open>execCgroupBase\<close>, \<open>cgroupReady\<close>) are an
  explicit state.
\<close>

section \<open>The cgroup file system as the code sees it\<close>

datatype os_result = Os_ok | Os_exist | Os_busy | Os_other

datatype cg_op = Op_Mkdir string os_result | Op_Write string string os_result

record cg_host =
  cg_stat :: "string \<Rightarrow> bool"
  cg_read :: "string \<Rightarrow> string option"
  cg_access :: "string \<Rightarrow> bool"
  cg_mkdir :: "string \<Rightarrow> os_result"
  cg_write :: "string \<Rightarrow> string \<Rightarrow> os_result"
  cg_pid :: nat
  cg_env :: "string \<Rightarrow> string"

type_synonym cg_world = "cg_op list \<Rightarrow> cg_host"

definition os_Mkdir :: "cg_world \<Rightarrow> string \<Rightarrow> cg_op list \<Rightarrow> os_result \<times> cg_op list" where
  "os_Mkdir W path t = (let r = cg_mkdir (W t) path in (r, t @ [Op_Mkdir path r]))"

definition os_WriteFile :: "cg_world \<Rightarrow> string \<Rightarrow> string \<Rightarrow> cg_op list \<Rightarrow> os_result \<times> cg_op list" where
  "os_WriteFile W path c t = (let r = cg_write (W t) path c in (r, t @ [Op_Write path c r]))"

text \<open>
  The first token of a \<open>bufio.Scanner\<close>: the text before the first newline, a trailing carriage
  return dropped. There is none in an empty file, nor where the line overfills the scanner's
  buffer of 64 KiB.
\<close>

definition scan_line :: "string \<Rightarrow> string option" where
  "scan_line s =
     (let l = takeWhile (\<lambda>c. c \<noteq> CHR 0x0A) s in
      if s = [] \<or> 65536 \<le> length l then None
      else if l \<noteq> [] \<and> last l = CHR 0x0D then Some (butlast l) else Some l)"

section \<open>Definitions\<close>

definition cgroupRoot :: string where "cgroupRoot = ''/sys/fs/cgroup''"
definition cgroupPrefix :: string where "cgroupPrefix = ''temenos-exec-''"

datatype cg_reason =
    ErrCgroupNotMounted | ErrCgroupNoDelegatedPath | ErrCgroupMemoryControllerOff | ErrCgroupNotWritable

datatype cg_error =
    RootNotMounted
  | CannotDiscoverSelf
  | MkdirFailed string
  | MigrateFailed string
  | EnableMemoryFailed string
  | NotInK8sPod
  | NotWritableHint
  | NotAvailable cg_reason
  | NotInitialized
  | IdFailed
  | CannotDiscoverBase
  | NotUnderRoot string
  | ManagerFailed

definition discoverDelegatedPathAt :: "cg_host \<Rightarrow> string \<Rightarrow> string \<Rightarrow> string option" where
  "discoverDelegatedPathAt H procFile root =
     (case cg_read H procFile of None \<Rightarrow> None
      | Some s \<Rightarrow> (case scan_line s of None \<Rightarrow> None
        | Some line \<Rightarrow>
            if \<not> strings_HasPrefix line ''0::'' then None
            else let path = strings_TrimPrefix line ''0::'' in
              if path = [] then None else Some (filepath_Join [root, path])))"

definition discoverDelegatedPath :: "cg_host \<Rightarrow> string \<Rightarrow> string option" where
  "discoverDelegatedPath H procFile = discoverDelegatedPathAt H procFile cgroupRoot"

text \<open>The retry loop: at most \<open>n\<close> attempts, a further one only after \<open>EBUSY\<close>.\<close>

fun enable_loop :: "cg_world \<Rightarrow> nat \<Rightarrow> string \<Rightarrow> cg_op list \<Rightarrow> bool \<times> cg_op list" where
  "enable_loop W 0 ctrl t = (False, t)"
| "enable_loop W (Suc n) ctrl t =
     (let (r, t') = os_WriteFile W ctrl ''+memory'' t in
      if r = Os_ok then (True, t') else if r \<noteq> Os_busy then (False, t')
      else enable_loop W n ctrl t')"

definition enableMemoryController :: "cg_world \<Rightarrow> string \<Rightarrow> cg_op list \<Rightarrow> bool \<times> cg_op list" where
  "enableMemoryController W path t = enable_loop W 2 (filepath_Join [path, ''cgroup.subtree_control'']) t"

text \<open>Returns the value it stores in \<open>execCgroupBase\<close>, or the error.\<close>

definition runInitLeafAt :: "cg_world \<Rightarrow> string \<Rightarrow> string \<Rightarrow> cg_op list \<Rightarrow> (cg_error + string) \<times> cg_op list" where
  "runInitLeafAt W root procFile t =
     (if \<not> cg_stat (W t) (filepath_Join [root, ''cgroup.controllers'']) then (Inl RootNotMounted, t)
      else case discoverDelegatedPathAt (W t) procFile root of None \<Rightarrow> (Inl CannotDiscoverSelf, t)
      | Some selfCgroup \<Rightarrow>
          if strings_HasSuffix selfCgroup ''/init'' \<or> selfCgroup = root @ ''/init''
          then (Inr (strings_TrimSuffix selfCgroup ''/init''), t)
          else
            let initDir = filepath_Join [selfCgroup, ''init''];
                (r, t1) = os_Mkdir W initDir t
            in if r \<noteq> Os_ok \<and> r \<noteq> Os_exist then (Inl (MkdirFailed initDir), t1)
               else
                 let procsFile = filepath_Join [initDir, ''cgroup.procs''];
                     (r, t2) = os_WriteFile W procsFile (fmt_d (cg_pid (W t1))) t1
                 in if r \<noteq> Os_ok then (Inl (MigrateFailed procsFile), t2)
                    else
                      let (ok, t3) = enableMemoryController W selfCgroup t2
                      in if \<not> ok
                         then (Inl (EnableMemoryFailed (filepath_Join [selfCgroup, ''cgroup.subtree_control''])), t3)
                         else (Inr selfCgroup, t3))"

definition hasController :: "cg_host \<Rightarrow> string \<Rightarrow> string \<Rightarrow> bool" where
  "hasController H path controller =
     (case cg_read H (filepath_Join [path, ''cgroup.controllers'']) of None \<Rightarrow> False
      | Some dat \<Rightarrow> strings_Contains dat controller)"

text \<open>The delegated path that it stores in \<open>discoveredPath\<close> comes with the result.\<close>

definition checkCgroupAvailableWith :: "cg_host \<Rightarrow> string \<Rightarrow> string \<Rightarrow> (cg_reason + unit) \<times> string option" where
  "checkCgroupAvailableWith H root procFile =
     (if \<not> cg_stat H (filepath_Join [root, ''cgroup.controllers'']) then (Inl ErrCgroupNotMounted, None)
      else case discoverDelegatedPathAt H procFile root of None \<Rightarrow> (Inl ErrCgroupNoDelegatedPath, None)
      | Some delegated \<Rightarrow>
          (if \<not> hasController H delegated ''memory'' then Inl ErrCgroupMemoryControllerOff
           else if \<not> cg_access H delegated then Inl ErrCgroupNotWritable
           else Inr (), Some delegated))"

definition procSelf :: string where "procSelf = ''/proc/self/cgroup''"

definition inK8sPod :: "cg_host \<Rightarrow> bool" where
  "inK8sPod H \<longleftrightarrow>
     cg_stat H (filepath_Join [cgroupRoot, ''cgroup.controllers''])
     \<and> cg_env H ''KUBERNETES_SERVICE_HOST'' \<noteq> []"

text \<open>
  The package variables. \<open>initLeafDone\<close> is the result kept by \<open>initLeafOnce\<close> (inside, \<open>None\<close>
  for a nil error), \<open>cgroupStatus\<close> the one kept by \<open>cgroupOnce\<close>; both are \<open>None\<close> before the
  first call. The last field is the record of the effects.
\<close>

record cg_state =
  initLeafDone :: "cg_error option option"
  execCgroupBase :: string
  cgroupStatus :: "(cg_reason + unit) option"
  discoveredPath :: string
  cgroupReady :: bool
  cg_trace :: "cg_op list"

definition cg_initial :: cg_state where
  "cg_initial = \<lparr>initLeafDone = None, execCgroupBase = [], cgroupStatus = None,
     discoveredPath = [], cgroupReady = False, cg_trace = []\<rparr>"

definition setupInitLeaf :: "cg_world \<Rightarrow> cg_state \<Rightarrow> cg_error option \<times> cg_state" where
  "setupInitLeaf W st =
     (case initLeafDone st of Some e \<Rightarrow> (e, st)
      | None \<Rightarrow>
          (case runInitLeafAt W cgroupRoot procSelf (cg_trace st) of
             (Inl e, t) \<Rightarrow> (Some e, st\<lparr>initLeafDone := Some (Some e), cg_trace := t\<rparr>)
           | (Inr base, t) \<Rightarrow>
               (None, st\<lparr>initLeafDone := Some None, execCgroupBase := base, cg_trace := t\<rparr>)))"

definition cgroupV2Reason :: "cg_world \<Rightarrow> cg_state \<Rightarrow> (cg_reason + unit) \<times> cg_state" where
  "cgroupV2Reason W st =
     (case cgroupStatus st of Some r \<Rightarrow> (r, st)
      | None \<Rightarrow>
          (let (r, d) = checkCgroupAvailableWith (W (cg_trace st)) cgroupRoot procSelf in
           (r, st\<lparr>cgroupStatus := Some r,
                  discoveredPath := (case d of None \<Rightarrow> discoveredPath st | Some p \<Rightarrow> p)\<rparr>)))"

definition cgroupAvailable :: "cg_world \<Rightarrow> cg_state \<Rightarrow> bool \<times> cg_state" where
  "cgroupAvailable W st = (let (r, st') = cgroupV2Reason W st in (r = Inr (), st'))"

definition SetupCgroupV2 :: "cg_world \<Rightarrow> cg_state \<Rightarrow> cg_error option \<times> cg_state" where
  "SetupCgroupV2 W st =
     (if \<not> inK8sPod (W (cg_trace st)) then (Some NotInK8sPod, st)
      else case setupInitLeaf W st of
        (Some e, st1) \<Rightarrow> (Some e, st1)
      | (None, st1) \<Rightarrow>
          (case cgroupV2Reason W st1 of
             (Inr _, st2) \<Rightarrow> (None, st2\<lparr>cgroupReady := True\<rparr>)
           | (Inl reason, st2) \<Rightarrow>
               (Some (if reason = ErrCgroupNotWritable then NotWritableHint else NotAvailable reason), st2)))"

text \<open>\<open>hex.EncodeToString\<close> of the random bytes, \<open>None\<close> where the random source fails.\<close>

definition hex_byte :: "nat \<Rightarrow> string" where
  "hex_byte b = [digit_char (b div 16), digit_char (b mod 16)]"

definition shortID :: "nat list option \<Rightarrow> string option" where
  "shortID bytes = map_option (\<lambda>bs. concat (map hex_byte bs)) bytes"

record cgroupExec =
  cge_path :: string
  cge_limit :: "64 word"

text \<open>
  \<open>mgr_ok\<close> is the outcome of \<open>cgroup2.NewManager\<close> for a group path and a limit. The memory
  limit is a product of signed 64-bit integers, the swap limit is 0.
\<close>

definition memLimit :: "go_int \<Rightarrow> 64 word" where
  "memLimit memoryMB = memoryMB * 1024 * 1024"

definition newCgroupExec :: "cg_world \<Rightarrow> nat list option \<Rightarrow> (string \<Rightarrow> 64 word \<Rightarrow> bool) \<Rightarrow>
    cg_state \<Rightarrow> go_int \<Rightarrow> cg_error + cgroupExec" where
  "newCgroupExec W bytes mgr_ok st memoryMB =
     (if \<not> cgroupReady st then Inl NotInitialized
      else case shortID bytes of None \<Rightarrow> Inl IdFailed
      | Some ident \<Rightarrow>
          (case (if execCgroupBase st = [] then discoverDelegatedPath (W (cg_trace st)) procSelf
                 else Some (execCgroupBase st)) of
             None \<Rightarrow> Inl CannotDiscoverBase
           | Some basePath \<Rightarrow>
               (let cgroupPath = filepath_Join [basePath, cgroupPrefix @ ident];
                    (relativePath, ok) = strings_CutPrefix cgroupPath cgroupRoot
                in if \<not> ok \<or> relativePath = [] then Inl (NotUnderRoot cgroupPath)
                   else if \<not> mgr_ok relativePath (memLimit memoryMB) then Inl ManagerFailed
                   else Inr \<lparr>cge_path = cgroupPath, cge_limit = memLimit memoryMB\<rparr>)))"

section \<open>The init-leaf migration\<close>

lemma enable_loop_trace:
  "enable_loop W n ctrl t = (ok, t') \<Longrightarrow>
   \<exists>k \<le> n. (\<not> ok \<and> k = n \<and> t' = t @ map (Op_Write ctrl ''+memory'') (replicate k Os_busy))
     \<or> (\<exists>r. k < n \<and> r \<noteq> Os_busy \<and> ok = (r = Os_ok)
          \<and> t' = t @ map (Op_Write ctrl ''+memory'') (replicate k Os_busy @ [r]))"
proof (induction n arbitrary: t)
  case 0
  then show ?case by simp
next
  case (Suc n)
  let ?r = "cg_write (W t) ctrl ''+memory''"
  show ?case
  proof (cases "?r = Os_busy")
    case False
    with Suc.prems have "ok = (?r = Os_ok)" "t' = t @ map (Op_Write ctrl ''+memory'') (replicate 0 Os_busy @ [?r])"
      by (auto simp: os_WriteFile_def Let_def split: if_splits)
    with False show ?thesis by blast
  next
    case True
    let ?t1 = "t @ [Op_Write ctrl ''+memory'' Os_busy]"
    have "enable_loop W n ctrl ?t1 = (ok, t')"
      using Suc.prems True by (simp add: os_WriteFile_def Let_def)
    from Suc.IH [OF this] obtain k where k: "k \<le> n"
      "(\<not> ok \<and> k = n \<and> t' = ?t1 @ map (Op_Write ctrl ''+memory'') (replicate k Os_busy))
       \<or> (\<exists>r. k < n \<and> r \<noteq> Os_busy \<and> ok = (r = Os_ok)
          \<and> t' = ?t1 @ map (Op_Write ctrl ''+memory'') (replicate k Os_busy @ [r]))" by blast
    have "?t1 @ map (Op_Write ctrl ''+memory'') (replicate k Os_busy @ xs)
        = t @ map (Op_Write ctrl ''+memory'') (replicate (Suc k) Os_busy @ xs)" for k xs by simp
    note * = this [of k "[]"] this [of k "[r]" for r]
    show ?thesis
      by (rule exI [of _ "Suc k"]) (use k * in \<open>auto simp del: replicate.simps\<close>)
  qed
qed

text \<open>The operations of a complete migration, with the outcomes of its steps.\<close>

definition initDir_of :: "string \<Rightarrow> string" where
  "initDir_of self = filepath_Join [self, ''init'']"

definition migrate_op :: "string \<Rightarrow> string \<Rightarrow> os_result \<Rightarrow> cg_op" where
  "migrate_op self pid r = Op_Write (filepath_Join [initDir_of self, ''cgroup.procs'']) pid r"

definition enable_op :: "string \<Rightarrow> os_result \<Rightarrow> cg_op" where
  "enable_op self r = Op_Write (filepath_Join [self, ''cgroup.subtree_control'']) ''+memory'' r"

text \<open>What a run may add to the record of effects, with its result.\<close>

inductive init_leaf_run :: "string \<Rightarrow> string \<Rightarrow> cg_error + string \<Rightarrow> cg_op list \<Rightarrow> bool" for self pid where
  mkdir_failed: "r \<notin> {Os_ok, Os_exist} \<Longrightarrow>
    init_leaf_run self pid (Inl (MkdirFailed (initDir_of self))) [Op_Mkdir (initDir_of self) r]"
| migrate_failed: "r \<in> {Os_ok, Os_exist} \<Longrightarrow> m \<noteq> Os_ok \<Longrightarrow>
    init_leaf_run self pid (Inl (MigrateFailed (filepath_Join [initDir_of self, ''cgroup.procs''])))
      [Op_Mkdir (initDir_of self) r, migrate_op self pid m]"
| enable_failed: "r \<in> {Os_ok, Os_exist} \<Longrightarrow> e \<in> {[x], [Os_busy, x]} \<Longrightarrow> x \<noteq> Os_ok \<Longrightarrow>
    init_leaf_run self pid (Inl (EnableMemoryFailed (filepath_Join [self, ''cgroup.subtree_control''])))
      (Op_Mkdir (initDir_of self) r # migrate_op self pid Os_ok # map (enable_op self) e)"
| migrated: "r \<in> {Os_ok, Os_exist} \<Longrightarrow> e \<in> {[Os_ok], [Os_busy, Os_ok]} \<Longrightarrow>
    init_leaf_run self pid (Inr self)
      (Op_Mkdir (initDir_of self) r # migrate_op self pid Os_ok # map (enable_op self) e)"

lemma enableMemoryController_trace:
  assumes "enableMemoryController W self t = (ok, t')"
  shows "\<exists>e. t' = t @ map (enable_op self) e \<and>
    (if ok then e \<in> {[Os_ok], [Os_busy, Os_ok]} else \<exists>x. x \<noteq> Os_ok \<and> e \<in> {[x], [Os_busy, x]})"
proof -
  let ?c = "filepath_Join [self, ''cgroup.subtree_control'']"
  from assms have "enable_loop W 2 ?c t = (ok, t')" by (simp only: enableMemoryController_def)
  from enable_loop_trace [OF this] obtain k where k: "k \<le> 2"
    "(\<not> ok \<and> k = 2 \<and> t' = t @ map (Op_Write ?c ''+memory'') (replicate k Os_busy))
     \<or> (\<exists>r. k < 2 \<and> r \<noteq> Os_busy \<and> ok = (r = Os_ok)
          \<and> t' = t @ map (Op_Write ?c ''+memory'') (replicate k Os_busy @ [r]))" by blast
  have op: "Op_Write ?c ''+memory'' = enable_op self" by (simp add: enable_op_def fun_eq_iff)
  show ?thesis
  proof (cases "k = 2 \<and> \<not> ok")
    case True
    with k have "t' = t @ map (enable_op self) [Os_busy, Os_busy]"
      unfolding op by (auto simp: numeral_2_eq_2)
    with True show ?thesis by (intro exI [of _ "[Os_busy, Os_busy]"]) auto
  next
    case False
    with k obtain r where r: "k < 2" "ok = (r = Os_ok)"
      "t' = t @ map (enable_op self) (replicate k Os_busy @ [r])" unfolding op by auto
    have "replicate k Os_busy @ [r] \<in> {[r], [Os_busy, r]}"
      using r(1) by (cases k) auto
    with r show ?thesis by (intro exI [of _ "replicate k Os_busy @ [r]"]) auto
  qed
qed

lemma runInitLeafAt_cases:
  assumes "runInitLeafAt W root procFile t = (r, t')"
  shows "(\<exists>self. discoverDelegatedPathAt (W t) procFile root = Some self \<and>
            ((\<exists>pid ops. init_leaf_run self pid r ops \<and> t' = t @ ops)
             \<or> t' = t \<and> (strings_HasSuffix self ''/init'' \<and> r = Inr (strings_TrimSuffix self ''/init''))))
         \<or> t' = t \<and> (r = Inl RootNotMounted \<or> r = Inl CannotDiscoverSelf)"
proof (cases "cg_stat (W t) (filepath_Join [root, ''cgroup.controllers''])")
  case False
  with assms show ?thesis by (simp add: runInitLeafAt_def)
next
  case st: True
  show ?thesis
  proof (cases "discoverDelegatedPathAt (W t) procFile root")
    case None
    with assms st show ?thesis by (simp add: runInitLeafAt_def)
  next
    case (Some self)
    show ?thesis
    proof (cases "strings_HasSuffix self ''/init'' \<or> self = root @ ''/init''")
      case True
      then have "strings_HasSuffix self ''/init''" using HasSuffix_append by blast
      with True assms st Some show ?thesis by (simp add: runInitLeafAt_def)
    next
      case False
      let ?d = "initDir_of self"
      let ?r = "cg_mkdir (W t) ?d"
      let ?t1 = "t @ [Op_Mkdir ?d ?r]"
      let ?p = "filepath_Join [?d, ''cgroup.procs'']"
      let ?pid = "fmt_d (cg_pid (W ?t1))"
      let ?m = "cg_write (W ?t1) ?p ?pid"
      let ?t2 = "?t1 @ [migrate_op self ?pid ?m]"
      obtain ok t3 where en: "enableMemoryController W self ?t2 = (ok, t3)" by fastforce
      have en': "enableMemoryController W self (?t1 @ [Op_Write ?p ?pid ?m]) = (ok, t3)"
        using en by (simp only: migrate_op_def)
      have eq: "(r, t') =
          (if ?r \<noteq> Os_ok \<and> ?r \<noteq> Os_exist then (Inl (MkdirFailed ?d), ?t1)
           else if ?m \<noteq> Os_ok then (Inl (MigrateFailed ?p), ?t2)
           else if \<not> ok then (Inl (EnableMemoryFailed (filepath_Join [self, ''cgroup.subtree_control''])), t3)
           else (Inr self, t3))"
        unfolding assms [symmetric] runInitLeafAt_def os_Mkdir_def os_WriteFile_def Let_def
          initDir_of_def [symmetric]
        by (simp only: st Some False en' prod.case option.case simp_thms if_True if_False migrate_op_def)
      have "\<exists>pid ops. init_leaf_run self pid r ops \<and> t' = t @ ops"
      proof (cases "?r \<in> {Os_ok, Os_exist}")
        case r: False
        then have "(r, t') = (Inl (MkdirFailed ?d), ?t1)" using eq by (simp del: filepath_Join.simps)
        then show ?thesis using mkdir_failed [OF r] by (metis prod.inject)
      next
        case r: True
        show ?thesis
        proof (cases "?m = Os_ok")
          case m: False
          with r have "(r, t') = (Inl (MigrateFailed ?p), ?t2)" using eq by (auto simp del: filepath_Join.simps)
          then have "r = Inl (MigrateFailed ?p)" "t' = t @ [Op_Mkdir ?d ?r, migrate_op self ?pid ?m]" by simp_all
          with migrate_failed [OF r m] show ?thesis by metis
        next
          case m: True
          have rt: "r = (if ok then Inr self else Inl (EnableMemoryFailed
              (filepath_Join [self, ''cgroup.subtree_control''])))" "t' = t3"
            using eq r m by (auto simp del: filepath_Join.simps split: if_splits)
          obtain e where e: "t3 = ?t2 @ map (enable_op self) e"
            "if ok then e \<in> {[Os_ok], [Os_busy, Os_ok]} else \<exists>x. x \<noteq> Os_ok \<and> e \<in> {[x], [Os_busy, x]}"
            using enableMemoryController_trace [OF en] by blast
          have t': "t' = t @ (Op_Mkdir ?d ?r # migrate_op self ?pid Os_ok # map (enable_op self) e)"
            using rt e(1) m by simp
          have "init_leaf_run self ?pid r (Op_Mkdir ?d ?r # migrate_op self ?pid Os_ok # map (enable_op self) e)"
          proof (cases ok)
            case True
            with e(2) rt migrated [OF r] show ?thesis by (simp del: insert_iff)
          next
            case False
            with e(2) obtain x where "x \<noteq> Os_ok" "e \<in> {[x], [Os_busy, x]}" by (auto simp del: insert_iff)
            with False rt enable_failed [OF r] show ?thesis by (simp del: insert_iff)
          qed
          with t' show ?thesis by blast
        qed
      qed
      with Some show ?thesis by blast
    qed
  qed
qed

lemma init_leaf_run_ordered:
  assumes "init_leaf_run self pid r ops"
  shows "r = Inr b \<Longrightarrow> b = self \<and> 2 < length ops \<and> last ops = enable_op self Os_ok"
    and "2 < length ops \<Longrightarrow> ops ! 1 = migrate_op self pid Os_ok \<and> length ops \<le> 4
      \<and> (\<forall>op \<in> set (drop 2 ops). \<exists>x. op = enable_op self x)"
  using assms by (cases rule: init_leaf_run.cases; force simp: numeral_2_eq_2)+

section \<open>Paths of cgroups\<close>

lemma Join_abs_abs:
  assumes "\<forall>c \<in> set rs. path_comp c" "\<forall>c \<in> set ps. path_comp c"
  shows "filepath_Join [abs_path rs, abs_path ps] = abs_path (rs @ ps)"
proof -
  let ?f = "\<lambda>cs. if cs = [] then [[]] else cs :: string list"
  have ne: "abs_path rs \<noteq> []" by (simp add: abs_path_def)
  have j: "strings_Join [abs_path rs, abs_path ps] ''/'' = abs_path rs @ slash # abs_path ps" by simp
  have abs: "filepath_IsAbs (strings_Join [abs_path rs, abs_path ps] ''/'')"
    unfolding j by (simp add: IsAbs_append ne)
  have f: "clean_comps True ([] # ?f cs @ es) st = clean_comps True (cs @ es) st" for cs es st
    by (simp del: clean_comps.simps add: clean_comps_skip)
  have f': "clean_comps True (cs @ [] # ?f ps) [] = clean_comps True (cs @ ps) []"
    if "\<forall>c \<in> set cs. path_comp c" for cs
  proof -
    have "clean_comps True (cs @ ys) st = clean_comps True ys (rev cs @ st)" for ys st
      using that by (induction cs arbitrary: st) (simp_all del: clean_comps.simps add: clean_comps_push)
    then show ?thesis using f [of ps "[]"] by (simp del: clean_comps.simps add: clean_comps_skip)
  qed
  have "clean_list (strings_Join [abs_path rs, abs_path ps] ''/'') = rs @ ps"
  proof -
    have "strings_Split slash (strings_Join [abs_path rs, abs_path ps] ''/'') = ([] # ?f rs) @ [] # ?f ps"
      unfolding j Split_append Split_abs_path [OF assms(1)] Split_abs_path [OF assms(2)] ..
    then have "clean_list (strings_Join [abs_path rs, abs_path ps] ''/'') = clean_comps True (rs @ [] # ?f ps) []"
      unfolding clean_list_def using abs f [of rs "[] # ?f ps"] by (simp del: clean_comps.simps)
    also have "\<dots> = rs @ ps"
      unfolding f' [OF assms(1)] using clean_comps_id [of "rs @ ps" True "[]"] assms by auto
    finally show ?thesis .
  qed
  with ne Clean_abs [OF abs] show ?thesis by simp
qed

lemma abs_path_snoc: "cs \<noteq> [] \<Longrightarrow> abs_path (cs @ [c]) = abs_path cs @ slash # c"
  by (simp add: abs_path_def Join_append)

lemma path_comp_init [simp]: "path_comp ''init''" "path_comp ''cgroup.procs''" "path_comp ''cgroup.subtree_control''"
  by (simp_all add: path_comp_def)

lemma abs_path_init_suffix:
  assumes "\<forall>c \<in> set cs. path_comp c"
  shows "strings_HasSuffix (abs_path cs) ''/init'' \<longleftrightarrow> cs \<noteq> [] \<and> last cs = ''init''"
proof (cases cs rule: rev_cases)
  case Nil
  then show ?thesis by (simp add: abs_path_def strings_HasSuffix_def)
next
  case (snoc bs c)
  have c: "slash \<notin> set c" using assms snoc by (auto simp: path_comp_def)
  have eq: "abs_path cs = (if bs = [] then [] else abs_path bs) @ slash # c"
    unfolding snoc using abs_path_snoc [of bs c] by (simp add: abs_path_def)
  have "a @ slash # c = b @ slash # ''init'' \<longleftrightarrow> a = b \<and> c = ''init''" for a b
  proof
    assume h: "a @ slash # c = b @ slash # ''init''"
    have "takeWhile (\<lambda>x. x \<noteq> slash) (rev c @ slash # rev a) = rev c"
      by (rule takeWhile_append_stop) (use c in auto)
    moreover have "takeWhile (\<lambda>x. x \<noteq> slash) (rev ''init'' @ slash # rev b) = rev ''init''"
      by (rule takeWhile_append_stop) auto
    moreover have "rev c @ slash # rev a = rev ''init'' @ slash # rev b"
      using arg_cong [OF h, of rev] by simp
    ultimately have "rev c = rev ''init''" by metis
    then have "c = ''init''" by (simp only: rev_is_rev_conv)
    with h show "a = b \<and> c = ''init''" by simp
  qed simp
  then show ?thesis unfolding HasSuffix_iff eq using snoc by auto
qed

text \<open>What \<open>/proc/self/cgroup\<close> shows of a process in the cgroup with components \<open>ps\<close>.\<close>

definition self_line :: "string list \<Rightarrow> string" where
  "self_line ps = ''0::'' @ abs_path ps @ nl"

definition self_ok :: "string list \<Rightarrow> bool" where
  "self_ok ps \<longleftrightarrow> (\<forall>c \<in> set ps. path_comp c \<and> CHR 0x0A \<notin> set c \<and> CHR 0x0D \<notin> set c)
     \<and> length (self_line ps) \<le> 65536"

lemma set_Join_slash: "x \<in> set (strings_Join cs ''/'') \<Longrightarrow> x = slash \<or> (\<exists>c \<in> set cs. x \<in> set c)"
  by (induction cs "''/''" rule: strings_Join.induct) auto

lemma discover_self_line:
  assumes "cg_read H pf = Some (self_line ps)" "self_ok ps" "\<forall>c \<in> set rs. path_comp c"
  shows "discoverDelegatedPathAt H pf (abs_path rs) = Some (abs_path (rs @ ps))"
proof -
  let ?l = "''0::'' @ abs_path ps"
  have no: "x \<noteq> CHR 0x0A \<and> x \<noteq> CHR 0x0D" if "x \<in> set ?l" for x
  proof -
    from that have "x \<in> set ''0::/'' \<or> x \<in> set (strings_Join ps ''/'')" by (auto simp: abs_path_def)
    then show ?thesis using set_Join_slash [of x ps] assms(2) by (auto simp: self_ok_def)
  qed
  have tw: "takeWhile (\<lambda>c. c \<noteq> CHR 0x0A) (self_line ps) = ?l"
  proof -
    have "takeWhile (\<lambda>c. c \<noteq> CHR 0x0A) (?l @ CHR 0x0A # []) = ?l"
      by (rule takeWhile_append_stop) (use no in auto)
    then show ?thesis by (simp add: self_line_def)
  qed
  have "last ?l \<in> set ?l" by (rule last_in_set) simp
  then have last: "last ?l \<noteq> CHR 0x0D" using no by blast
  have len: "\<not> 65536 \<le> length ?l" using assms(2) by (simp add: self_ok_def self_line_def)
  have "scan_line (self_line ps) = Some ?l"
    unfolding scan_line_def tw Let_def using len last by (simp add: self_line_def)
  moreover have "strings_TrimPrefix ?l ''0::'' = abs_path ps" by (rule TrimPrefix_append)
  moreover have "abs_path ps \<noteq> []" by (simp add: abs_path_def)
  moreover have "strings_HasPrefix ?l ''0::''" by (rule HasPrefix_append)
  moreover have "filepath_Join [abs_path rs, abs_path ps] = abs_path (rs @ ps)"
    using assms by (intro Join_abs_abs) (auto simp: self_ok_def)
  ultimately show ?thesis
    unfolding discoverDelegatedPathAt_def assms(1) by (simp only: option.case Let_def simp_thms if_False if_True)
qed

text \<open>A restarted daemon that finds itself in \<open>init\<close> takes the same base and changes nothing.\<close>

lemma runInitLeafAt_restart:
  assumes rs: "\<forall>c \<in> set rs. path_comp c" "rs \<noteq> []"
    and first: "cg_read (W t) pf = Some (self_line ps)" "last (rs @ ps) \<noteq> ''init''"
      "runInitLeafAt W (abs_path rs) pf t = (Inr base, t')"
    and later: "cg_read (W' u) pf = Some (self_line (ps @ [''init'']))" "self_ok (ps @ [''init''])"
      "cg_stat (W' u) (filepath_Join [abs_path rs, ''cgroup.controllers''])"
  shows "base = abs_path (rs @ ps) \<and> runInitLeafAt W' (abs_path rs) pf u = (Inr base, u)"
proof -
  have ok: "self_ok ps"
  proof (cases "ps = []")
    case True
    then show ?thesis by (simp add: self_ok_def self_line_def abs_path_def)
  next
    case False
    with later(2) show ?thesis by (auto simp: self_ok_def self_line_def abs_path_snoc)
  qed
  have comps: "\<forall>c \<in> set (rs @ ps). path_comp c" using rs ok by (auto simp: self_ok_def)
  have d: "discoverDelegatedPathAt (W t) pf (abs_path rs) = Some (abs_path (rs @ ps))"
    by (rule discover_self_line [OF first(1) ok rs(1)])
  have d': "discoverDelegatedPathAt (W' u) pf (abs_path rs) = Some (abs_path (rs @ ps @ [''init'']))"
    by (rule discover_self_line [OF later(1,2) rs(1)])
  have "\<not> strings_HasSuffix (abs_path (rs @ ps)) ''/init''"
    using abs_path_init_suffix [OF comps] first(2) by simp
  with runInitLeafAt_cases [OF first(3)] d obtain pid ops where
    "init_leaf_run (abs_path (rs @ ps)) pid (Inr base) ops" by auto
  then have base: "base = abs_path (rs @ ps)" by (auto elim: init_leaf_run.cases)
  have "abs_path (rs @ ps @ [''init'']) = abs_path (rs @ ps) @ ''/init''"
    using abs_path_snoc [of "rs @ ps" "''init''"] rs(2) by simp
  then have suf: "strings_HasSuffix (abs_path (rs @ ps @ [''init''])) ''/init''"
    "strings_TrimSuffix (abs_path (rs @ ps @ [''init''])) ''/init'' = base"
    unfolding base by (simp_all only: HasSuffix_append TrimSuffix_append)
  then show ?thesis
    unfolding runInitLeafAt_def d' using later(3) base
    by (simp only: simp_thms if_False if_True option.case)
qed

section \<open>The once-only setup\<close>

inductive cg_reach :: "cg_world \<Rightarrow> cg_state \<Rightarrow> bool" for W where
  start: "cg_reach W cg_initial"
| once_setup: "cg_reach W st \<Longrightarrow> cg_reach W (snd (SetupCgroupV2 W st))"
| query: "cg_reach W st \<Longrightarrow> cg_reach W (snd (cgroupAvailable W st))"

definition cg_inv :: "cg_state \<Rightarrow> bool" where
  "cg_inv st \<longleftrightarrow>
     (cgroupReady st \<longrightarrow> initLeafDone st = Some None \<and> cgroupStatus st = Some (Inr ()))
     \<and> (initLeafDone st = None \<longrightarrow> cg_trace st = [] \<and> execCgroupBase st = [])"

lemma setupInitLeaf_done: "initLeafDone st = Some e \<Longrightarrow> setupInitLeaf W st = (e, st)"
  by (simp add: setupInitLeaf_def)

lemma setupInitLeaf_fields:
  assumes "setupInitLeaf W st = (e, st')"
  shows "initLeafDone st' = Some e" "cgroupReady st' = cgroupReady st" "cgroupStatus st' = cgroupStatus st"
  using assms by (auto simp: setupInitLeaf_def split: option.splits sum.splits prod.splits)

lemma cgroupV2Reason_fields:
  assumes "cgroupV2Reason W st = (r, st')"
  shows "cgroupStatus st' = Some r" "initLeafDone st' = initLeafDone st" "cgroupReady st' = cgroupReady st"
    "cg_trace st' = cg_trace st" "execCgroupBase st' = execCgroupBase st"
    "cgroupStatus st = Some q \<Longrightarrow> r = q \<and> st' = st"
  using assms by (auto simp: cgroupV2Reason_def Let_def split: option.splits prod.splits)

lemma SetupCgroupV2_cases:
  obtains (no_pod) "SetupCgroupV2 W st = (Some NotInK8sPod, st)" "\<not> inK8sPod (W (cg_trace st))"
  | (leaf) e st1 where "inK8sPod (W (cg_trace st))" "setupInitLeaf W st = (Some e, st1)"
      "SetupCgroupV2 W st = (Some e, st1)"
  | (unavailable) st1 reason st2 where "inK8sPod (W (cg_trace st))" "setupInitLeaf W st = (None, st1)"
      "cgroupV2Reason W st1 = (Inl reason, st2)"
      "SetupCgroupV2 W st = (Some (if reason = ErrCgroupNotWritable then NotWritableHint else NotAvailable reason), st2)"
  | (ready) st1 st2 where "inK8sPod (W (cg_trace st))" "setupInitLeaf W st = (None, st1)"
      "cgroupV2Reason W st1 = (Inr (), st2)" "SetupCgroupV2 W st = (None, st2\<lparr>cgroupReady := True\<rparr>)"
proof (cases "inK8sPod (W (cg_trace st))")
  case False
  then show ?thesis using no_pod by (simp add: SetupCgroupV2_def)
next
  case True
  obtain e st1 where s: "setupInitLeaf W st = (e, st1)" by fastforce
  obtain r st2 where q: "cgroupV2Reason W st1 = (r, st2)" by fastforce
  show ?thesis
    using True s q leaf unavailable ready
    by (cases e; cases r) (auto simp: SetupCgroupV2_def)
qed

lemma cg_inv_SetupCgroupV2: "cg_inv st \<Longrightarrow> cg_inv (snd (SetupCgroupV2 W st))"
proof (cases rule: SetupCgroupV2_cases [of W st])
  case (leaf e st1)
  assume "cg_inv st"
  then show ?thesis using leaf setupInitLeaf_fields [OF leaf(2)] by (auto simp: cg_inv_def setupInitLeaf_def)
next
  case (unavailable st1 reason st2)
  assume "cg_inv st"
  then show ?thesis
    using unavailable setupInitLeaf_fields [OF unavailable(2)] cgroupV2Reason_fields [OF unavailable(3)]
    by (auto simp: cg_inv_def)
next
  case (ready st1 st2)
  then show ?thesis
    using setupInitLeaf_fields [OF ready(2)] cgroupV2Reason_fields [OF ready(3)] by (auto simp: cg_inv_def)
qed simp

lemma cg_inv_reach: "cg_reach W st \<Longrightarrow> cg_inv st"
proof (induction rule: cg_reach.induct)
  case start
  then show ?case by (simp add: cg_inv_def cg_initial_def)
next
  case (once_setup st)
  then show ?case by (simp add: cg_inv_SetupCgroupV2)
next
  case (query st)
  obtain r st' where "cgroupV2Reason W st = (r, st')" by fastforce
  with query cgroupV2Reason_fields [OF this] show ?case
    by (cases "cgroupStatus st") (auto simp: cg_inv_def cgroupAvailable_def)
qed

text \<open>
  A further call, whatever has become of the world since, returns the same result and performs no
  operation, as long as the pod check passes.
\<close>

lemma SetupCgroupV2_again:
  assumes "SetupCgroupV2 W st = (e, st1)" "e \<noteq> Some NotInK8sPod" "inK8sPod (W' (cg_trace st1))"
  shows "SetupCgroupV2 W' st1 = (e, st1)"
proof (cases rule: SetupCgroupV2_cases [of W st])
  case no_pod
  with assms show ?thesis by simp
next
  case (leaf e' st')
  with assms have eq: "e = Some e'" "st1 = st'" by auto
  show ?thesis
    using assms(3) setupInitLeaf_done [OF setupInitLeaf_fields(1) [OF leaf(2)], of W']
    by (simp add: SetupCgroupV2_def eq)
next
  case (unavailable st' reason st2)
  with assms have eq: "st1 = st2"
    "e = Some (if reason = ErrCgroupNotWritable then NotWritableHint else NotAvailable reason)" by auto
  note r = cgroupV2Reason_fields [OF unavailable(3)]
  have "initLeafDone st2 = Some None" using r(2) setupInitLeaf_fields(1) [OF unavailable(2)] by simp
  from setupInitLeaf_done [OF this, of W'] show ?thesis
    using assms(3) r(1) by (simp add: SetupCgroupV2_def eq cgroupV2Reason_def)
next
  case (ready st' st2)
  with assms have eq: "st1 = st2\<lparr>cgroupReady := True\<rparr>" "e = None" by auto
  note r = cgroupV2Reason_fields [OF ready(3)]
  have "initLeafDone st1 = Some None" using r(2) setupInitLeaf_fields(1) [OF ready(2)] eq by simp
  from setupInitLeaf_done [OF this, of W'] show ?thesis
    using assms(3) r(1) by (simp add: SetupCgroupV2_def eq cgroupV2Reason_def)
qed

section \<open>The per-command cgroup\<close>

lemma digit_char_inj: "a < 16 \<Longrightarrow> b < 16 \<Longrightarrow> digit_char a = digit_char b \<longleftrightarrow> a = b"
  by (metis digit_val_char)

lemma hex_byte_inj: "a < 256 \<Longrightarrow> b < 256 \<Longrightarrow> hex_byte a = hex_byte b \<longleftrightarrow> a = b"
proof
  assume ab: "a < 256" "b < 256" and h: "hex_byte a = hex_byte b"
  have "a div 16 < 16" "b div 16 < 16" using ab by auto
  with h have "a div 16 = b div 16" "a mod 16 = b mod 16"
    by (simp_all add: hex_byte_def digit_char_inj)
  then show "a = b" by (metis div_mult_mod_eq)
qed simp

lemma hex_inj:
  "length as = length bs \<Longrightarrow> \<forall>a \<in> set (as @ bs). a < 256 \<Longrightarrow>
   concat (map hex_byte as) = concat (map hex_byte bs) \<longleftrightarrow> as = bs"
proof (induction as bs rule: list_induct2)
  case Nil
  then show ?case by simp
next
  case (Cons a as b bs)
  have "length (hex_byte a) = length (hex_byte b)" by (simp add: hex_byte_def)
  with Cons hex_byte_inj [of a b] show ?case by simp
qed

lemma slash_not_digit: "d < 16 \<Longrightarrow> digit_char d \<noteq> slash"
proof -
  assume "d < 16"
  then have "of_char (digit_char d) \<noteq> (47 :: nat)" by (auto simp: digit_char_def)
  then show ?thesis by auto
qed

lemma exec_comp: "\<forall>a \<in> set bs. a < 256 \<Longrightarrow> path_comp (cgroupPrefix @ concat (map hex_byte bs))"
proof -
  assume b: "\<forall>a \<in> set bs. a < 256"
  have "slash \<notin> set (hex_byte a)" if "a < 256" for a
  proof -
    from that have "a div 16 < 16" "a mod 16 < 16" by auto
    then show ?thesis using slash_not_digit by (metis hex_byte_def list.set_cases set_ConsD empty_iff empty_set)
  qed
  with b show ?thesis by (auto simp: path_comp_def cgroupPrefix_def)
qed

text \<open>A per-command cgroup is a child of the base, next to \<open>init\<close>, and carries the limit.\<close>

lemma newCgroupExec_Inr:
  assumes "newCgroupExec W bytes mgr_ok st mb = Inr c"
    and "execCgroupBase st = abs_path bs" "\<forall>d \<in> set bs. path_comp d" "\<forall>a \<in> set (the bytes). a < 256"
  shows "cgroupReady st \<and> cge_limit c = memLimit mb
    \<and> cge_path c = abs_path (bs @ [cgroupPrefix @ concat (map hex_byte (the bytes))])
    \<and> filepath_Dir (cge_path c) = execCgroupBase st \<and> cge_path c \<noteq> initDir_of (execCgroupBase st)"
proof -
  let ?n = "cgroupPrefix @ concat (map hex_byte (the bytes))"
  have n: "path_comp ?n" using exec_comp assms(4) by blast
  have j: "filepath_Join [abs_path bs, ?n] = abs_path (bs @ [?n])"
    using filepath_Join_abs [OF assms(3), of "[?n]"] n by simp
  have ne: "execCgroupBase st \<noteq> []" using assms(2) by (simp add: abs_path_def)
  obtain bl where bl: "bytes = Some bl" "cgroupReady st"
    using assms(1) by (cases bytes) (auto simp: newCgroupExec_def shortID_def split: if_splits)
  have path: "cge_path c = abs_path (bs @ [?n])" "cge_limit c = memLimit mb"
    using assms(1) ne j unfolding newCgroupExec_def shortID_def assms(2) bl
    by (auto simp: Let_def bl simp del: filepath_Join.simps split: if_splits prod.splits)
  have "filepath_Dir (cge_path c) = execCgroupBase st"
    unfolding path assms(2) by (rule Dir_abs_path) (use assms(3) n in auto)
  moreover have "initDir_of (execCgroupBase st) = abs_path (bs @ [''init''])"
    unfolding initDir_of_def assms(2) using filepath_Join_abs [OF assms(3), of "[''init'']"] by simp
  moreover have "abs_path (bs @ [?n]) \<noteq> abs_path (bs @ [''init''])"
  proof
    assume "abs_path (bs @ [?n]) = abs_path (bs @ [''init''])"
    then have "clean_list (abs_path (bs @ [?n])) = clean_list (abs_path (bs @ [''init'']))" by simp
    then have "bs @ [?n] = bs @ [''init'']"
      using clean_list_abs_path [of "bs @ [?n]"] clean_list_abs_path [of "bs @ [''init'']"] assms(3) n by auto
    then show False by (simp add: cgroupPrefix_def)
  qed
  ultimately show ?thesis using path bl(2) by simp
qed

lemma memLimit_exact:
  assumes "0 < mb" "mb < 2 ^ 43"
  shows "memLimit (of_nat mb) = of_nat (mb * 2 ^ 20)" "sint (memLimit (of_nat mb)) = int mb * 2 ^ 20"
proof -
  show eq: "memLimit (of_nat mb) = of_nat (mb * 2 ^ 20)" by (simp add: memLimit_def)
  have b: "int (mb * 2 ^ 20) < 2 ^ 63" using assms(2) by simp
  have "sint (of_nat (mb * 2 ^ 20) :: 64 word) = int (mb * 2 ^ 20)"
  proof -
    have "signed_take_bit (LENGTH(64) - Suc 0) (int (mb * 2 ^ 20)) = int (mb * 2 ^ 20)"
      by (rule signed_take_bit_int_eq_self) (use b in simp_all)
    then show ?thesis by (simp only: signed_of_nat of_int_eq_id id_apply)
  qed
  then show "sint (memLimit (of_nat mb)) = int mb * 2 ^ 20" unfolding eq by (simp only: of_nat_mult of_nat_power of_nat_numeral)
qed

section \<open>Properties\<close>

text \<open>A pod whose cgroup file system accepts everything: a process at \<open>/pod\<close>, moved by the write.\<close>

definition sample_cg_host :: "string list \<Rightarrow> cg_host" where
  "sample_cg_host ps = \<lparr>cg_stat = (\<lambda>_. True),
     cg_read = (\<lambda>p. if p = procSelf then Some (self_line ps) else Some ''memory cpu''),
     cg_access = (\<lambda>_. True), cg_mkdir = (\<lambda>_. Os_ok), cg_write = (\<lambda>_ _. Os_ok), cg_pid = 1,
     cg_env = (\<lambda>_. ''10.0.0.1'')\<rparr>"

definition sample_world :: cg_world where
  "sample_world t = sample_cg_host (if t = [] then [''pod''] else [''pod'', ''init''])"

definition sys_fs_cgroup :: "string list" where
  "sys_fs_cgroup = [''sys'', ''fs'', ''cgroup'']"

lemma cgroupRoot_comps: "cgroupRoot = abs_path sys_fs_cgroup" "\<forall>c \<in> set sys_fs_cgroup. path_comp c"
  by (simp_all add: cgroupRoot_def abs_path_def sys_fs_cgroup_def path_comp_def)

lemma sample_self_ok: "self_ok [''pod'']" "self_ok [''pod'', ''init'']"
  by (simp_all add: self_ok_def self_line_def abs_path_def path_comp_def)

lemma sample_discover:
  "discoverDelegatedPathAt (sample_world []) procSelf cgroupRoot = Some ''/sys/fs/cgroup/pod''"
  "t \<noteq> [] \<Longrightarrow> discoverDelegatedPathAt (sample_world t) procSelf cgroupRoot = Some ''/sys/fs/cgroup/pod/init''"
proof -
  show "discoverDelegatedPathAt (sample_world []) procSelf cgroupRoot = Some ''/sys/fs/cgroup/pod''"
    unfolding cgroupRoot_comps(1)
    by (subst discover_self_line [of _ _ "[''pod'']"])
      (use sample_self_ok cgroupRoot_comps in \<open>simp_all add: sample_world_def sample_cg_host_def sys_fs_cgroup_def abs_path_def\<close>)
  show "discoverDelegatedPathAt (sample_world t) procSelf cgroupRoot = Some ''/sys/fs/cgroup/pod/init''" if "t \<noteq> []"
    unfolding cgroupRoot_comps(1)
    by (subst discover_self_line [of _ _ "[''pod'', ''init'']"])
      (use that sample_self_ok cgroupRoot_comps in \<open>simp_all add: sample_world_def sample_cg_host_def sys_fs_cgroup_def abs_path_def\<close>)
qed

definition sample_ops :: "cg_op list" where
  "sample_ops = [Op_Mkdir ''/sys/fs/cgroup/pod/init'' Os_ok,
     Op_Write ''/sys/fs/cgroup/pod/init/cgroup.procs'' ''1'' Os_ok,
     Op_Write ''/sys/fs/cgroup/pod/cgroup.subtree_control'' ''+memory'' Os_ok]"

lemma sample_runInitLeaf: "runInitLeafAt sample_world cgroupRoot procSelf [] = (Inr ''/sys/fs/cgroup/pod'', sample_ops)"
proof -
  have c: "filepath_Join [''/sys/fs/cgroup/pod'', ''init''] = ''/sys/fs/cgroup/pod/init''"
    "filepath_Join [''/sys/fs/cgroup/pod/init'', ''cgroup.procs''] = ''/sys/fs/cgroup/pod/init/cgroup.procs''"
    "filepath_Join [''/sys/fs/cgroup/pod'', ''cgroup.subtree_control''] = ''/sys/fs/cgroup/pod/cgroup.subtree_control''"
    "strings_HasSuffix ''/sys/fs/cgroup/pod'' ''/init'' = False" "fmt_d (Suc 0) = ''1''"
    by code_simp+
  have w: "cg_stat (sample_world t) x" "cg_mkdir (sample_world t) x = Os_ok" "cg_write (sample_world t) x y = Os_ok"
    "cg_pid (sample_world t) = 1" for t x y by (simp_all add: sample_world_def sample_cg_host_def)
  show ?thesis
    unfolding runInitLeafAt_def sample_discover(1) enableMemoryController_def os_Mkdir_def os_WriteFile_def Let_def
    by (simp add: c w cgroupRoot_def numeral_2_eq_2 os_WriteFile_def Let_def sample_ops_def del: filepath_Join.simps)
qed

text \<open>
  C22. The init-leaf migration is ordered: a run either changes nothing, or first creates the
  \<open>init\<close> child of its cgroup, then moves the process into it, and touches
  \<open>cgroup.subtree_control\<close> of the parent only after that move succeeded, at most twice; it
  reports success after operations only if the last one enabled the controller.
\<close>

theorem init_leaf_order:
  assumes "runInitLeafAt W root procFile t = (r, t')"
  shows "\<exists>ops self pid. t' = t @ ops \<and> (ops = [] \<or> init_leaf_run self pid r ops)
    \<and> (2 < length ops \<longrightarrow> ops ! 1 = migrate_op self pid Os_ok \<and> length ops \<le> 4
         \<and> list_all (\<lambda>op. \<exists>x. op = enable_op self x) (drop 2 ops))
    \<and> (ops \<noteq> [] \<and> (\<exists>b. r = Inr b) \<longrightarrow> r = Inr self \<and> last ops = enable_op self Os_ok)"
  using runInitLeafAt_cases [OF assms]
proof (elim disjE exE conjE)
  fix self pid ops
  assume run: "init_leaf_run self pid r ops" "t' = t @ ops"
  note o = init_leaf_run_ordered [OF run(1)]
  have "2 < length ops \<longrightarrow> ops ! 1 = migrate_op self pid Os_ok \<and> length ops \<le> 4
      \<and> list_all (\<lambda>op. \<exists>x. op = enable_op self x) (drop 2 ops)"
    using o(2) by (simp add: list_all_iff)
  moreover have "(\<exists>b. r = Inr b) \<longrightarrow> r = Inr self \<and> last ops = enable_op self Os_ok" using o(1) by blast
  ultimately show ?thesis using run by blast
next
  fix self assume "t' = t"
  then show ?thesis by (intro exI [of _ "[]"]) simp
next
  assume "t' = t"
  then show ?thesis by (intro exI [of _ "[]"]) simp
next
  assume "t' = t"
  then show ?thesis by (intro exI [of _ "[]"]) simp
qed

theorem init_leaf_order_witness:
  "runInitLeafAt sample_world cgroupRoot procSelf [] = (Inr ''/sys/fs/cgroup/pod'', sample_ops)
   \<and> (\<exists>self pid. init_leaf_run self pid (Inr ''/sys/fs/cgroup/pod'') sample_ops)"
  using init_leaf_order [OF sample_runInitLeaf] sample_runInitLeaf by (auto simp: sample_ops_def)

text \<open>
  A restart is harmless: when a migrated daemon starts again inside its \<open>init\<close> leaf, the run
  finds the same base for the per-command cgroups as before, without any operation.
\<close>

theorem init_leaf_restart:
  assumes "list_all path_comp rs" "rs \<noteq> []"
    and "cg_read (W t) procFile = Some (self_line ps)" "last (rs @ ps) \<noteq> ''init''"
    and "runInitLeafAt W (abs_path rs) procFile t = (Inr base, t')"
    and "cg_read (W' u) procFile = Some (self_line (ps @ [''init'']))" "self_ok (ps @ [''init''])"
    and "cg_stat (W' u) (filepath_Join [abs_path rs, ''cgroup.controllers''])"
  shows "base = abs_path (rs @ ps) \<and> runInitLeafAt W' (abs_path rs) procFile u = (Inr base, u)"
  by (rule runInitLeafAt_restart [where t = t and W = W]) (use assms in \<open>simp_all add: list_all_iff\<close>)

theorem init_leaf_restart_witness:
  "runInitLeafAt sample_world cgroupRoot procSelf sample_ops = (Inr ''/sys/fs/cgroup/pod'', sample_ops)"
proof -
  have a: "cg_read (sample_world []) procSelf = Some (self_line [''pod''])"
    "cg_read (sample_world sample_ops) procSelf = Some (self_line ([''pod''] @ [''init'']))"
    "cg_stat (sample_world sample_ops) x" for x
    by (simp_all add: sample_world_def sample_cg_host_def sample_ops_def)
  have b: "list_all path_comp sys_fs_cgroup" "sys_fs_cgroup \<noteq> []" "last (sys_fs_cgroup @ [''pod'']) \<noteq> ''init''"
    using cgroupRoot_comps(2) by (simp_all add: list_all_iff sys_fs_cgroup_def)
  have c: "self_ok ([''pod''] @ [''init''])" using sample_self_ok by simp
  from init_leaf_restart [where W = sample_world and W' = sample_world and t = "[]" and u = sample_ops
      and ps = "[''pod'']" and rs = sys_fs_cgroup, OF b(1,2) a(1) b(3) sample_runInitLeaf [unfolded cgroupRoot_comps(1)] a(2) c a(3)]
  show ?thesis by (simp add: cgroupRoot_comps(1))
qed

text \<open>
  C21. \<open>SetupCgroupV2\<close> works once: a call that got past the pod check fixes its result, and a
  later call, whatever the cgroup file system and the environment have become since, performs no
  operation and returns that result if the pod check, which is made anew each time, still passes,
  and the error of the pod check otherwise; and in every state reached by any calls, the ready
  flag is set only if the migration and the availability check succeeded.
\<close>

theorem setup_once:
  assumes "cg_reach W st" "SetupCgroupV2 W st = (e, st1)" "e \<noteq> Some NotInK8sPod"
  shows "SetupCgroupV2 W' st1 = (if inK8sPod (W' (cg_trace st1)) then e else Some NotInK8sPod, st1)
    \<and> (cgroupReady st1 \<longrightarrow> initLeafDone st1 = Some None \<and> cgroupStatus st1 = Some (Inr ()))"
proof -
  have "cg_reach W st1" using once_setup [OF assms(1)] assms(2) by simp
  from cg_inv_reach [OF this] SetupCgroupV2_again [OF assms(2,3), of W'] show ?thesis
    by (simp add: cg_inv_def SetupCgroupV2_def [of W' st1])
qed

definition sample_cg_ready :: cg_state where
  "sample_cg_ready = \<lparr>initLeafDone = Some None, execCgroupBase = ''/sys/fs/cgroup/pod'',
     cgroupStatus = Some (Inr ()), discoveredPath = ''/sys/fs/cgroup/pod/init'', cgroupReady = True,
     cg_trace = sample_ops\<rparr>"

lemma sample_setup: "SetupCgroupV2 sample_world cg_initial = (None, sample_cg_ready)"
proof -
  have pod: "inK8sPod (sample_world t)" for t by (simp add: inK8sPod_def sample_world_def sample_cg_host_def)
  have j: "filepath_Join [''/sys/fs/cgroup/pod/init'', ''cgroup.controllers''] = ''/sys/fs/cgroup/pod/init/cgroup.controllers''"
    by code_simp
  have m: "strings_Contains ''memory cpu'' ''memory''" by code_simp
  have "hasController (sample_world sample_ops) ''/sys/fs/cgroup/pod/init'' ''memory''"
    unfolding hasController_def j
    using m by (simp add: sample_world_def sample_cg_host_def procSelf_def)
  moreover have "sample_ops \<noteq> []" by (simp add: sample_ops_def)
  ultimately have "checkCgroupAvailableWith (sample_world sample_ops) cgroupRoot procSelf = (Inr (), Some ''/sys/fs/cgroup/pod/init'')"
    unfolding checkCgroupAvailableWith_def using sample_discover(2)
    by (simp add: sample_world_def sample_cg_host_def del: filepath_Join.simps)
  then show ?thesis
    using pod sample_runInitLeaf
    by (simp add: SetupCgroupV2_def setupInitLeaf_def cg_initial_def cgroupV2Reason_def sample_cg_ready_def)
qed

theorem setup_once_witness:
  "SetupCgroupV2 sample_world cg_initial = (None, sample_cg_ready)
   \<and> SetupCgroupV2 sample_world sample_cg_ready = (None, sample_cg_ready)
   \<and> SetupCgroupV2 (\<lambda>t. (sample_world t)\<lparr>cg_env := (\<lambda>_. [])\<rparr>) sample_cg_ready = (Some NotInK8sPod, sample_cg_ready)"
proof -
  have "inK8sPod (sample_world t)" "\<not> inK8sPod ((sample_world t)\<lparr>cg_env := (\<lambda>_. [])\<rparr>)" for t
    by (simp_all add: inK8sPod_def sample_world_def sample_cg_host_def)
  with setup_once [OF start sample_setup, of sample_world]
    setup_once [OF start sample_setup, of "\<lambda>t. (sample_world t)\<lparr>cg_env := (\<lambda>_. [])\<rparr>"] sample_setup
  show ?thesis by simp
qed

text \<open>
  C23. A command's cgroup is a direct child of the base, is not the daemon's \<open>init\<close> leaf, differs
  for different random bytes, and its limit is the configured number of MiB exactly, for every
  limit below \<open>2 ^ 43\<close> MiB; it is created only after the setup succeeded.
\<close>

theorem exec_cgroup_placed:
  assumes "newCgroupExec W (Some bytes) mgr_ok st (of_nat mb) = Inr c"
    and "newCgroupExec W (Some bytes') mgr_ok st (of_nat mb) = Inr c'"
    and "execCgroupBase st = abs_path bs" "list_all path_comp bs"
    and "length bytes = length bytes'" "list_all (\<lambda>b. b < 256) (bytes @ bytes')" "0 < mb" "mb < 2 ^ 43"
  shows "cgroupReady st \<and> filepath_Dir (cge_path c) = execCgroupBase st
    \<and> cge_path c \<noteq> initDir_of (execCgroupBase st) \<and> sint (cge_limit c) = int mb * 2 ^ 20
    \<and> (cge_path c = cge_path c' \<longrightarrow> bytes = bytes')"
proof -
  have b: "\<forall>d \<in> set bs. path_comp d" "\<forall>a \<in> set bytes. a < 256" "\<forall>a \<in> set bytes'. a < 256"
    using assms by (auto simp: list_all_iff)
  note n = newCgroupExec_Inr [OF assms(1,3) b(1), unfolded option.sel, OF b(2)]
    newCgroupExec_Inr [OF assms(2,3) b(1), unfolded option.sel, OF b(3)]
  have n1: "cgroupReady st" "cge_limit c = memLimit (of_nat mb)" "filepath_Dir (cge_path c) = execCgroupBase st"
    "cge_path c \<noteq> initDir_of (execCgroupBase st)"
    "cge_path c = abs_path (bs @ [cgroupPrefix @ concat (map hex_byte bytes)])"
    using n(1) by blast+
  have n2: "cge_path c' = abs_path (bs @ [cgroupPrefix @ concat (map hex_byte bytes')])"
    using n(2) by blast
  have "bytes = bytes'" if "cge_path c = cge_path c'"
  proof -
    let ?n = "\<lambda>bl. bs @ [cgroupPrefix @ concat (map hex_byte bl)]"
    have ok: "\<forall>d \<in> set (?n bytes). path_comp d" "\<forall>d \<in> set (?n bytes'). path_comp d"
      using b exec_comp by auto
    have "?n bytes = ?n bytes'"
      using that n1(5) n2 clean_list_abs_path [OF ok(1)] clean_list_abs_path [OF ok(2)] by metis
    then have "concat (map hex_byte bytes) = concat (map hex_byte bytes')" by simp
    with hex_inj [OF assms(5)] b show ?thesis by auto
  qed
  with n1 memLimit_exact(2) [OF assms(7,8)] show ?thesis by simp
qed

lemma sample_newCgroupExec:
  "newCgroupExec sample_world (Some [1, 171]) (\<lambda>_ _. True) sample_cg_ready (of_nat 512) =
     Inr \<lparr>cge_path = ''/sys/fs/cgroup/pod/temenos-exec-01ab'', cge_limit = memLimit 512\<rparr>"
proof -
  have j: "filepath_Join [''/sys/fs/cgroup/pod'', cgroupPrefix @ concat (map hex_byte [1, 171])]
      = ''/sys/fs/cgroup/pod/temenos-exec-01ab''" by code_simp
  have p: "strings_CutPrefix ''/sys/fs/cgroup/pod/temenos-exec-01ab'' cgroupRoot = (''/pod/temenos-exec-01ab'', True)"
    by code_simp
  have base: "execCgroupBase sample_cg_ready = ''/sys/fs/cgroup/pod''" "cgroupReady sample_cg_ready"
    by (simp_all add: sample_cg_ready_def)
  show ?thesis
    unfolding newCgroupExec_def shortID_def base option.map option.case Let_def
    using base(2) j p by (simp del: filepath_Join.simps)
qed

theorem exec_cgroup_placed_witness:
  "sint (memLimit 512) = 536870912 \<and> filepath_Dir ''/sys/fs/cgroup/pod/temenos-exec-01ab'' = ''/sys/fs/cgroup/pod''"
  using exec_cgroup_placed [OF sample_newCgroupExec sample_newCgroupExec, of "[''sys'', ''fs'', ''cgroup'', ''pod'']"]
  by (simp add: sample_cg_ready_def abs_path_def path_comp_def)

end
