(* ===== verification/Exec.thy ===== *)
theory Exec
  imports EnvPolicy Bwrap Templates Cgroup
begin

text \<open>
  Running a command: \<open>runCmdWithHook\<close>, \<open>truncate\<close> and \<open>effectiveTimeout\<close> of
  \<open>sandbox/sandbox.go\<close>, the \<open>Exec\<close> methods of the four backends (\<open>bwrap.go\<close> with
  \<open>cgroup_bwrap.go\<close>, \<open>seatbelt.go\<close>, \<open>noop.go\<close>, \<open>unavailable.go\<close>) and the constructors
  \<open>New\<close> of both platforms. The operating system is a parameter: what starting a command leads
  to is a function of the prepared command, and each effect of the code is an event of a
  trace. The locale \<open>sandbox_backend\<close> states what every backend promises.
\<close>

section \<open>Commands and outcomes\<close>

record command =
  cmd_path :: string
  cmd_args :: "string list"
  cmd_env :: "string list"
  cmd_dir :: string
  cmd_timeout :: duration
  cmd_cgroup :: "string option"

datatype ctx_error = DeadlineExceeded | Canceled

datatype wait_result = Wait_ok | Wait_exit int | Wait_failed

text \<open>What the code observes of a started process; \<open>po_ctx\<close> is \<open>ctx.Err()\<close> after the wait.\<close>

record proc_outcome =
  po_pid :: nat
  po_stdout :: string
  po_stderr :: string
  po_wait :: wait_result
  po_ctx :: "ctx_error option"

datatype exec_error =
    StartFailed
  | HookFailed string
  | ContextError ctx_error
  | WaitFailed
  | TempDirFailed
  | PolicyFailed "(string \<times> string) option"
  | CgroupSetupFailed cg_error
  | OpenCgroupFailed string
  | NoSandboxAvailable string

record exec_result =
  res_stdout :: string
  res_stderr :: string
  res_code :: int
  res_err :: "exec_error option"

datatype exec_event =
    Ev_Start command bool
  | Ev_Kill nat
  | Ev_MkdirTemp string
  | Ev_RemoveAll string
  | Ev_CgroupCreate string "64 word"
  | Ev_CgroupOpen string bool
  | Ev_CgroupKill string
  | Ev_CgroupClose string
  | Ev_CgroupDelete string

text \<open>What an \<open>Exec\<close> reads of its surroundings. \<open>eh_run\<close> is \<open>None\<close> where \<open>Start\<close> fails.\<close>

record exec_env =
  eh_host :: host
  eh_tools :: "ToolDir list"
  eh_run :: "command \<Rightarrow> proc_outcome option"
  eh_cg_world :: cg_world
  eh_random :: "nat list option"
  eh_mgr_ok :: "string \<Rightarrow> 64 word \<Rightarrow> bool"
  eh_open_ok :: "string \<Rightarrow> bool"
  eh_tempdir :: "string option"
  eh_cachedir :: "string option"

section \<open>Definitions\<close>

definition maxOutputBytes :: nat where
  "maxOutputBytes = 64 * 1024"

definition DefaultTimeout :: duration where
  "DefaultTimeout = 120 * seconds_ns"

definition Seconds :: "go_int \<Rightarrow> duration" where
  "Seconds s = s * seconds_ns"

definition truncation_marker :: string where
  "truncation_marker = nl @ ''[output truncated]''"

definition truncate_output :: "string \<Rightarrow> nat \<Rightarrow> string" where
  "truncate_output s maxBytes =
     (if length s \<le> maxBytes then s else take maxBytes s @ truncation_marker)"

definition effectiveTimeout :: "duration \<Rightarrow> duration" where
  "effectiveTimeout d = (if 0 < sint d then d else 30 * seconds_ns)"

text \<open>The error result of the code: no output, exit code -1.\<close>

definition failed :: "exec_error \<Rightarrow> exec_result" where
  "failed e = \<lparr>res_stdout = [], res_stderr = [], res_code = -1, res_err = Some e\<rparr>"

definition runCmdWithHook :: "(command \<Rightarrow> proc_outcome option) \<Rightarrow> command \<Rightarrow>
    (nat \<Rightarrow> string option) option \<Rightarrow> exec_result \<times> exec_event list" where
  "runCmdWithHook run cmd postStart =
     (case run cmd of None \<Rightarrow> (failed StartFailed, [Ev_Start cmd False])
      | Some po \<Rightarrow>
          (case (case postStart of None \<Rightarrow> None | Some hook \<Rightarrow> hook (po_pid po)) of
             Some hookErr \<Rightarrow> (failed (HookFailed hookErr), [Ev_Start cmd True, Ev_Kill (po_pid po)])
           | None \<Rightarrow>
               (let out = truncate_output (po_stdout po) maxOutputBytes;
                    err = truncate_output (po_stderr po) maxOutputBytes;
                    res = (\<lambda>code e. \<lparr>res_stdout = out, res_stderr = err, res_code = code, res_err = e\<rparr>)
                in (case po_ctx po of Some ce \<Rightarrow> res (-1) (Some (ContextError ce))
                    | None \<Rightarrow>
                        (case po_wait po of
                           Wait_exit code \<Rightarrow> res code None
                         | Wait_failed \<Rightarrow> res (-1) (Some WaitFailed)
                         | Wait_ok \<Rightarrow> res 0 None),
                    [Ev_Start cmd True]))))"

definition runCmd :: "(command \<Rightarrow> proc_outcome option) \<Rightarrow> command \<Rightarrow> exec_result \<times> exec_event list" where
  "runCmd run cmd = runCmdWithHook run cmd None"

subsection \<open>NoopSandbox and UnavailableSandbox\<close>

record NoopSandbox =
  np_Timeout :: duration

definition NoopSandbox_Exec :: "NoopSandbox \<Rightarrow> exec_env \<Rightarrow> string \<Rightarrow> ExecConfig option \<Rightarrow>
    exec_result \<times> exec_event list" where
  "NoopSandbox_Exec n E com cfg =
     (let cmd = \<lparr>cmd_path = ''bash'', cmd_args = [''-c'', com],
                 cmd_env = buildEnv (eh_tools E) cfg [],
                 cmd_dir = (case cfg of None \<Rightarrow> [] | Some c \<Rightarrow> WorkingDir c),
                 cmd_timeout = effectiveTimeout (np_Timeout n), cmd_cgroup = None\<rparr>
      in runCmd (eh_run E) cmd)"

record UnavailableSandbox =
  un_Platform :: string

definition UnavailableSandbox_Exec :: "UnavailableSandbox \<Rightarrow> exec_env \<Rightarrow> string \<Rightarrow> ExecConfig option \<Rightarrow>
    exec_result \<times> exec_event list" where
  "UnavailableSandbox_Exec u E com cfg = (failed (NoSandboxAvailable (un_Platform u)), [])"

subsection \<open>SeatbeltSandbox\<close>

record SeatbeltSandbox =
  sb_Timeout :: duration

definition SeatbeltSandbox_Exec :: "SeatbeltSandbox \<Rightarrow> exec_env \<Rightarrow> string \<Rightarrow> ExecConfig option \<Rightarrow>
    exec_result \<times> exec_event list" where
  "SeatbeltSandbox_Exec s E com cfg =
     (case eh_tempdir E of None \<Rightarrow> (failed TempDirFailed, [])
      | Some tmpDir \<Rightarrow>
          (let (r, evs) =
                 (case buildPolicy (eh_host E) (eh_tools E) seatbeltBase seatbeltPlatform seatbeltNetwork
                     (eh_cachedir E) cfg of
                    Inl e \<Rightarrow> (failed (PolicyFailed e), [])
                  | Inr (policy, dParams) \<Rightarrow>
                      runCmd (eh_run E)
                        \<lparr>cmd_path = ''/usr/bin/sandbox-exec'',
                         cmd_args = [''-p'', policy] @ dParams @ [''--'', ''bash'', ''-c'', com],
                         cmd_env = buildEnv (eh_tools E) cfg tmpDir,
                         cmd_dir = (case cfg of None \<Rightarrow> tmpDir
                           | Some c \<Rightarrow> if WorkingDir c \<noteq> [] then WorkingDir c else tmpDir),
                         cmd_timeout = effectiveTimeout (sb_Timeout s), cmd_cgroup = None\<rparr>)
           in (r, Ev_MkdirTemp tmpDir # evs @ [Ev_RemoveAll tmpDir])))"

subsection \<open>BwrapSandbox\<close>

text \<open>\<open>cleanup\<close>, deferred once the cgroup exists; \<open>opened\<close> tells whether its fd is set.\<close>

definition cgroup_cleanup :: "string \<Rightarrow> bool \<Rightarrow> exec_event list" where
  "cgroup_cleanup path opened =
     [Ev_CgroupKill path] @ (if opened then [Ev_CgroupClose path] else []) @ [Ev_CgroupDelete path]"

text \<open>\<open>execWithCgroup\<close>: the command with the cgroup attached, \<open>None\<close> where the open fails.\<close>

definition execWithCgroup :: "exec_env \<Rightarrow> command \<Rightarrow> cgroupExec \<Rightarrow> command option" where
  "execWithCgroup E cmd cg =
     (if eh_open_ok E (cge_path cg) then Some (cmd\<lparr>cmd_cgroup := Some (cge_path cg)\<rparr>) else None)"

definition bwrap_command :: "BwrapSandbox \<Rightarrow> exec_env \<Rightarrow> string \<Rightarrow> ExecConfig option \<Rightarrow> command" where
  "bwrap_command s E com cfg =
     \<lparr>cmd_path = BwrapPath s, cmd_args = buildArgs (eh_host E) (eh_tools E) s com cfg,
      cmd_env = buildEnv (eh_tools E) cfg ''/home/agent'', cmd_dir = [],
      cmd_timeout = effectiveTimeout (bw_Timeout s), cmd_cgroup = None\<rparr>"

definition BwrapSandbox_Exec :: "BwrapSandbox \<Rightarrow> exec_env \<Rightarrow> cg_state \<Rightarrow> string \<Rightarrow> ExecConfig option \<Rightarrow>
    (exec_result \<times> exec_event list) \<times> cg_state" where
  "BwrapSandbox_Exec s E st com cfg =
     (let cmd = bwrap_command s E com cfg in
      if sint (MemoryLimitMB s) \<le> 0 then (runCmd (eh_run E) cmd, st)
      else
        let (avail, st') = cgroupAvailable (eh_cg_world E) st in
        if \<not> avail then (runCmd (eh_run E) cmd, st')
        else
          (case newCgroupExec (eh_cg_world E) (eh_random E) (eh_mgr_ok E) st' (MemoryLimitMB s) of
             Inl e \<Rightarrow> ((failed (CgroupSetupFailed e), []), st')
           | Inr cg \<Rightarrow>
               (let created = Ev_CgroupCreate (cge_path cg) (cge_limit cg) in
                case execWithCgroup E cmd cg of
                  None \<Rightarrow> ((failed (OpenCgroupFailed (cge_path cg)),
                     [created, Ev_CgroupOpen (cge_path cg) False] @ cgroup_cleanup (cge_path cg) False), st')
                | Some cmd' \<Rightarrow>
                    (let (r, evs) = runCmd (eh_run E) cmd' in
                     ((r, [created, Ev_CgroupOpen (cge_path cg) True] @ evs @ cgroup_cleanup (cge_path cg) True), st')))))"

subsection \<open>The constructors\<close>

record Options =
  op_BwrapPath :: string
  op_Timeout :: duration
  AllowUnsandboxed :: bool
  op_MemoryLimitMB :: go_int
  op_KubernetesMode :: bool

datatype Sandbox =
    IsBwrap BwrapSandbox | IsSeatbelt SeatbeltSandbox | IsNoop NoopSandbox | IsUnavailable UnavailableSandbox

text \<open>\<open>found\<close>: whether \<open>exec.LookPath\<close> finds the program of that name.\<close>

definition New_linux :: "(string \<Rightarrow> bool) \<Rightarrow> host \<Rightarrow> Options \<Rightarrow> Sandbox" where
  "New_linux found h opts =
     (let sbx = \<lparr>BwrapPath = (if op_BwrapPath opts \<noteq> [] then op_BwrapPath opts else ''bwrap''),
                 bw_Timeout = op_Timeout opts, MemoryLimitMB = op_MemoryLimitMB opts,
                 KubernetesMode = op_KubernetesMode opts\<rparr>
      in if found (BwrapPath sbx) then IsBwrap sbx
         else if AllowUnsandboxed opts then IsNoop \<lparr>np_Timeout = op_Timeout opts\<rparr>
         else IsUnavailable \<lparr>un_Platform = goos h\<rparr>)"

definition SeatbeltSandbox_IsAvailable :: "host \<Rightarrow> bool" where
  "SeatbeltSandbox_IsAvailable h \<longleftrightarrow> stat_path h ''/usr/bin/sandbox-exec'' = Stat_ok"

definition New_darwin :: "host \<Rightarrow> Options \<Rightarrow> Sandbox" where
  "New_darwin h opts =
     (if SeatbeltSandbox_IsAvailable h then IsSeatbelt \<lparr>sb_Timeout = op_Timeout opts\<rparr>
      else if AllowUnsandboxed opts then IsNoop \<lparr>np_Timeout = op_Timeout opts\<rparr>
      else IsUnavailable \<lparr>un_Platform = goos h\<rparr>)"

text \<open>\<open>LoadConfig\<close>, with the constructor of the platform as the argument \<open>new\<close>.\<close>

definition LoadConfig :: "(Options \<Rightarrow> Sandbox) \<Rightarrow> host \<Rightarrow> (string \<Rightarrow> string + Config) \<Rightarrow> string \<Rightarrow>
    config_error + Config \<times> Sandbox" where
  "LoadConfig new h toml_DecodeFile path =
     (case Load h toml_DecodeFile path of Inl e \<Rightarrow> Inl e
      | Inr cfg \<Rightarrow> Inr (cfg, new \<lparr>op_BwrapPath = [], op_Timeout = DefaultTimeout, AllowUnsandboxed = False,
          op_MemoryLimitMB = 0, op_KubernetesMode = False\<rparr>))"

fun Sandbox_IsAvailable :: "(string \<Rightarrow> bool) \<Rightarrow> host \<Rightarrow> Sandbox \<Rightarrow> bool" where
  "Sandbox_IsAvailable found h (IsBwrap s) = found (BwrapPath s)"
| "Sandbox_IsAvailable found h (IsSeatbelt s) = SeatbeltSandbox_IsAvailable h"
| "Sandbox_IsAvailable found h (IsNoop n) = True"
| "Sandbox_IsAvailable found h (IsUnavailable u) = False"

text \<open>A call of the interface method \<open>Exec\<close>; only bubblewrap uses the cgroup state.\<close>

fun Sandbox_Exec :: "Sandbox \<Rightarrow> exec_env \<Rightarrow> cg_state \<Rightarrow> string \<Rightarrow> ExecConfig option \<Rightarrow>
    (exec_result \<times> exec_event list) \<times> cg_state" where
  "Sandbox_Exec (IsBwrap s) E st com cfg = BwrapSandbox_Exec s E st com cfg"
| "Sandbox_Exec (IsSeatbelt s) E st com cfg = (SeatbeltSandbox_Exec s E com cfg, st)"
| "Sandbox_Exec (IsNoop n) E st com cfg = (NoopSandbox_Exec n E com cfg, st)"
| "Sandbox_Exec (IsUnavailable u) E st com cfg = (UnavailableSandbox_Exec u E com cfg, st)"

section \<open>What every backend promises\<close>

datatype resource = Res_dir string | Res_cgroup string | Res_fd string

text \<open>The resources still held after a trace.\<close>

fun held :: "exec_event list \<Rightarrow> resource set \<Rightarrow> resource set" where
  "held [] H = H"
| "held (Ev_MkdirTemp p # evs) H = held evs (insert (Res_dir p) H)"
| "held (Ev_RemoveAll p # evs) H = held evs (H - {Res_dir p})"
| "held (Ev_CgroupCreate p l # evs) H = held evs (insert (Res_cgroup p) H)"
| "held (Ev_CgroupOpen p ok # evs) H = held evs (if ok then insert (Res_fd p) H else H)"
| "held (Ev_CgroupClose p # evs) H = held evs (H - {Res_fd p})"
| "held (Ev_CgroupDelete p # evs) H = held evs (H - {Res_cgroup p})"
| "held (Ev_Start c ok # evs) H = held evs H"
| "held (Ev_Kill n # evs) H = held evs H"
| "held (Ev_CgroupKill p # evs) H = held evs H"

fun starts :: "exec_event list \<Rightarrow> command list" where
  "starts [] = []"
| "starts (Ev_Start c ok # evs) = c # starts evs"
| "starts (ev # evs) = starts evs"

lemma held_append: "held (xs @ ys) H = held ys (held xs H)"
  by (induction xs H rule: held.induct) auto

lemma starts_append: "starts (xs @ ys) = starts xs @ starts ys"
  by (induction xs rule: starts.induct) auto

definition output_limit :: nat where
  "output_limit = maxOutputBytes + length truncation_marker"

lemma truncate_output_length: "length (truncate_output s n) \<le> n + length truncation_marker"
  by (simp add: truncate_output_def)

lemma truncate_output_prefix: "length s \<le> n \<Longrightarrow> truncate_output s n = s"
  "n < length s \<Longrightarrow> truncate_output s n = take n s @ truncation_marker"
  by (simp_all add: truncate_output_def)

lemma effectiveTimeout_pos: "0 < sint (effectiveTimeout d)"
  by (auto simp: effectiveTimeout_def seconds_ns_def)

locale sandbox_backend =
  fixes exec :: "exec_env \<Rightarrow> string \<Rightarrow> ExecConfig option \<Rightarrow> exec_result \<times> exec_event list"
  assumes bounded:
      "length (res_stdout (fst (exec E com cfg))) \<le> output_limit
       \<and> length (res_stderr (fst (exec E com cfg))) \<le> output_limit"
    and error_code: "res_err (fst (exec E com cfg)) \<noteq> None \<Longrightarrow> res_code (fst (exec E com cfg)) = -1"
    and started: "res_err (fst (exec E com cfg)) = None \<Longrightarrow> starts (snd (exec E com cfg)) \<noteq> []"
    and starts_once: "length (starts (snd (exec E com cfg))) \<le> 1"
    and timeout: "cmd \<in> set (starts (snd (exec E com cfg))) \<Longrightarrow> 0 < sint (cmd_timeout cmd)"
    and env: "cmd \<in> set (starts (snd (exec E com cfg))) \<Longrightarrow>
      \<exists>fb. cmd_env cmd = buildEnv (eh_tools E) cfg fb"
    and released: "held (snd (exec E com cfg)) {} = {}"
begin

lemma exit_code_means_run:
  assumes "res_code (fst (exec E com cfg)) \<noteq> -1"
  shows "res_err (fst (exec E com cfg)) = None \<and> (\<exists>cmd. starts (snd (exec E com cfg)) = [cmd])"
proof -
  have ok: "res_err (fst (exec E com cfg)) = None" using assms error_code by blast
  from started [OF ok] starts_once [of E com cfg] have "\<exists>cmd. starts (snd (exec E com cfg)) = [cmd]"
    by (cases "starts (snd (exec E com cfg))") auto
  with ok show ?thesis by blast
qed

lemma run_env:
  assumes "cmd \<in> set (starts (snd (exec E com (Some c))))" "gomap_ok m" "Env c = envMapToSlice m"
    and "\<forall>kv \<in> set m. CHR ''='' \<notin> set (fst kv)"
  shows "\<exists>fb. \<forall>k. exec_env_lookup (cmd_env cmd) k =
    (case map_of m k of Some v \<Rightarrow> Some v | None \<Rightarrow> builtin_env (eh_tools E) fb k)"
  using env [OF assms(1)] buildEnv_lookup [OF assms(2,4,3)] by metis

end

lemma failed_simps [simp]:
  "res_stdout (failed e) = []" "res_stderr (failed e) = []" "res_code (failed e) = -1" "res_err (failed e) = Some e"
  by (simp_all add: failed_def)

lemma runCmd_cases:
  obtains (start) "run cmd = None" "runCmd run cmd = (failed StartFailed, [Ev_Start cmd False])"
  | (ran) po code e where "run cmd = Some po" "e \<noteq> None \<Longrightarrow> code = -1"
      "runCmd run cmd = (\<lparr>res_stdout = truncate_output (po_stdout po) maxOutputBytes,
         res_stderr = truncate_output (po_stderr po) maxOutputBytes, res_code = code, res_err = e\<rparr>,
         [Ev_Start cmd True])"
proof (cases "run cmd")
  case None
  then show ?thesis using start by (simp add: runCmd_def runCmdWithHook_def)
next
  case (Some po)
  show ?thesis
    using ran [OF Some] Some
    by (cases "po_ctx po"; cases "po_wait po") (auto simp: runCmd_def runCmdWithHook_def Let_def)
qed

lemma runCmd_promises:
  "length (res_stdout (fst (runCmd run cmd))) \<le> output_limit"
  "length (res_stderr (fst (runCmd run cmd))) \<le> output_limit"
  "res_err (fst (runCmd run cmd)) \<noteq> None \<Longrightarrow> res_code (fst (runCmd run cmd)) = -1"
  "starts (snd (runCmd run cmd)) = [cmd]"
  "held (snd (runCmd run cmd)) H = H"
  by (cases rule: runCmd_cases [of run cmd];
      simp add: output_limit_def truncate_output_length)+

lemma NoopSandbox_backend: "sandbox_backend (NoopSandbox_Exec n)"
  by unfold_locales
    (auto simp: NoopSandbox_Exec_def Let_def runCmd_promises effectiveTimeout_pos)

interpretation noop: sandbox_backend "NoopSandbox_Exec n" for n
  by (rule NoopSandbox_backend)

lemma UnavailableSandbox_backend: "sandbox_backend (UnavailableSandbox_Exec u)"
  by unfold_locales (auto simp: UnavailableSandbox_Exec_def)

interpretation unavailable: sandbox_backend "UnavailableSandbox_Exec u" for u
  by (rule UnavailableSandbox_backend)

lemma SeatbeltSandbox_Exec_cases:
  obtains (failed) e evs where "SeatbeltSandbox_Exec s E com cfg = (failed e, evs)" "starts evs = []" "held evs {} = {}"
  | (ran) cmd tmp where
      "SeatbeltSandbox_Exec s E com cfg =
         (fst (runCmd (eh_run E) cmd), Ev_MkdirTemp tmp # snd (runCmd (eh_run E) cmd) @ [Ev_RemoveAll tmp])"
      "0 < sint (cmd_timeout cmd)" "cmd_env cmd = buildEnv (eh_tools E) cfg tmp"
proof (cases "eh_tempdir E")
  case None
  then show ?thesis using failed(1) [of TempDirFailed "[]"] by (simp add: SeatbeltSandbox_Exec_def)
next
  case (Some tmp)
  show ?thesis
  proof (cases "buildPolicy (eh_host E) (eh_tools E) seatbeltBase seatbeltPlatform seatbeltNetwork (eh_cachedir E) cfg")
    case (Inl e)
    with Some show ?thesis using failed(1) [of "PolicyFailed e" "[Ev_MkdirTemp tmp, Ev_RemoveAll tmp]"]
      by (simp add: SeatbeltSandbox_Exec_def Let_def)
  next
    case (Inr pd)
    obtain policy dParams where "pd = (policy, dParams)" by (cases pd)
    with Some Inr show ?thesis
      by (intro ran [of "\<lparr>cmd_path = ''/usr/bin/sandbox-exec'',
                         cmd_args = [''-p'', policy] @ dParams @ [''--'', ''bash'', ''-c'', com],
                         cmd_env = buildEnv (eh_tools E) cfg tmp,
                         cmd_dir = (case cfg of None \<Rightarrow> tmp
                           | Some c \<Rightarrow> if WorkingDir c \<noteq> [] then WorkingDir c else tmp),
                         cmd_timeout = effectiveTimeout (sb_Timeout s), cmd_cgroup = None\<rparr>" tmp])
        (simp_all add: SeatbeltSandbox_Exec_def Let_def effectiveTimeout_pos split: prod.split)
  qed
qed

lemma SeatbeltSandbox_command:
  assumes "cmd \<in> set (starts (snd (SeatbeltSandbox_Exec s E com cfg)))"
  shows "\<exists>policy params. buildPolicy (eh_host E) (eh_tools E) seatbeltBase seatbeltPlatform seatbeltNetwork
      (eh_cachedir E) cfg = Inr (policy, params)
    \<and> cmd_path cmd = ''/usr/bin/sandbox-exec''
    \<and> cmd_args cmd = [''-p'', policy] @ params @ [''--'', ''bash'', ''-c'', com]"
proof -
  have run: "x = c" if "runCmd run c = (res, evs)" "x \<in> set (starts evs)" for run c res evs x
    using that runCmd_promises(4) [of run c] by (cases "starts evs") auto
  show ?thesis
    using assms by (auto simp: SeatbeltSandbox_Exec_def starts_append dest: run
        split: option.splits sum.splits prod.splits)
qed

lemma SeatbeltSandbox_starts:
  assumes "buildPolicy (eh_host E) (eh_tools E) seatbeltBase seatbeltPlatform seatbeltNetwork (eh_cachedir E) cfg
      = Inr (policy, params)" "eh_tempdir E \<noteq> None"
  shows "\<exists>cmd. cmd \<in> set (starts (snd (SeatbeltSandbox_Exec s E com cfg)))"
  using assms by (auto simp: SeatbeltSandbox_Exec_def case_prod_beta Let_def starts_append runCmd_promises)

lemma SeatbeltSandbox_backend: "sandbox_backend (SeatbeltSandbox_Exec s)"
proof
  fix E com cfg cmd
  let ?r = "SeatbeltSandbox_Exec s E com cfg"
  note c = SeatbeltSandbox_Exec_cases [of s E com cfg]
  note simps = held_append starts_append runCmd_promises
  show "length (res_stdout (fst ?r)) \<le> output_limit \<and> length (res_stderr (fst ?r)) \<le> output_limit"
    by (cases rule: c) (auto simp: simps)
  show "res_err (fst ?r) \<noteq> None \<Longrightarrow> res_code (fst ?r) = -1" by (cases rule: c) (auto simp: simps)
  show "res_err (fst ?r) = None \<Longrightarrow> starts (snd ?r) \<noteq> []" by (cases rule: c) (auto simp: simps)
  show "length (starts (snd ?r)) \<le> 1" by (cases rule: c) (auto simp: simps)
  show "cmd \<in> set (starts (snd ?r)) \<Longrightarrow> 0 < sint (cmd_timeout cmd)" by (cases rule: c) (auto simp: simps)
  show "cmd \<in> set (starts (snd ?r)) \<Longrightarrow> \<exists>fb. cmd_env cmd = buildEnv (eh_tools E) cfg fb"
    by (cases rule: c) (auto simp: simps)
  show "held (snd ?r) {} = {}" by (cases rule: c) (auto simp: simps)
qed

interpretation seatbelt: sandbox_backend "SeatbeltSandbox_Exec s" for s
  by (rule SeatbeltSandbox_backend)

text \<open>The ways a bubblewrap execution ends, with the effects of each.\<close>

lemma BwrapSandbox_Exec_cases:
  obtains
    (unlimited) "fst (BwrapSandbox_Exec s E st com cfg) = runCmd (eh_run E) (bwrap_command s E com cfg)"
      "sint (MemoryLimitMB s) \<le> 0 \<or> \<not> fst (cgroupAvailable (eh_cg_world E) st)"
  | (no_cgroup) e where "fst (BwrapSandbox_Exec s E st com cfg) = (failed (CgroupSetupFailed e), [])"
      "0 < sint (MemoryLimitMB s)" "fst (cgroupAvailable (eh_cg_world E) st)"
  | (no_open) p l where "fst (BwrapSandbox_Exec s E st com cfg) =
        (failed (OpenCgroupFailed p), [Ev_CgroupCreate p l, Ev_CgroupOpen p False, Ev_CgroupKill p, Ev_CgroupDelete p])"
      "0 < sint (MemoryLimitMB s)" "fst (cgroupAvailable (eh_cg_world E) st)"
  | (limited) p l cg where "newCgroupExec (eh_cg_world E) (eh_random E) (eh_mgr_ok E)
        (snd (cgroupAvailable (eh_cg_world E) st)) (MemoryLimitMB s) = Inr cg" "p = cge_path cg" "l = cge_limit cg"
      "fst (BwrapSandbox_Exec s E st com cfg) =
        (let r = runCmd (eh_run E) (bwrap_command s E com cfg\<lparr>cmd_cgroup := Some p\<rparr>) in
         (fst r, [Ev_CgroupCreate p l, Ev_CgroupOpen p True] @ snd r
            @ [Ev_CgroupKill p, Ev_CgroupClose p, Ev_CgroupDelete p]))"
      "0 < sint (MemoryLimitMB s)" "fst (cgroupAvailable (eh_cg_world E) st)"
proof (cases "sint (MemoryLimitMB s) \<le> 0")
  case True
  then show ?thesis using unlimited by (simp add: BwrapSandbox_Exec_def Let_def)
next
  case pos: False
  obtain avail st' where av: "cgroupAvailable (eh_cg_world E) st = (avail, st')" by fastforce
  show ?thesis
  proof (cases avail)
    case False
    with av pos show ?thesis using unlimited by (simp add: BwrapSandbox_Exec_def Let_def)
  next
    case True
    show ?thesis
    proof (cases "newCgroupExec (eh_cg_world E) (eh_random E) (eh_mgr_ok E) st' (MemoryLimitMB s)")
      case (Inl e)
      with av pos True show ?thesis using no_cgroup by (simp add: BwrapSandbox_Exec_def Let_def)
    next
      case (Inr cg)
      show ?thesis
      proof (cases "eh_open_ok E (cge_path cg)")
        case False
        with av pos True Inr show ?thesis
          by (intro no_open [of "cge_path cg" "cge_limit cg"])
            (simp_all add: BwrapSandbox_Exec_def Let_def execWithCgroup_def cgroup_cleanup_def)
      next
        case open_ok: True
        with av pos True Inr show ?thesis
          by (intro limited [of cg "cge_path cg" "cge_limit cg"])
            (simp_all add: BwrapSandbox_Exec_def Let_def execWithCgroup_def cgroup_cleanup_def split: prod.split)
      qed
    qed
  qed
qed

lemma bwrap_command_simps [simp]:
  "cmd_timeout (bwrap_command s E com cfg) = effectiveTimeout (bw_Timeout s)"
  "cmd_env (bwrap_command s E com cfg) = buildEnv (eh_tools E) cfg ''/home/agent''"
  "cmd_args (bwrap_command s E com cfg) = buildArgs (eh_host E) (eh_tools E) s com cfg"
  "cmd_path (bwrap_command s E com cfg) = BwrapPath s"
  "cmd_cgroup (bwrap_command s E com cfg) = None"
  by (simp_all add: bwrap_command_def)

lemma BwrapSandbox_backend: "sandbox_backend (\<lambda>E com cfg. fst (BwrapSandbox_Exec s E st com cfg))"
proof
  fix E com cfg cmd
  let ?r = "fst (BwrapSandbox_Exec s E st com cfg)"
  note c = BwrapSandbox_Exec_cases [of s E st com cfg]
  note simps = held_append starts_append runCmd_promises effectiveTimeout_pos Let_def
  show "length (res_stdout (fst ?r)) \<le> output_limit \<and> length (res_stderr (fst ?r)) \<le> output_limit"
    by (cases rule: c) (auto simp: simps)
  show "res_err (fst ?r) \<noteq> None \<Longrightarrow> res_code (fst ?r) = -1" by (cases rule: c) (auto simp: simps)
  show "res_err (fst ?r) = None \<Longrightarrow> starts (snd ?r) \<noteq> []" by (cases rule: c) (auto simp: simps)
  show "length (starts (snd ?r)) \<le> 1" by (cases rule: c) (auto simp: simps)
  show "cmd \<in> set (starts (snd ?r)) \<Longrightarrow> 0 < sint (cmd_timeout cmd)" by (cases rule: c) (auto simp: simps)
  show "cmd \<in> set (starts (snd ?r)) \<Longrightarrow> \<exists>fb. cmd_env cmd = buildEnv (eh_tools E) cfg fb"
    by (cases rule: c) (auto simp: simps)
  show "held (snd ?r) {} = {}" by (cases rule: c) (auto simp: simps)
qed

interpretation bwrap: sandbox_backend "\<lambda>E com cfg. fst (BwrapSandbox_Exec s E st com cfg)" for s st
  by (rule BwrapSandbox_backend)

lemma Sandbox_backend: "sandbox_backend (\<lambda>E com cfg. fst (Sandbox_Exec sb E st com cfg))"
  by (cases sb)
    (simp_all only: Sandbox_Exec.simps fst_conv BwrapSandbox_backend SeatbeltSandbox_backend
      NoopSandbox_backend UnavailableSandbox_backend)

interpretation sandbox: sandbox_backend "\<lambda>E com cfg. fst (Sandbox_Exec sb E st com cfg)" for sb st
  by (rule Sandbox_backend)

text \<open>With a usable cgroup, a limited sandbox runs its command only inside a fresh cgroup.\<close>

lemma BwrapSandbox_limited:
  assumes "0 < sint (MemoryLimitMB s)" "fst (cgroupAvailable (eh_cg_world E) st)"
    and "cmd \<in> set (starts (snd (fst (BwrapSandbox_Exec s E st com cfg))))"
  shows "\<exists>p pre post. cmd_cgroup cmd = Some p \<and> cmd_args cmd = buildArgs (eh_host E) (eh_tools E) s com cfg
    \<and> snd (fst (BwrapSandbox_Exec s E st com cfg)) =
        [Ev_CgroupCreate p (memLimit (MemoryLimitMB s)), Ev_CgroupOpen p True] @ pre
        @ [Ev_CgroupKill p, Ev_CgroupClose p, Ev_CgroupDelete p] \<and> starts pre = [cmd]"
proof (cases rule: BwrapSandbox_Exec_cases [of s E st com cfg])
  case (limited p l cg)
  have "l = memLimit (MemoryLimitMB s)"
    using limited(1,3) by (auto simp: newCgroupExec_def Let_def split: if_splits option.splits prod.splits)
  with limited(4) assms(3) show ?thesis
    by (auto simp: Let_def starts_append runCmd_promises)
qed (use assms in \<open>auto simp: runCmd_promises\<close>)

lemma New_linux_available: "Sandbox_IsAvailable found h (New_linux found h opts) \<or>
    (\<not> AllowUnsandboxed opts \<and> New_linux found h opts = IsUnavailable \<lparr>un_Platform = goos h\<rparr>)"
  by (auto simp: New_linux_def Let_def)

section \<open>Properties\<close>

text \<open>
  C24. Every sandbox that \<open>New\<close> can return keeps the contract of the interface, in every
  environment: outputs are at most 64 KiB and the marker, an error comes with exit code -1,
  success means the command was started, at most one process is started, each under a positive
  time limit, and every temporary directory, cgroup and descriptor taken is given back, also on
  the error paths.
\<close>

theorem sandbox_contract:
  "let (res, evs) = fst (Sandbox_Exec sb E st com cfg) in
     length (res_stdout res) \<le> output_limit \<and> length (res_stderr res) \<le> output_limit
     \<and> (case res_err res of None \<Rightarrow> length (starts evs) = 1
        | Some e \<Rightarrow> res_code res = -1 \<and> length (starts evs) \<le> 1)
     \<and> list_all (\<lambda>cmd. 0 < sint (cmd_timeout cmd)) (starts evs) \<and> held evs {} = {}"
proof -
  let ?r = "fst (Sandbox_Exec sb E st com cfg)"
  have "res_err (fst ?r) \<noteq> None \<or> length (starts (snd ?r)) = 1"
    using sandbox.started [of sb E st com cfg] sandbox.starts_once [of sb E st com cfg]
    by (cases "starts (snd ?r)") auto
  moreover have "res_err (fst ?r) = None \<or> res_code (fst ?r) = -1"
    using sandbox.error_code [of sb E st com cfg] by blast
  moreover have "\<forall>cmd \<in> set (starts (snd ?r)). 0 < sint (cmd_timeout cmd)"
    using sandbox.timeout [of _ sb E st com cfg] by blast
  ultimately show ?thesis
    using sandbox.bounded [of sb E st com cfg] sandbox.starts_once [of sb E st com cfg]
      sandbox.released [of sb E st com cfg]
    by (cases "res_err (fst ?r)") (simp_all add: case_prod_beta list_all_iff)
qed

section \<open>Sample values\<close>

definition sample_env :: exec_env where
  "sample_env = \<lparr>eh_host = sample_host, eh_tools = [],
     eh_run = (\<lambda>_. Some \<lparr>po_pid = 7, po_stdout = ''hi'', po_stderr = [], po_wait = Wait_ok, po_ctx = None\<rparr>),
     eh_cg_world = sample_world, eh_random = Some [1, 171], eh_mgr_ok = (\<lambda>_ _. True), eh_open_ok = (\<lambda>_. True),
     eh_tempdir = Some ''/tmp/x'', eh_cachedir = Some ''/c''\<rparr>"

lemma sample_available: "cgroupAvailable sample_world sample_cg_ready = (True, sample_cg_ready)"
  by (simp add: cgroupAvailable_def cgroupV2Reason_def sample_cg_ready_def)

lemma sample_limited_starts:
  assumes l: "MemoryLimitMB s = 512"
  shows "bwrap_command s sample_env com cfg\<lparr>cmd_cgroup := Some ''/sys/fs/cgroup/pod/temenos-exec-01ab''\<rparr>
     \<in> set (starts (snd (fst (BwrapSandbox_Exec s sample_env sample_cg_ready com cfg))))"
proof -
  have n: "newCgroupExec sample_world (Some [1, 171]) (\<lambda>_ _. True) sample_cg_ready 512 =
      Inr \<lparr>cge_path = ''/sys/fs/cgroup/pod/temenos-exec-01ab'', cge_limit = memLimit 512\<rparr>"
    using sample_newCgroupExec by simp
  have e: "eh_cg_world sample_env = sample_world" "eh_random sample_env = Some [1, 171]"
    "eh_mgr_ok sample_env = (\<lambda>_ _. True)" "eh_open_ok sample_env = (\<lambda>_. True)" by (simp_all add: sample_env_def)
  show ?thesis
    unfolding BwrapSandbox_Exec_def Let_def l e sample_available prod.case n
    by (simp add: execWithCgroup_def e starts_append runCmd_promises split: prod.split)
      (metis list.set_intros(1) runCmd_promises(4) snd_conv)
qed

end
