(* ===== verification/GoUtf8.thy ===== *)
theory GoUtf8
  imports GoMatch
begin

text \<open>
  Byte strings as sequences of runes: what \<open>range\<close> over a Go string, \<open>encoding/xml\<close> and
  \<open>encoding/json\<close> see of them. A string is cut into its runes, an invalid byte being a rune of
  its own; it is valid where no such byte occurs. Both encoders replace invalid bytes by the
  replacement character, which is \<open>utf8_coerce\<close>.
\<close>

section \<open>Runes of a string\<close>

lemma decode_rune_bounds:
  "s \<noteq> [] \<Longrightarrow> snd (decode_rune s) \<le> length s"
  by (auto simp: decode_rune_def Let_def split: list.splits)

function runes :: "string \<Rightarrow> (nat \<times> string) list" where
  "runes s = (if s = [] then []
     else (fst (decode_rune s), take (snd (decode_rune s)) s) # runes (drop (snd (decode_rune s)) s))"
  by pat_completeness auto
termination
  by (relation "measure length") (use decode_rune_width in auto)

declare runes.simps [simp del]

lemma runes_Nil [simp]: "runes [] = []"
  by (simp add: runes.simps)

lemma runes_not_Nil: "s \<noteq> [] \<Longrightarrow>
  runes s = (fst (decode_rune s), take (snd (decode_rune s)) s) # runes (drop (snd (decode_rune s)) s)"
  by (subst runes.simps) simp

lemma concat_runes: "concat (map snd (runes s)) = s"
proof (induction s rule: runes.induct)
  case (1 s)
  then show ?case by (cases "s = []") (simp_all add: runes_not_Nil)
qed

text \<open>The replacement character in UTF-8, and whether a rune stands for an invalid byte.\<close>

definition utf8_error :: string where
  "utf8_error = [CHR 0xEF, CHR 0xBF, CHR 0xBD]"

definition rune_ok :: "nat \<times> string \<Rightarrow> bool" where
  "rune_ok rb \<longleftrightarrow> \<not> (fst rb = rune_error \<and> length (snd rb) = 1)"

definition valid_utf8 :: "string \<Rightarrow> bool" where
  "valid_utf8 s \<longleftrightarrow> list_all rune_ok (runes s)"

definition utf8_coerce :: "string \<Rightarrow> string" where
  "utf8_coerce s = concat (map (\<lambda>rb. if rune_ok rb then snd rb else utf8_error) (runes s))"

section \<open>Valid strings\<close>

lemma decode_rune_stable:
  assumes "s \<noteq> []" "rune_ok (fst (decode_rune s), take (snd (decode_rune s)) s)"
  shows "decode_rune (take (snd (decode_rune s)) s @ t) = decode_rune s"
proof -
  obtain c u where s: "s = c # u" using assms(1) by (cases s) auto
  define b where "b = (of_char c :: nat)"
  note d = decode_rune_def Let_def b_def [symmetric] rune_ok_def s
  have ok: "rune_ok (fst (decode_rune (c # u)), take (snd (decode_rune (c # u))) (c # u))" using assms(2) s by simp
  consider "b < 0x80" | (two) "\<not> b < 0x80" "0xC2 \<le> b \<and> b \<le> 0xDF"
    | (three) "\<not> b < 0x80" "\<not> (0xC2 \<le> b \<and> b \<le> 0xDF)" "0xE0 \<le> b \<and> b \<le> 0xEF"
    | (four) "\<not> b < 0x80" "\<not> (0xC2 \<le> b \<and> b \<le> 0xDF)" "\<not> (0xE0 \<le> b \<and> b \<le> 0xEF)" "0xF0 \<le> b \<and> b \<le> 0xF4"
    | (bad) "\<not> b < 0x80" "\<not> (0xC2 \<le> b \<and> b \<le> 0xDF)" "\<not> (0xE0 \<le> b \<and> b \<le> 0xEF)" "\<not> (0xF0 \<le> b \<and> b \<le> 0xF4)"
    by blast
  then show ?thesis
  proof cases
    case 1
    then show ?thesis by (simp add: d)
  next
    case two
    with ok show ?thesis by (cases u; simp add: d split: if_splits)
  next
    case three
    with ok show ?thesis
      by (cases u; cases "tl u"; simp add: d split: if_splits)
  next
    case four
    with ok show ?thesis
      by (cases u; cases "tl u"; cases "tl (tl u)"; simp add: d split: if_splits)
  next
    case bad
    with ok show ?thesis by (simp add: d)
  qed
qed

lemma decode_rune_append:
  assumes "s \<noteq> []" "rune_ok (fst (decode_rune s), take (snd (decode_rune s)) s)"
  shows "decode_rune (s @ t) = decode_rune s"
proof -
  have "s @ t = take (snd (decode_rune s)) s @ (drop (snd (decode_rune s)) s @ t)"
    by (simp flip: append_assoc)
  then show ?thesis by (metis decode_rune_stable [OF assms])
qed

lemma runes_append: "valid_utf8 s \<Longrightarrow> runes (s @ t) = runes s @ runes t"
proof (induction s rule: runes.induct)
  case (1 s)
  show ?case
  proof (cases "s = []")
    case False
    then have ok: "rune_ok (fst (decode_rune s), take (snd (decode_rune s)) s)"
      "valid_utf8 (drop (snd (decode_rune s)) s)"
      using "1.prems" by (simp_all add: valid_utf8_def runes_not_Nil)
    have "snd (decode_rune s) - length s = 0" using decode_rune_bounds [OF False] by simp
    then show ?thesis
      using False "1.IH" [OF False ok(2)] decode_rune_append [OF False ok(1), of t]
      by (simp add: runes_not_Nil [of s] runes_not_Nil [of "s @ t"])
  qed simp
qed

lemma valid_utf8_append: "valid_utf8 s \<Longrightarrow> valid_utf8 t \<Longrightarrow> valid_utf8 (s @ t)"
  by (simp add: valid_utf8_def runes_append [unfolded valid_utf8_def])

lemma runes_ascii: "of_char c < (0x80 :: nat) \<Longrightarrow> runes (c # s) = (of_char c, [c]) # runes s"
  by (subst runes_not_Nil) (simp_all add: decode_rune_def Let_def)

lemma runes_rune:
  assumes "s \<noteq> []" "rune_ok (fst (decode_rune s), take (snd (decode_rune s)) s)"
  shows "runes (take (snd (decode_rune s)) s) = [(fst (decode_rune s), take (snd (decode_rune s)) s)]"
proof -
  have "take (snd (decode_rune s)) s \<noteq> []" using decode_rune_width [OF assms(1)] assms(1) by simp
  with decode_rune_stable [OF assms, of "[]"] show ?thesis by (simp add: runes_not_Nil)
qed

lemma runes_single: "(r, bs) \<in> set (runes s) \<Longrightarrow> rune_ok (r, bs) \<Longrightarrow> runes bs = [(r, bs)]"
proof (induction s rule: runes.induct)
  case (1 s)
  then show ?case by (cases "s = []") (auto simp: runes_not_Nil runes_rune)
qed

lemma runes_concat:
  "(\<And>r bs. (r, bs) \<in> set rbs \<Longrightarrow> rune_ok (r, bs) \<and> runes bs = [(r, bs)]) \<Longrightarrow> runes (concat (map snd rbs)) = rbs"
proof (induction rbs)
  case (Cons rb rbs)
  obtain r bs where rb: "rb = (r, bs)" by (cases rb)
  have b: "rune_ok (r, bs)" "runes bs = [(r, bs)]" using Cons.prems [of r bs] rb by simp_all
  then have "valid_utf8 bs" by (simp add: valid_utf8_def)
  with Cons b rb show ?case by (simp add: runes_append)
qed simp

lemma ascii_valid: "(\<And>c. c \<in> set s \<Longrightarrow> of_char c < (0x80 :: nat)) \<Longrightarrow> valid_utf8 s"
proof (induction s)
  case (Cons c s)
  have "of_char c < (0x80 :: nat)" using Cons.prems by simp
  then have "runes (c # s) = (of_char c, [c]) # runes s" "rune_ok (of_char c, [c])"
    by (simp_all add: runes_ascii rune_ok_def)
  with Cons show ?case by (simp add: valid_utf8_def)
qed (simp add: valid_utf8_def)

text \<open>A rune below 0x80 is its own byte; the bytes of every other rune are 0x80 or more.\<close>

lemma decode_rune_bytes:
  assumes "s \<noteq> []"
  shows "(fst (decode_rune s) < 0x80 \<and> take (snd (decode_rune s)) s = [hd s] \<and> of_char (hd s) = fst (decode_rune s))
    \<or> (0x80 \<le> fst (decode_rune s) \<and> (\<forall>c \<in> set (take (snd (decode_rune s)) s). (0x80 :: nat) \<le> of_char c))"
proof -
  obtain c u where s: "s = c # u" using assms by (cases s) auto
  define b where "b = (of_char c :: nat)"
  note d = decode_rune_def Let_def b_def [symmetric] s in_range_def
  consider "b < 0x80" | (two) "\<not> b < 0x80" "0xC2 \<le> b \<and> b \<le> 0xDF"
    | (three) "\<not> b < 0x80" "\<not> (0xC2 \<le> b \<and> b \<le> 0xDF)" "0xE0 \<le> b \<and> b \<le> 0xEF"
    | (four) "\<not> b < 0x80" "\<not> (0xC2 \<le> b \<and> b \<le> 0xDF)" "\<not> (0xE0 \<le> b \<and> b \<le> 0xEF)" "0xF0 \<le> b \<and> b \<le> 0xF4"
    | (bad) "\<not> b < 0x80" "\<not> (0xC2 \<le> b \<and> b \<le> 0xDF)" "\<not> (0xE0 \<le> b \<and> b \<le> 0xEF)" "\<not> (0xF0 \<le> b \<and> b \<le> 0xF4)"
    by blast
  then show ?thesis
  proof cases
    case 1
    then show ?thesis by (simp add: d)
  next
    case two
    then have "2 \<le> b - 0xC0" by linarith
    then have "0x80 \<le> (b - 0xC0) * 64 + low6 x" for x by linarith
    with two show ?thesis by (cases u; simp add: d)
  next
    case three
    have big: "0x80 \<le> (b - 0xE0) * 4096 + p + q" if "b \<noteq> 0xE0" for p q
      using that three(3) mult_le_mono1 [of 1 "b - 0xE0" 4096] by linarith
    have low: "0x80 \<le> low6 x * 64 + low6 y" if "0xA0 \<le> (of_char x :: nat)" for x y
      using that by (simp add: low6_def)
    show ?thesis
    proof (cases "b = 0xE0")
      case True
      with three low show ?thesis by (cases u; cases "tl u"; simp add: d)
    next
      case False
      with three big show ?thesis by (cases u; cases "tl u"; simp add: d)
    qed
  next
    case four
    have big: "0x80 \<le> (b - 0xF0) * 262144 + p + q + r" if "b \<noteq> 0xF0" for p q r
      using that four(4) mult_le_mono1 [of 1 "b - 0xF0" 262144] by linarith
    have low: "0x80 \<le> low6 x * 4096 + low6 y * 64 + low6 z" if "0x90 \<le> (of_char x :: nat)" for x y z
      using that by (simp add: low6_def)
    show ?thesis
    proof (cases "b = 0xF0")
      case True
      with four low show ?thesis by (cases u; cases "tl u"; cases "tl (tl u)"; simp add: d)
    next
      case False
      with four big show ?thesis by (cases u; cases "tl u"; cases "tl (tl u)"; simp add: d)
    qed
  next
    case bad
    then have "decode_rune s = (rune_error, 1)"
      by (simp only: decode_rune_def s Let_def list.case b_def [symmetric] if_False)
    moreover have "0x80 \<le> (of_char c :: nat)" using bad(1) by (simp add: b_def)
    ultimately show ?thesis by (simp add: s)
  qed
qed

lemma runes_bytes:
  "(r, bs) \<in> set (runes s) \<Longrightarrow>
     (r < 0x80 \<and> bs = [char_of r]) \<or> (0x80 \<le> r \<and> (\<forall>c \<in> set bs. (0x80 :: nat) \<le> of_char c))"
proof (induction s rule: runes.induct)
  case (1 s)
  show ?case
  proof (cases "s = []")
    case False
    then have "r = fst (decode_rune s) \<and> bs = take (snd (decode_rune s)) s
        \<or> (r, bs) \<in> set (runes (drop (snd (decode_rune s)) s))"
      using "1.prems" by (simp add: runes_not_Nil)
    then show ?thesis
    proof
      assume "r = fst (decode_rune s) \<and> bs = take (snd (decode_rune s)) s"
      moreover have "of_char (hd s) = r \<Longrightarrow> hd s = char_of r" by auto
      ultimately show ?thesis using decode_rune_bytes [OF False] by auto
    qed (rule "1.IH" [OF False])
  qed (use "1.prems" in simp)
qed

lemma runes_nonempty: "(r, bs) \<in> set (runes s) \<Longrightarrow> bs \<noteq> []"
proof (induction s rule: runes.induct)
  case (1 s)
  then show ?case
    by (cases "s = []") (use decode_rune_width [of s] in \<open>auto simp: runes_not_Nil\<close>)
qed

section \<open>Coercion\<close>

lemma coerce_valid: "valid_utf8 s \<Longrightarrow> utf8_coerce s = s"
proof -
  assume "valid_utf8 s"
  then have "map (\<lambda>rb. if rune_ok rb then snd rb else utf8_error) (runes s) = map snd (runes s)"
    by (simp add: valid_utf8_def list_all_iff)
  then show ?thesis by (simp only: utf8_coerce_def concat_runes)
qed

lemma runes_error: "runes utf8_error = [(rune_error, utf8_error)]"
  by (simp add: runes_not_Nil utf8_error_def decode_rune_def in_range_def low6_def)

lemma rune_ok_error: "rune_ok (rune_error, utf8_error)"
  by (simp add: rune_ok_def utf8_error_def)

definition fix_rune :: "nat \<times> string \<Rightarrow> nat \<times> string" where
  "fix_rune rb = (if rune_ok rb then rb else (rune_error, utf8_error))"

lemma fix_rune_ok: "rune_ok (fix_rune rb)"
  by (cases rb) (simp add: fix_rune_def rune_ok_error)

lemma fix_rune_snd: "snd (fix_rune rb) = (if rune_ok rb then snd rb else utf8_error)"
  by (simp add: fix_rune_def)

lemma runes_fix_rune:
  assumes "rb \<in> set (runes s)"
  shows "runes (snd (fix_rune rb)) = [fix_rune rb]"
proof (cases "rune_ok rb")
  case True
  with assms runes_single [of "fst rb" "snd rb" s] show ?thesis by (simp add: fix_rune_def)
qed (simp add: fix_rune_def runes_error)

lemma runes_coerce: "runes (utf8_coerce s) = map fix_rune (runes s)"
proof -
  have "utf8_coerce s = concat (map snd (map fix_rune (runes s)))"
    by (simp only: utf8_coerce_def map_map comp_def fix_rune_snd)
  moreover have "runes (concat (map snd (map fix_rune (runes s)))) = map fix_rune (runes s)"
  proof (rule runes_concat)
    fix r bs
    assume "(r, bs) \<in> set (map fix_rune (runes s))"
    then obtain rb where "rb \<in> set (runes s)" "fix_rune rb = (r, bs)" by auto
    then show "rune_ok (r, bs) \<and> runes bs = [(r, bs)]"
      using runes_fix_rune [of rb s] fix_rune_ok [of rb] by simp
  qed
  ultimately show ?thesis by (simp only:)
qed

lemma valid_coerce: "valid_utf8 (utf8_coerce s)"
  unfolding valid_utf8_def runes_coerce by (simp add: list_all_iff fix_rune_ok)

lemma coerce_idem: "utf8_coerce (utf8_coerce s) = utf8_coerce s"
  by (rule coerce_valid [OF valid_coerce])

lemma valid_iff_coerce: "valid_utf8 s \<longleftrightarrow> utf8_coerce s = s"
  using coerce_valid valid_coerce by metis

lemma coerce_Nil: "utf8_coerce [] = []"
  by (simp add: utf8_coerce_def)

lemma coerce_Nil_iff [simp]: "utf8_coerce s = [] \<longleftrightarrow> s = []"
proof
  assume "utf8_coerce s = []"
  then have "runes (utf8_coerce s) = []" by simp
  then have "runes s = []" unfolding runes_coerce by (simp only: map_is_Nil_conv)
  then show "s = []" using concat_runes [of s] by (simp only: list.map concat.simps)
qed (simp add: utf8_coerce_def)

text \<open>The names of fields are ASCII, so a reader sees them as they are written.\<close>

lemma coerce_ascii: "list_all (\<lambda>c. of_char c < (0x80 :: nat)) s \<Longrightarrow> utf8_coerce s = s"
  by (rule coerce_valid, rule ascii_valid) (simp add: list_all_iff)

section \<open>Encoding a rune\<close>

text \<open>UTF-8 of a code point, as \<open>utf8.EncodeRune\<close> writes it.\<close>

definition cont_byte :: "nat \<Rightarrow> char" where
  "cont_byte n = char_of (0x80 + n mod 64)"

definition utf8_encode :: "nat \<Rightarrow> string" where
  "utf8_encode r =
     (if r < 0x80 then [char_of r]
      else if r < 0x800 then [char_of (0xC0 + r div 64), cont_byte r]
      else if r < 0x10000 then [char_of (0xE0 + r div 4096), cont_byte (r div 64), cont_byte r]
      else [char_of (0xF0 + r div 262144), cont_byte (r div 4096), cont_byte (r div 64), cont_byte r])"

lemma char_of_eq_iff: "(r :: nat) < 0x100 \<Longrightarrow> char_of r = c \<longleftrightarrow> r = of_char (c :: char)"
  by auto

text \<open>Every rune has one encoding, the one of its number.\<close>

lemma utf8_encode_2:
  assumes "2 \<le> a" "a < 32" "l < 64"
  shows "utf8_encode (a * 64 + l) = [char_of (0xC0 + a), char_of (0x80 + l)]"
  using assms by (simp add: utf8_encode_def cont_byte_def)

lemma base_64: "(r :: nat) = l + q * 64 \<Longrightarrow> l < 64 \<Longrightarrow> r div 64 = q \<and> r mod 64 = l"
  by simp

lemma utf8_encode_3:
  assumes "a < 16" "m < 64" "l < 64" "a = 0 \<Longrightarrow> 32 \<le> m"
  shows "utf8_encode (a * 4096 + m * 64 + l) = [char_of (0xE0 + a), char_of (0x80 + m), char_of (0x80 + l)]"
proof -
  define r where "r = a * 4096 + m * 64 + l"
  have "r = l + (a * 64 + m) * 64" by (simp add: r_def)
  then have "r div 64 = a * 64 + m" "r mod 64 = l" using base_64 [OF _ assms(3)] by blast+
  moreover from this have "r div 4096 = a" using assms(2) div_mult2_eq [of r 64 64] by simp
  moreover have "(a * 64 + m) mod 64 = m" using assms(2) by simp
  moreover have "0x800 \<le> r" "r < 0x10000" using assms by (cases "a = 0"; simp add: r_def)+
  ultimately show ?thesis by (simp add: r_def [symmetric] utf8_encode_def cont_byte_def)
qed

lemma utf8_encode_4:
  assumes "a < 5" "k < 64" "m < 64" "l < 64" "a = 0 \<Longrightarrow> 16 \<le> k"
  shows "utf8_encode (a * 262144 + k * 4096 + m * 64 + l)
    = [char_of (0xF0 + a), char_of (0x80 + k), char_of (0x80 + m), char_of (0x80 + l)]"
proof -
  define r where "r = a * 262144 + k * 4096 + m * 64 + l"
  have "r = l + (a * 4096 + k * 64 + m) * 64" by (simp add: r_def)
  then have d: "r div 64 = a * 4096 + k * 64 + m" "r mod 64 = l" using base_64 [OF _ assms(4)] by blast+
  have "a * 4096 + k * 64 + m = m + (a * 64 + k) * 64" by simp
  then have e: "(a * 4096 + k * 64 + m) div 64 = a * 64 + k" "(a * 4096 + k * 64 + m) mod 64 = m"
    using base_64 [OF _ assms(3)] by blast+
  have f: "r div 4096 = a * 64 + k" using d e div_mult2_eq [of r 64 64] by simp
  have g: "(a * 64 + k) div 64 = a" "(a * 64 + k) mod 64 = k" using assms(2) by simp_all
  have "r div 262144 = a" using f g div_mult2_eq [of r 4096 64] by simp
  moreover have "0x10000 \<le> r" using assms by (cases "a = 0") (simp_all add: r_def)
  ultimately show ?thesis using d e f g by (simp add: r_def [symmetric] utf8_encode_def cont_byte_def)
qed

lemma in_range_cont:
  assumes "in_range c lo hi" "0x80 \<le> lo" "hi \<le> 0xBF"
  shows "low6 c < 64" "char_of (0x80 + low6 c) = c" "lo - 0x80 \<le> low6 c"
  using assms by (auto simp: in_range_def low6_def)

lemma decode_rune_encode:
  assumes "s \<noteq> []" "rune_ok (fst (decode_rune s), take (snd (decode_rune s)) s)"
  shows "take (snd (decode_rune s)) s = utf8_encode (fst (decode_rune s))"
proof -
  obtain c t where s: "s = c # t" using assms(1) by (cases s) auto
  define b where "b = (of_char c :: nat)"
  have c: "char_of b = c" by (simp add: b_def)
  have bad: "decode_rune s \<noteq> (rune_error, 1)" using assms(2) s by (auto simp: rune_ok_def)
  note d = decode_rune_def Let_def b_def [symmetric] s
  consider (one) "b < 0x80" | (two) "0xC2 \<le> b" "b \<le> 0xDF" | (three) "0xE0 \<le> b" "b \<le> 0xEF"
    | (four) "0xF0 \<le> b" "b \<le> 0xF4" | (none) "decode_rune s = (rune_error, 1)"
    using decode_rune_def [of s] by (force simp: d)
  then show ?thesis
  proof cases
    case one
    then show ?thesis by (simp add: d utf8_encode_def c)
  next
    case two
    then obtain c1 u where t: "t = c1 # u" "in_range c1 0x80 0xBF"
      using bad by (auto simp: d split: list.splits if_splits)
    with two utf8_encode_2 [of "b - 0xC0" "low6 c1"] in_range_cont [OF t(2)] c show ?thesis by (simp add: d)
  next
    case three
    then obtain c1 c2 u where t: "t = c1 # c2 # u" "in_range c2 0x80 0xBF"
      "in_range c1 (if b = 0xE0 then 0xA0 else 0x80) (if b = 0xED then 0x9F else 0xBF)"
      using bad by (auto simp: d split: list.splits if_splits)
    with three utf8_encode_3 [of "b - 0xE0" "low6 c1" "low6 c2"] in_range_cont [OF t(2)] in_range_cont [OF t(3)] c
    show ?thesis by (simp add: d split: if_splits)
  next
    case four
    then obtain c1 c2 c3 u where t: "t = c1 # c2 # c3 # u" "in_range c2 0x80 0xBF" "in_range c3 0x80 0xBF"
      "in_range c1 (if b = 0xF0 then 0x90 else 0x80) (if b = 0xF4 then 0x8F else 0xBF)"
      using bad by (auto simp: d split: list.splits if_splits)
    with four utf8_encode_4 [of "b - 0xF0" "low6 c1" "low6 c2" "low6 c3"] in_range_cont [OF t(2)] in_range_cont [OF t(3)]
      in_range_cont [OF t(4)] c
    show ?thesis by (simp add: d split: if_splits)
  next
    case none
    with bad show ?thesis by simp
  qed
qed

lemma runes_encode: "rb \<in> set (runes s) \<Longrightarrow> rune_ok rb \<Longrightarrow> snd rb = utf8_encode (fst rb)"
proof (induction s rule: runes.induct)
  case (1 s)
  show ?case
  proof (cases "s = []")
    case False
    then consider "rb = (fst (decode_rune s), take (snd (decode_rune s)) s)"
      | "rb \<in> set (runes (drop (snd (decode_rune s)) s))"
      using "1.prems"(1) by (auto simp: runes_not_Nil)
    then show ?thesis
      by cases (use decode_rune_encode [OF False] "1.prems"(2) "1.IH" [OF False] in simp_all)
  qed (use "1.prems" in simp)
qed

end
