(* ===== verification/Json.thy ===== *)
theory Json
  imports GoUtf8
begin

text \<open>
  The text of JSON as \<open>encoding/json\<close> writes and reads it. \<open>json_text\<close> is what \<open>Marshal\<close> and an
  \<open>Encoder\<close> write of a value; \<open>json_step\<close> is the scanner, one byte at a time on a stack of the open
  arrays and objects, with its limit on nesting, and \<open>json_read\<close> what a \<open>Decoder\<close> reads: the
  first value, with whatever follows it left unread. The lemmas show that what one writes the
  other reads, the strings as valid UTF-8, and that everything read is valid UTF-8.
\<close>

section \<open>Values\<close>

text \<open>A number is an integer literal or any other literal, which no field of the code accepts.\<close>

datatype json =
    JNull
  | JBool bool
  | JInt int
  | JOtherNumber string
  | JStr string
  | JArr "json list"
  | JObj "(string \<times> json) list"

type_synonym members = "(string \<times> json) list"

section \<open>Writing\<close>

abbreviation (input) backslash :: char where "backslash \<equiv> CHR 0x5C"

abbreviation (input) quote_mark :: char where "quote_mark \<equiv> CHR 0x22"

text \<open>
  One rune of a string: an invalid byte, a character with an escape of its own, a control
  character or one that HTML reads, a line separator of JavaScript, or the rune as it is.
\<close>

definition escape_json_rune :: "nat \<times> string \<Rightarrow> string" where
  "escape_json_rune rb =
     (let r = fst rb in
      if \<not> rune_ok rb then backslash # ''ufffd''
      else if r = 0x22 then [backslash, quote_mark]
      else if r = 0x5C then [backslash, backslash]
      else if r = 0x08 then [backslash, CHR ''b'']
      else if r = 0x0C then [backslash, CHR ''f'']
      else if r = 0x0A then [backslash, CHR ''n'']
      else if r = 0x0D then [backslash, CHR ''r'']
      else if r = 0x09 then [backslash, CHR ''t'']
      else if r < 0x20 \<or> r = 0x3C \<or> r = 0x3E \<or> r = 0x26
        then backslash # ''u00'' @ [digit_char (r div 16), digit_char (r mod 16)]
      else if r = 0x2028 \<or> r = 0x2029 then backslash # ''u202'' @ [digit_char (r mod 16)]
      else snd rb)"

definition escape_json :: "string \<Rightarrow> string" where
  "escape_json s = concat (map escape_json_rune (runes s))"

definition json_string :: "string \<Rightarrow> string" where
  "json_string s = quote_mark # escape_json s @ [quote_mark]"

fun json_text :: "json \<Rightarrow> string" where
  "json_text JNull = ''null''"
| "json_text (JBool b) = (if b then ''true'' else ''false'')"
| "json_text (JInt i) = fmt_int i"
| "json_text (JOtherNumber lit) = lit"
| "json_text (JStr s) = json_string s"
| "json_text (JArr js) = ''['' @ strings_Join (map json_text js) '','' @ '']''"
| "json_text (JObj kvs) =
     CHR 0x7B # strings_Join (map (\<lambda>kv. json_string (fst kv) @ '':'' @ json_text (snd kv)) kvs) '','' @ [CHR 0x7D]"

text \<open>
  With \<open>SetIndent("", "  ")\<close>: each element and member on a line of its own, two blanks deeper than
  what it is in, and a blank after the colon of a member.
\<close>

definition indent_line :: "nat \<Rightarrow> string" where
  "indent_line d = nl @ replicate (2 * d) (CHR '' '')"

fun json_indented :: "nat \<Rightarrow> json \<Rightarrow> string" where
  "json_indented d (JArr js) = (if js = [] then ''[]''
     else ''['' @ strings_Join (map (\<lambda>j. indent_line (Suc d) @ json_indented (Suc d) j) js) '','' @ indent_line d @ '']'')"
| "json_indented d (JObj kvs) = (if kvs = [] then [CHR 0x7B, CHR 0x7D]
     else CHR 0x7B # strings_Join (map (\<lambda>kv. indent_line (Suc d) @ json_string (fst kv) @ '': ''
         @ json_indented (Suc d) (snd kv)) kvs) '','' @ indent_line d @ [CHR 0x7D])"
| "json_indented d v = json_text v"

section \<open>Reading\<close>

definition hex4 :: "string \<Rightarrow> nat" where
  "hex4 s = foldl (\<lambda>n c. 16 * n + hex_val c) 0 (take 4 s)"

definition is_surrogate :: "nat \<Rightarrow> bool" where
  "is_surrogate r \<longleftrightarrow> 0xD800 \<le> r \<and> r < 0xE000"

text \<open>The second half of a surrogate pair, if the text goes on with an escape that is one.\<close>

definition low_surrogate :: "string \<Rightarrow> nat option" where
  "low_surrogate s = (case s of b # u # h \<Rightarrow>
       if b = backslash \<and> u = CHR ''u'' \<and> 0xDC00 \<le> hex4 h \<and> hex4 h < 0xE000 then Some (hex4 h) else None
     | _ \<Rightarrow> None)"

definition escaped_char :: "char \<Rightarrow> char" where
  "escaped_char e = (if e = CHR ''b'' then CHR 0x08 else if e = CHR ''f'' then CHR 0x0C
     else if e = CHR ''n'' then CHR 0x0A else if e = CHR ''r'' then CHR 0x0D
     else if e = CHR ''t'' then CHR 0x09 else e)"

text \<open>
  The content of a string literal that the scanner has accepted, with its escapes read; a
  surrogate without its other half is the replacement character.
\<close>

fun json_unescape :: "string \<Rightarrow> string" where
  "json_unescape [] = []"
| "json_unescape (c # s) =
     (if c \<noteq> backslash then c # json_unescape s
      else (case s of [] \<Rightarrow> []
        | e # t \<Rightarrow>
          if e \<noteq> CHR ''u'' then escaped_char e # json_unescape t
          else if is_surrogate (hex4 t) then
            (if hex4 t < 0xDC00 then
               (case low_surrogate (drop 4 t) of
                  Some lo \<Rightarrow> utf8_encode (0x10000 + (hex4 t - 0xD800) * 1024 + (lo - 0xDC00)) @ json_unescape (drop 10 t)
                | None \<Rightarrow> utf8_error @ json_unescape (drop 4 t))
             else utf8_error @ json_unescape (drop 4 t))
          else utf8_encode (hex4 t) @ json_unescape (drop 4 t)))"

definition unquote :: "string \<Rightarrow> string" where
  "unquote s = utf8_coerce (json_unescape s)"

text \<open>The states of a number.\<close>

datatype numpart = N_neg | N_zero | N_int | N_dot | N_frac | N_exp_e | N_exp_sign | N_exp

definition is_digit :: "char \<Rightarrow> bool" where
  "is_digit c \<longleftrightarrow> c \<in> set ''0123456789''"

fun num_next :: "numpart \<Rightarrow> char \<Rightarrow> numpart option" where
  "num_next N_neg c = (if c = CHR ''0'' then Some N_zero else if is_digit c then Some N_int else None)"
| "num_next N_zero c = (if c = CHR ''.'' then Some N_dot else if c \<in> set ''eE'' then Some N_exp_e else None)"
| "num_next N_int c = (if is_digit c then Some N_int else if c = CHR ''.'' then Some N_dot
     else if c \<in> set ''eE'' then Some N_exp_e else None)"
| "num_next N_dot c = (if is_digit c then Some N_frac else None)"
| "num_next N_frac c = (if is_digit c then Some N_frac else if c \<in> set ''eE'' then Some N_exp_e else None)"
| "num_next N_exp_e c = (if c \<in> set ''+-'' then Some N_exp_sign else if is_digit c then Some N_exp else None)"
| "num_next N_exp_sign c = (if is_digit c then Some N_exp else None)"
| "num_next N_exp c = (if is_digit c then Some N_exp else None)"

definition num_complete :: "numpart \<Rightarrow> bool" where
  "num_complete p \<longleftrightarrow> p \<in> {N_zero, N_int, N_frac, N_exp}"

definition number_value :: "string \<Rightarrow> json" where
  "number_value lit =
     (if list_all (\<lambda>c. c \<notin> set ''.eE'') lit then
        (if lit \<noteq> [] \<and> hd lit = CHR ''-'' then JInt (- int (digits_val 10 0 (tl lit)))
         else JInt (int (digits_val 10 0 lit)))
      else JOtherNumber lit)"

text \<open>
  The open arrays and objects, innermost first, each with its members so far; an object also has
  the key whose value is being read. The state says what the next byte belongs to; a value at
  the top that has no closing bracket is done at the byte after it.
\<close>

datatype frame = InArr "json list" | InObj members string

datatype escape = No_escape | After_backslash | Hex_digits nat

datatype reading =
    Want_value | First_element | First_key | Want_key | After_key | After_value
  | In_string bool string escape
  | In_number numpart string
  | In_literal string json
  | Top_value json
  | Done_value json
  | Bad_syntax

type_synonym scanner = "reading \<times> frame list"

definition max_depth :: nat where
  "max_depth = 10000"

fun add_value :: "json \<Rightarrow> frame list \<Rightarrow> frame list" where
  "add_value v [] = []"
| "add_value v (InArr js # fs) = InArr (js @ [v]) # fs"
| "add_value v (InObj kvs k # fs) = InObj (kvs @ [(k, v)]) k # fs"

definition deliver :: "json \<Rightarrow> frame list \<Rightarrow> scanner" where
  "deliver v fs = (if fs = [] then (Top_value v, []) else (After_value, add_value v fs))"

text \<open>A closing bracket ends its value at once.\<close>

definition close_value :: "json \<Rightarrow> frame list \<Rightarrow> scanner" where
  "close_value v fs = (if fs = [] then (Done_value v, []) else (After_value, add_value v fs))"

definition open_frame :: "reading \<Rightarrow> frame \<Rightarrow> frame list \<Rightarrow> scanner" where
  "open_frame m f fs = (if length fs \<ge> max_depth then (Bad_syntax, fs) else (m, f # fs))"

definition json_space :: "char \<Rightarrow> bool" where
  "json_space c \<longleftrightarrow> c = CHR '' '' \<or> c = CHR 0x09 \<or> c = CHR 0x0D \<or> c = CHR 0x0A"

definition begin_value :: "char \<Rightarrow> frame list \<Rightarrow> scanner" where
  "begin_value c fs =
     (if c = CHR 0x7B then open_frame First_key (InObj [] []) fs
      else if c = CHR ''['' then open_frame First_element (InArr []) fs
      else if c = quote_mark then (In_string False [] No_escape, fs)
      else if c = CHR ''-'' then (In_number N_neg [c], fs)
      else if c = CHR ''0'' then (In_number N_zero [c], fs)
      else if is_digit c then (In_number N_int [c], fs)
      else if c = CHR ''t'' then (In_literal ''rue'' (JBool True), fs)
      else if c = CHR ''f'' then (In_literal ''alse'' (JBool False), fs)
      else if c = CHR ''n'' then (In_literal ''ull'' JNull, fs)
      else (Bad_syntax, fs))"

fun after_value :: "char \<Rightarrow> frame list \<Rightarrow> scanner" where
  "after_value c [] = (Bad_syntax, [])"
| "after_value c (InArr js # fs) =
     (if json_space c then (After_value, InArr js # fs)
      else if c = CHR '','' then (Want_value, InArr js # fs)
      else if c = CHR '']'' then close_value (JArr js) fs
      else (Bad_syntax, fs))"
| "after_value c (InObj kvs k # fs) =
     (if json_space c then (After_value, InObj kvs k # fs)
      else if c = CHR '','' then (Want_key, InObj kvs k # fs)
      else if c = CHR 0x7D then close_value (JObj kvs) fs
      else (Bad_syntax, fs))"

text \<open>The byte after a number, which belongs to what is around it.\<close>

definition end_number :: "json \<Rightarrow> char \<Rightarrow> frame list \<Rightarrow> scanner" where
  "end_number v c fs = (if fs = [] then (Done_value v, []) else after_value c (add_value v fs))"

fun set_key :: "string \<Rightarrow> frame list \<Rightarrow> frame list" where
  "set_key k (InObj kvs _ # fs) = InObj kvs k # fs"
| "set_key k fs = fs"

fun string_step :: "char \<Rightarrow> bool \<Rightarrow> string \<Rightarrow> escape \<Rightarrow> frame list \<Rightarrow> scanner" where
  "string_step c key acc No_escape fs =
     (if c = quote_mark then (if key then (After_key, set_key (unquote acc) fs) else deliver (JStr (unquote acc)) fs)
      else if c = backslash then (In_string key (acc @ [c]) After_backslash, fs)
      else if of_char c < (0x20 :: nat) then (Bad_syntax, fs)
      else (In_string key (acc @ [c]) No_escape, fs))"
| "string_step c key acc After_backslash fs =
     (if c \<in> set ''bfnrt/'' \<union> {backslash, quote_mark} then (In_string key (acc @ [c]) No_escape, fs)
      else if c = CHR ''u'' then (In_string key (acc @ [c]) (Hex_digits 3), fs)
      else (Bad_syntax, fs))"
| "string_step c key acc (Hex_digits n) fs =
     (if is_hex c then (In_string key (acc @ [c]) (if n = 0 then No_escape else Hex_digits (n - 1)), fs)
      else (Bad_syntax, fs))"

fun json_step :: "char \<Rightarrow> scanner \<Rightarrow> scanner" where
  "json_step c (Want_value, fs) = (if json_space c then (Want_value, fs) else begin_value c fs)"
| "json_step c (First_element, fs) =
     (if json_space c then (First_element, fs)
      else if c = CHR '']'' then close_value (JArr []) (tl fs) else begin_value c fs)"
| "json_step c (First_key, fs) =
     (if json_space c then (First_key, fs)
      else if c = CHR 0x7D then close_value (JObj []) (tl fs)
      else if c = quote_mark then (In_string True [] No_escape, fs) else (Bad_syntax, fs))"
| "json_step c (Want_key, fs) =
     (if json_space c then (Want_key, fs)
      else if c = quote_mark then (In_string True [] No_escape, fs) else (Bad_syntax, fs))"
| "json_step c (After_key, fs) =
     (if json_space c then (After_key, fs)
      else if c = CHR '':'' then (Want_value, fs) else (Bad_syntax, fs))"
| "json_step c (After_value, fs) = after_value c fs"
| "json_step c (In_string key acc e, fs) = string_step c key acc e fs"
| "json_step c (In_number p lit, fs) =
     (case num_next p c of
        Some p' \<Rightarrow> (In_number p' (lit @ [c]), fs)
      | None \<Rightarrow> if num_complete p then end_number (number_value lit) c fs else (Bad_syntax, fs))"
| "json_step c (In_literal rest v, fs) =
     (case rest of
        [] \<Rightarrow> (Bad_syntax, fs)
      | x # xs \<Rightarrow> if c \<noteq> x then (Bad_syntax, fs) else if xs = [] then deliver v fs else (In_literal xs v, fs))"
| "json_step c (Top_value v, fs) = (Done_value v, fs)"
| "json_step c (Done_value v, fs) = (Done_value v, fs)"
| "json_step c (Bad_syntax, fs) = (Bad_syntax, fs)"

definition json_feed :: "string \<Rightarrow> scanner \<Rightarrow> scanner" where
  "json_feed s st = foldl (\<lambda>st c. json_step c st) st s"

datatype json_result = Read json | Syntax_error | Cut_short

text \<open>
  \<open>Decode\<close> on bytes after which the reader reports its end, or with \<open>eof = False\<close> another error: at
  the end of the text the scanner is given a space, to end a number or a literal.
\<close>

definition json_read :: "bool \<Rightarrow> string \<Rightarrow> json_result" where
  "json_read eof s =
     (let st = json_feed s (Want_value, []) in
      case fst st of
        Done_value v \<Rightarrow> Read v
      | Bad_syntax \<Rightarrow> Syntax_error
      | _ \<Rightarrow> if eof then (case fst (json_step (CHR '' '') st) of Done_value v \<Rightarrow> Read v | _ \<Rightarrow> Cut_short)
             else Cut_short)"

definition decode_text :: "(json \<Rightarrow> 'a option) \<Rightarrow> string \<Rightarrow> 'a option" where
  "decode_text dec s = (case json_read True s of Read j \<Rightarrow> dec j | _ \<Rightarrow> None)"

section \<open>The scanner on a text\<close>

lemma json_feed_Nil [simp]: "json_feed [] st = st"
  by (simp add: json_feed_def)

lemma json_feed_Cons [simp]: "json_feed (c # s) st = json_feed s (json_step c st)"
  by (simp add: json_feed_def)

lemma json_feed_append [simp]: "json_feed (s @ t) st = json_feed t (json_feed s st)"
  by (simp add: json_feed_def)

lemma json_feed_done [simp]: "json_feed s (Done_value v, fs) = (Done_value v, fs)"
  by (induction s) simp_all

lemma json_feed_bad [simp]: "json_feed s (Bad_syntax, fs) = (Bad_syntax, fs)"
  by (induction s) simp_all

subsection \<open>Strings\<close>

definition string_plain :: "char \<Rightarrow> bool" where
  "string_plain c \<longleftrightarrow> c \<noteq> quote_mark \<and> c \<noteq> backslash \<and> (0x20 :: nat) \<le> of_char c"

lemma feed_plain:
  "list_all string_plain s \<Longrightarrow> json_feed s (In_string key acc No_escape, fs) = (In_string key (acc @ s) No_escape, fs)"
  by (induction s arbitrary: acc) (auto simp: string_plain_def)

lemma json_unescape_plain: "list_all string_plain s \<Longrightarrow> json_unescape (s @ t) = s @ json_unescape t"
  by (induction s) (simp_all add: string_plain_def)

lemma rune_plain:
  assumes "rb \<in> set (runes s)" "rune_ok rb" "fst rb \<noteq> 0x22" "fst rb \<noteq> 0x5C" "\<not> fst rb < 0x20"
  shows "list_all string_plain (snd rb)"
proof -
  obtain r bs where rb: "rb = (r, bs)" by (cases rb)
  from runes_bytes [of r bs s] assms rb
  consider "r < 0x80" "bs = [char_of r]" | "\<forall>c \<in> set bs. (0x80 :: nat) \<le> of_char c" by auto
  then show ?thesis
  proof cases
    case 1
    then have "of_char (char_of r :: char) = r" by simp
    with 1 assms rb show ?thesis by (simp add: string_plain_def char_of_eq_iff)
  next
    case 2
    then show ?thesis using rb by (force simp: list_all_iff string_plain_def)
  qed
qed

lemma feed_escape_rune:
  assumes "rb \<in> set (runes s)"
  shows "json_feed (escape_json_rune rb) (In_string key acc No_escape, fs)
    = (In_string key (acc @ escape_json_rune rb) No_escape, fs)"
proof -
  have hex: "is_hex CHR ''0''" "is_hex CHR ''2''" "is_hex CHR ''d''" "is_hex CHR ''f''"
    by (simp_all add: is_hex_def)
  have d: "r < 0x20 \<Longrightarrow> is_hex (digit_char (r div 16))" "is_hex (digit_char (r mod 16))" for r
    by (simp_all add: is_hex_digit)
  show ?thesis
    using feed_plain [OF rune_plain [OF assms]]
    by (simp add: escape_json_rune_def Let_def hex d is_hex_digit)
qed

lemma feed_escape: "json_feed (escape_json s) (In_string key acc No_escape, fs)
    = (In_string key (acc @ escape_json s) No_escape, fs)"
proof -
  have "json_feed (concat (map escape_json_rune rs)) (In_string key acc No_escape, fs)
      = (In_string key (acc @ concat (map escape_json_rune rs)) No_escape, fs)" if "set rs \<subseteq> set (runes s)" for rs acc
    using that by (induction rs arbitrary: acc) (simp_all add: feed_escape_rune [of _ s])
  then show ?thesis by (simp add: escape_json_def)
qed


lemma hex4_digits: "hex4 (a # b # c # d # t) = ((hex_val a * 16 + hex_val b) * 16 + hex_val c) * 16 + hex_val d"
  by (simp add: hex4_def)

lemma rune_byte: "rb \<in> set (runes s) \<Longrightarrow> fst rb < 0x80 \<Longrightarrow> snd rb = [char_of (fst rb)]"
  using runes_bytes [of "fst rb" "snd rb" s] by auto

lemma unescape_u:
  "\<not> is_surrogate (hex4 s) \<Longrightarrow> json_unescape (backslash # CHR ''u'' # s) = utf8_encode (hex4 s) @ json_unescape (drop 4 s)"
  by simp

lemma unescape_rune:
  assumes "rb \<in> set (runes s)"
  shows "json_unescape (escape_json_rune rb @ t) = snd (fix_rune rb) @ json_unescape t"
proof -
  have fffd: "hex4 (''fffd'' @ t) = 0xFFFD" by (simp add: hex4_digits hex_val_def)
  have error: "utf8_encode 0xFFFD = utf8_error"
    by (simp add: utf8_encode_def utf8_error_def cont_byte_def char_of_eq_iff)
  let ?short = "{0x22, 0x5C, 0x08, 0x0C, 0x0A, 0x0D, 0x09}" and ?html = "{0x3C, 0x3E, 0x26}"
    and ?lines = "{0x2028, 0x2029}"
  consider (bad) "\<not> rune_ok rb" | (short) "rune_ok rb" "fst rb \<in> ?short"
    | (hex) "rune_ok rb" "fst rb \<notin> ?short" "fst rb < 0x20 \<or> fst rb \<in> ?html"
    | (line) "rune_ok rb" "fst rb \<in> ?lines"
    | (plain) "rune_ok rb" "fst rb \<notin> ?short" "\<not> fst rb < 0x20" "fst rb \<notin> ?html" "fst rb \<notin> ?lines"
    by blast
  then show ?thesis
  proof cases
    case bad
    then have "json_unescape (escape_json_rune rb @ t) = utf8_encode 0xFFFD @ json_unescape t"
      using unescape_u [of "''fffd'' @ t"] fffd by (simp add: escape_json_rune_def is_surrogate_def)
    with bad error show ?thesis by (simp add: fix_rune_def)
  next
    case plain
    then have "escape_json_rune rb = snd rb" by (simp add: escape_json_rune_def Let_def)
    with plain rune_plain [OF assms] show ?thesis by (simp add: json_unescape_plain fix_rune_def)
  next
    case short
    then have b: "snd (fix_rune rb) = [char_of (fst rb)]" using rune_byte [OF assms] by (auto simp: fix_rune_def)
    from short(2) consider "fst rb = 0x22" | "fst rb = 0x5C" | "fst rb = 0x08" | "fst rb = 0x0C" | "fst rb = 0x0A"
      | "fst rb = 0x0D" | "fst rb = 0x09" by auto
    then show ?thesis unfolding b
      by cases (simp_all add: short(1) escape_json_rune_def Let_def escaped_char_def char_of_eq_iff eq_commute [of _ "char_of _"])
  next
    case hex
    define u where "u = CHR ''0'' # CHR ''0'' # digit_char (fst rb div 16) # digit_char (fst rb mod 16) # t"
    have e: "escape_json_rune rb = backslash # ''u00'' @ [digit_char (fst rb div 16), digit_char (fst rb mod 16)]"
      using hex by (auto simp: escape_json_rune_def Let_def)
    have r: "fst rb < 0x40" using hex(3) by auto
    then have "hex4 u = fst rb"
      by (simp add: u_def hex4_digits hex_val_digit) (simp add: hex_val_def)
    then have "json_unescape (backslash # CHR ''u'' # u) = utf8_encode (fst rb) @ json_unescape t"
      using unescape_u [of u] r by (simp add: is_surrogate_def u_def)
    with e hex(1) runes_encode [OF assms] show ?thesis by (simp add: u_def fix_rune_def)
  next
    case line
    define u where "u = CHR ''2'' # CHR ''0'' # CHR ''2'' # digit_char (fst rb mod 16) # t"
    have e: "escape_json_rune rb = backslash # ''u202'' @ [digit_char (fst rb mod 16)]"
      using line by (auto simp: escape_json_rune_def Let_def)
    have "hex4 u = fst rb"
      using line(2) by (auto simp: u_def hex4_digits hex_val_digit) (simp_all add: hex_val_def)
    then have "json_unescape (backslash # CHR ''u'' # u) = utf8_encode (fst rb) @ json_unescape t"
      using unescape_u [of u] line(2) by (auto simp: is_surrogate_def u_def)
    with e line(1) runes_encode [OF assms] show ?thesis by (simp add: u_def fix_rune_def)
  qed
qed

lemma unescape_escape: "json_unescape (escape_json s) = utf8_coerce s"
proof -
  have "json_unescape (concat (map escape_json_rune rs)) = concat (map (\<lambda>rb. snd (fix_rune rb)) rs)"
    if "set rs \<subseteq> set (runes s)" for rs
    using that by (induction rs) (simp_all add: unescape_rune [of _ s])
  then show ?thesis by (simp add: escape_json_def utf8_coerce_def fix_rune_snd)
qed

lemma unquote_escape: "unquote (escape_json s) = utf8_coerce s"
  by (simp add: unquote_def unescape_escape coerce_idem)

lemma feed_string_body:
  "json_feed (escape_json s @ [quote_mark]) (In_string False [] No_escape, fs) = deliver (JStr (utf8_coerce s)) fs"
  "json_feed (escape_json s @ [quote_mark]) (In_string True [] No_escape, fs) = (After_key, set_key (utf8_coerce s) fs)"
  by (simp_all add: feed_escape unquote_escape)

lemma json_space_quote [simp]: "\<not> json_space quote_mark"
  by (simp add: json_space_def)

lemma feed_key:
  "json_feed (json_string s) (Want_key, fs) = (After_key, set_key (utf8_coerce s) fs)"
  "json_feed (json_string s) (First_key, fs) = (After_key, set_key (utf8_coerce s) fs)"
  using feed_string_body(2) by (simp_all add: json_string_def del: json_feed_append)

lemma feed_string_value: "json_feed (json_string s) (Want_value, fs) = deliver (JStr (utf8_coerce s)) fs"
  using feed_string_body(1) by (simp add: json_string_def begin_value_def del: json_feed_append)

subsection \<open>Numbers\<close>

lemma digits_base_append: "digits_base b n acc = digits_base b n [] @ acc"
proof (induction n arbitrary: acc rule: less_induct)
  case (less n)
  show ?case
  proof (cases "n div b = 0 \<or> b < 2")
    case False
    then have "n div b < n" by (intro div_less_dividend) (auto simp: div_eq_0_iff intro: gr0I)
    from less [OF this, of "digit_char (n mod b) # acc"] less [OF this, of "[digit_char (n mod b)]"]
    show ?thesis using False by (simp add: digits_base.simps [of b n])
  qed (simp add: digits_base.simps [of b n])
qed

lemma fmt_d_rec: "fmt_d n = (if n < 10 then [digit_char n] else fmt_d (n div 10) @ [digit_char (n mod 10)])"
  using digits_base_append [of 10 "n div 10" "[digit_char (n mod 10)]"]
  by (simp add: fmt_d_def digits_base.simps [of 10 n] div_eq_0_iff)

lemma is_digit_char: "d < 10 \<Longrightarrow> is_digit (digit_char d)"
proof -
  assume d: "d < 10"
  have "map digit_char [0..<10] = ''0123456789''" by (simp add: digit_char_def char_of_def bit_0 upt_rec)
  moreover have "digit_char d \<in> set (map digit_char [0..<10])" using d by (simp del: upt_rec_numeral)
  ultimately show ?thesis by (simp only: is_digit_def)
qed

lemma digit_char_0: "digit_char d = CHR ''0'' \<longleftrightarrow> d = 0" if "d < 10"
  using that by (simp add: digit_char_def char_of_eq_iff)

lemma fmt_d_digits:
  "\<exists>c t. fmt_d n = c # t \<and> is_digit c \<and> list_all is_digit t \<and> (c = CHR ''0'' \<longrightarrow> n = 0 \<and> t = [])"
proof (induction n rule: less_induct)
  case (less n)
  show ?case
  proof (cases "n < 10")
    case True
    then show ?thesis using is_digit_char [of n] digit_char_0 [of n] by (simp add: fmt_d_rec [of n])
  next
    case False
    then obtain c t where "fmt_d (n div 10) = c # t" "is_digit c" "list_all is_digit t"
        "c = CHR ''0'' \<longrightarrow> n div 10 = 0 \<and> t = []"
      using less [of "n div 10"] by auto
    with False is_digit_char [of "n mod 10"] show ?thesis by (auto simp: fmt_d_rec [of n])
  qed
qed

lemma feed_digits: "list_all is_digit t \<Longrightarrow> json_feed t (In_number N_int lit, fs) = (In_number N_int (lit @ t), fs)"
  by (induction t arbitrary: lit) auto

lemma is_digit_other: "is_digit c \<Longrightarrow> \<not> json_space c \<and> c \<notin> set ''{[\"-tfn].eE''"
  by (auto simp: is_digit_def json_space_def)

text \<open>After the digits of a number the scanner waits for more, in a state that may end.\<close>

lemma feed_nat:
  "\<exists>p \<in> {N_zero, N_int}. json_feed (fmt_d n) (Want_value, fs) = (In_number p (fmt_d n), fs)"
  "\<exists>p \<in> {N_zero, N_int}. json_feed (fmt_d n) (In_number N_neg ''-'', fs) = (In_number p (''-'' @ fmt_d n), fs)"
proof -
  obtain c t where f: "fmt_d n = c # t" "is_digit c" "list_all is_digit t" "c = CHR ''0'' \<longrightarrow> n = 0 \<and> t = []"
    using fmt_d_digits [of n] by blast
  note d = is_digit_other [OF f(2)]
  show "\<exists>p \<in> {N_zero, N_int}. json_feed (fmt_d n) (Want_value, fs) = (In_number p (fmt_d n), fs)"
    using f d feed_digits [OF f(3)] by (cases "c = CHR ''0''") (simp_all add: begin_value_def)
  show "\<exists>p \<in> {N_zero, N_int}. json_feed (fmt_d n) (In_number N_neg ''-'', fs) = (In_number p (''-'' @ fmt_d n), fs)"
    using f d feed_digits [OF f(3)] by (cases "c = CHR ''0''") simp_all
qed

lemma feed_int: "\<exists>p \<in> {N_zero, N_int}. json_feed (fmt_int i) (Want_value, fs) = (In_number p (fmt_int i), fs)"
  using feed_nat [where n = "nat i"] feed_nat(2) [of "nat (- i)" fs]
  by (auto simp: fmt_int_def begin_value_def json_space_def is_digit_def)

lemma number_value_int: "number_value (fmt_int i) = JInt i"
proof -
  have "list_all (\<lambda>c. c \<notin> set ''-.eE'') (fmt_d n)" for n
  proof -
    obtain c t where "fmt_d n = c # t" "is_digit c" "list_all is_digit t" using fmt_d_digits [of n] by blast
    then have "list_all is_digit (fmt_d n)" by simp
    then show ?thesis using is_digit_other by (fastforce simp: list_all_iff)
  qed
  then have n: "list_all (\<lambda>c. c \<notin> set ''.eE'') (fmt_d n)" "fmt_d n = [] \<or> hd (fmt_d n) \<noteq> CHR ''-''" for n
    by (auto simp: list_all_iff dest!: hd_in_set)
  show ?thesis
    using n [of "nat i"] n [of "nat (- i)"] by (auto simp: number_value_def fmt_int_def digits_val_fmt_d)
qed

section \<open>Reading what was written\<close>

text \<open>What a reader sees of a value: its strings as valid UTF-8.\<close>

fun json_coerce :: "json \<Rightarrow> json" where
  "json_coerce (JStr s) = JStr (utf8_coerce s)"
| "json_coerce (JArr js) = JArr (map json_coerce js)"
| "json_coerce (JObj kvs) = JObj (map (\<lambda>kv. (utf8_coerce (fst kv), json_coerce (snd kv))) kvs)"
| "json_coerce v = v"

text \<open>Values without other numbers, nested at most \<open>n\<close> deep.\<close>

fun json_fits :: "nat \<Rightarrow> json \<Rightarrow> bool" where
  "json_fits n (JOtherNumber l) = False"
| "json_fits n (JArr js) = (n > 0 \<and> (\<forall>j \<in> set js. json_fits (n - 1) j))"
| "json_fits n (JObj kvs) = (n > 0 \<and> (\<forall>kv \<in> set kvs. json_fits (n - 1) (snd kv)))"
| "json_fits n v = True"

text \<open>The bytes that may follow a value.\<close>

definition json_delim :: "char \<Rightarrow> bool" where
  "json_delim c \<longleftrightarrow> json_space c \<or> c = CHR '','' \<or> c = CHR '']'' \<or> c = CHR 0x7D"

lemma number_ends: "p \<in> {N_zero, N_int} \<Longrightarrow> json_delim c \<Longrightarrow> num_next p c = None"
  by (auto simp: json_delim_def json_space_def is_digit_def)

lemma step_number:
  "p \<in> {N_zero, N_int} \<Longrightarrow> json_delim c \<Longrightarrow>
     json_step c (In_number p lit, fs) = json_step c (deliver (number_value lit) fs)"
  using number_ends [of p c] by (auto simp: num_complete_def end_number_def deliver_def)

lemma step_close [simp]: "json_step c (close_value v fs) = json_step c (deliver v fs)"
  by (simp add: close_value_def deliver_def)

lemma deliver_frame [simp]:
  "deliver v (InArr js # fs) = (After_value, InArr (js @ [v]) # fs)"
  "deliver v (InObj kvs k # fs) = (After_value, InObj (kvs @ [(k, v)]) k # fs)"
  by (simp_all add: deliver_def)

lemma json_text_head:
  assumes "json_fits n v"
  shows "\<exists>c t. json_text v = c # t \<and> \<not> json_space c \<and> c \<noteq> CHR '']''"
proof (cases v)
  case (JInt i)
  obtain c t where d: "fmt_d (nat i) = c # t" "is_digit c" using fmt_d_digits by blast
  show ?thesis
  proof (cases "i < 0")
    case False
    with JInt d is_digit_other [OF d(2)] show ?thesis by (simp add: fmt_int_def)
  qed (simp add: JInt fmt_int_def json_space_def)
qed (use assms in \<open>auto simp: json_space_def json_string_def\<close>)

lemma feed_first:
  "json_fits n v \<Longrightarrow> json_feed (json_text v @ s) (First_element, fs) = json_feed (json_text v @ s) (Want_value, fs)"
  using json_text_head [of n v] by auto

text \<open>A value is written so that the scanner, at the byte after it, has it delivered.\<close>

definition value_feeds :: "json \<Rightarrow> frame list \<Rightarrow> bool" where
  "value_feeds v fs \<longleftrightarrow> (\<forall>c. json_delim c \<longrightarrow>
     json_step c (json_feed (json_text v) (Want_value, fs)) = json_step c (deliver (json_coerce v) fs))"

lemma value_feedsD:
  "value_feeds v fs \<Longrightarrow> json_delim c \<Longrightarrow>
     json_feed (json_text v @ c # s) (Want_value, fs) = json_feed s (json_step c (deliver (json_coerce v) fs))"
  by (simp add: value_feeds_def)

lemma delims [simp]: "json_delim CHR '',''" "json_delim CHR '']''" "json_delim CHR 0x7D" "json_delim CHR '' ''"
  "json_delim CHR 0x0A" "\<not> json_space CHR '',''" "\<not> json_space CHR '']''" "\<not> json_space CHR 0x7D" "\<not> json_space CHR '':''"
  by (simp_all add: json_delim_def json_space_def)

lemma feed_elements:
  assumes "js \<noteq> []" "\<And>j acc. j \<in> set js \<Longrightarrow> value_feeds j (InArr acc # fs)"
  shows "json_feed (strings_Join (map json_text js) '','' @ '']'') (Want_value, InArr acc # fs)
    = close_value (JArr (acc @ map json_coerce js)) fs"
  using assms
proof (induction js arbitrary: acc rule: list_nonempty_induct)
  case (single j)
  then show ?case using value_feedsD [of j "InArr acc # fs" "CHR '']''" "[]"] by (simp del: json_feed_append)
next
  case (cons j js)
  obtain k ks where js: "js = k # ks" using cons.hyps by (cases js) auto
  have "json_feed (json_text j @ CHR '','' # strings_Join (map json_text js) '','' @ '']'') (Want_value, InArr acc # fs)
      = json_feed (strings_Join (map json_text js) '','' @ '']'') (Want_value, InArr (acc @ [json_coerce j]) # fs)"
    using value_feedsD [of j "InArr acc # fs" "CHR '',''"] cons.prems by (simp del: json_feed_append)
  also have "\<dots> = close_value (JArr ((acc @ [json_coerce j]) @ map json_coerce js)) fs"
    by (rule cons.IH) (use cons.prems in simp)
  finally show ?case by (simp add: js del: json_feed_append)
qed

lemma feed_member:
  assumes "value_feeds v (InObj acc (utf8_coerce k) # fs)" "json_delim c"
  shows "json_feed (json_string k @ '':'' @ json_text v @ c # s) (Want_key, InObj acc k0 # fs)
    = json_feed s (json_step c (After_value, InObj (acc @ [(utf8_coerce k, json_coerce v)]) (utf8_coerce k) # fs))"
  using value_feedsD [OF assms, of s] by (simp add: feed_key)

definition member_text :: "string \<times> json \<Rightarrow> string" where
  "member_text kv = json_string (fst kv) @ '':'' @ json_text (snd kv)"

definition coerce_member :: "string \<times> json \<Rightarrow> string \<times> json" where
  "coerce_member kv = (utf8_coerce (fst kv), json_coerce (snd kv))"

text \<open>The members of an object, up to the byte after the last one.\<close>

lemma feed_members:
  assumes "kvs \<noteq> []" "\<And>kv acc k. kv \<in> set kvs \<Longrightarrow> value_feeds (snd kv) (InObj acc k # fs)" "json_delim c"
  shows "\<exists>k'. json_feed (strings_Join (map member_text kvs) '','' @ c # s) (Want_key, InObj acc k # fs)
    = json_feed s (json_step c (After_value, InObj (acc @ map coerce_member kvs) k' # fs))"
  using assms(1,2)
proof (induction kvs arbitrary: acc k rule: list_nonempty_induct)
  case (single kv)
  then show ?case
    using feed_member [OF _ assms(3), of "snd kv" acc "fst kv" fs s k]
    by (auto simp: member_text_def coerce_member_def simp del: json_feed_append)
next
  case (cons kv kvs)
  let ?rest = "strings_Join (map member_text kvs) '','' @ c # s"
  obtain x xs where kvs: "kvs = x # xs" using cons.hyps by (cases kvs) auto
  have "json_feed (member_text kv @ CHR '','' # ?rest) (Want_key, InObj acc k # fs)
      = json_feed ?rest (Want_key, InObj (acc @ [coerce_member kv]) (utf8_coerce (fst kv)) # fs)"
    using feed_member [of "snd kv" acc "fst kv" fs "CHR '',''"] cons.prems
    by (simp add: member_text_def coerce_member_def del: json_feed_append)
  moreover obtain k' where "json_feed ?rest (Want_key, InObj (acc @ [coerce_member kv]) (utf8_coerce (fst kv)) # fs)
      = json_feed s (json_step c (After_value, InObj ((acc @ [coerce_member kv]) @ map coerce_member kvs) k' # fs))"
    using cons.IH cons.prems by (metis list.set_intros(2))
  ultimately show ?case by (auto simp: kvs simp del: json_feed_append)
qed

lemma feed_first_key:
  "kvs \<noteq> [] \<Longrightarrow> json_feed (strings_Join (map member_text kvs) '','' @ s) (First_key, fs)
    = json_feed (strings_Join (map member_text kvs) '','' @ s) (Want_key, fs)"
  by (cases "(map member_text kvs, '','')" rule: strings_Join.cases) (auto simp: member_text_def feed_key)

lemma value_feeds_leaf:
  "value_feeds JNull fs" "value_feeds (JBool b) fs" "value_feeds (JInt i) fs" "value_feeds (JStr s) fs"
proof -
  show "value_feeds JNull fs"
    by (simp add: value_feeds_def begin_value_def json_space_def is_digit_def)
  show "value_feeds (JBool b) fs"
    by (cases b) (simp_all add: value_feeds_def begin_value_def json_space_def is_digit_def)
  obtain p where "p \<in> {N_zero, N_int}" "json_feed (fmt_int i) (Want_value, fs) = (In_number p (fmt_int i), fs)"
    using feed_int by blast
  then show "value_feeds (JInt i) fs"
    by (simp add: value_feeds_def step_number number_value_int del: json_step.simps)
  show "value_feeds (JStr s) fs"
    by (simp add: value_feeds_def feed_string_value)
qed

lemma value_feeds_text:
  "json_fits n v \<Longrightarrow> length fs + n \<le> max_depth \<Longrightarrow> value_feeds v fs"
proof (induction n v arbitrary: fs rule: json_fits.induct)
  case (2 n js)
  have opens: "json_step (CHR ''['') (Want_value, fs) = (First_element, InArr [] # fs)"
    using 2 by (simp add: begin_value_def open_frame_def json_space_def)
  have "json_feed (json_text (JArr js)) (Want_value, fs) = close_value (JArr (map json_coerce js)) fs"
  proof (cases js)
    case Nil
    then show ?thesis using opens by simp
  next
    case (Cons j ks)
    have feeds: "value_feeds k (InArr acc # fs)" if "k \<in> set js" for k acc
      using 2 that by (intro "2.IH") auto
    have "json_feed (json_text (JArr js)) (Want_value, fs)
        = json_feed (strings_Join (map json_text js) '','' @ '']'') (First_element, InArr [] # fs)"
      using opens by simp
    also have "\<dots> = json_feed (strings_Join (map json_text js) '','' @ '']'') (Want_value, InArr [] # fs)"
    proof -
      have "json_fits (n - 1) j" using 2 Cons by simp
      from feed_first [OF this] show ?thesis by (cases ks) (simp_all add: Cons del: json_feed_append)
    qed
    finally show ?thesis using feed_elements [of js fs "[]"] feeds Cons by simp
  qed
  then show ?case by (simp add: value_feeds_def)
next
  case (3 n kvs)
  have opens: "json_step (CHR 0x7B) (Want_value, fs) = (First_key, InObj [] [] # fs)"
    using 3 by (simp add: begin_value_def open_frame_def json_space_def)
  have t: "json_text (JObj kvs) = CHR 0x7B # strings_Join (map member_text kvs) '','' @ [CHR 0x7D]"
    by (simp add: member_text_def [abs_def])
  have "json_feed (json_text (JObj kvs)) (Want_value, fs) = close_value (JObj (map coerce_member kvs)) fs"
  proof (cases kvs)
    case Nil
    then show ?thesis using opens by simp
  next
    case (Cons kv xs)
    have feeds: "value_feeds (snd kv) (InObj acc k # fs)" if "kv \<in> set kvs" for kv acc k
      using 3 that by (intro "3.IH") auto
    let ?s = "strings_Join (map member_text kvs) '','' @ [CHR 0x7D]"
    have "json_feed (json_text (JObj kvs)) (Want_value, fs) = json_feed ?s (First_key, InObj [] [] # fs)"
      unfolding t using opens by simp
    also have "\<dots> = json_feed ?s (Want_key, InObj [] [] # fs)"
      by (rule feed_first_key) (simp add: Cons)
    finally show ?thesis using feed_members [of kvs fs "CHR 0x7D" "[]" "[]" "[]"] feeds Cons by auto
  qed
  then show ?case by (simp add: value_feeds_def coerce_member_def [abs_def])
qed (simp_all add: value_feeds_leaf)

text \<open>A \<open>Decoder\<close> reads back what \<open>Marshal\<close> wrote, and what an \<open>Encoder\<close> wrote with its newline.\<close>

lemma json_read_marshal:
  assumes "json_fits n v" "n \<le> max_depth"
  shows "json_read True (json_text v) = Read (json_coerce v)"
proof -
  define st where "st = json_feed (json_text v) (Want_value, [])"
  have s: "json_step (CHR '' '') st = (Done_value (json_coerce v), [])"
    using value_feeds_text [OF assms(1), of "[]"] assms(2) by (simp add: value_feeds_def st_def deliver_def)
  obtain m fs where m: "st = (m, fs)" by (cases st)
  with s show ?thesis by (cases m) (simp_all add: json_read_def st_def [symmetric])
qed

lemma json_read_encode:
  assumes "json_fits n v" "n \<le> max_depth"
  shows "json_read eof (json_text v @ nl @ rest) = Read (json_coerce v)"
proof -
  have "json_feed (json_text v @ nl) (Want_value, []) = (Done_value (json_coerce v), [])"
    using value_feeds_text [OF assms(1), of "[]"] assms(2) by (simp add: value_feeds_def deliver_def)
  then show ?thesis by (simp add: json_read_def)
qed

text \<open>
  A text that is cut off before its end is not read as something else: an object that lost its
  last bytes is neither a value nor a syntax error.
\<close>

lemma feed_stuck: "fst st \<noteq> Bad_syntax" "\<And>v. fst st \<noteq> Done_value v" if "json_feed s st = (m, fs)"
    "m \<noteq> Bad_syntax" "\<And>v. m \<noteq> Done_value v" for m
  using that by (cases st; auto)+

lemma json_read_cut:
  assumes "json_fits n (JObj kvs)" "n \<le> max_depth" "kvs \<noteq> []" "l < length (json_text (JObj kvs))"
  shows "json_read False (take l (json_text (JObj kvs))) = Cut_short"
proof -
  define pre where "pre = CHR 0x7B # strings_Join (map member_text kvs) '',''"
  have t: "json_text (JObj kvs) = pre @ [CHR 0x7D]" by (simp add: pre_def member_text_def [abs_def])
  have opens: "json_step (CHR 0x7B) (Want_value, []) = (First_key, InObj [] [] # [])"
    by (simp add: begin_value_def open_frame_def json_space_def max_depth_def)
  have feeds: "value_feeds (snd kv) (InObj acc k # [])" if "kv \<in> set kvs" for kv acc k
    using assms(1,2) that by (intro value_feeds_text [of "n - 1"]) auto
  have "json_feed pre (Want_value, []) = json_feed (strings_Join (map member_text kvs) '','') (Want_key, [InObj [] []])"
    using feed_first_key [OF assms(3), of "[]" "[InObj [] []]"] opens by (simp add: pre_def)
  moreover obtain k' where "json_feed (strings_Join (map member_text kvs) '','' @ '','') (Want_key, [InObj [] []])
      = (Want_key, [InObj (map coerce_member kvs) k'])"
    using feed_members [OF assms(3) feeds, of "CHR '',''" "[]" "[]" "[]"] by auto
  ultimately have key: "json_step (CHR '','') (json_feed pre (Want_value, [])) = (Want_key, [InObj (map coerce_member kvs) k'])"
    by simp
  have l: "take l (json_text (JObj kvs)) = take l pre" using assms(4) unfolding t by simp
  have "json_feed (drop l pre) (json_feed (take l pre) (Want_value, [])) = json_feed pre (Want_value, [])"
    by (simp only: json_feed_append [symmetric] append_take_drop_id)
  with key have "json_feed (drop l pre @ '','') (json_feed (take l pre) (Want_value, []))
      = (Want_key, [InObj (map coerce_member kvs) k'])" by simp
  from feed_stuck [OF this] show ?thesis
    unfolding json_read_def Let_def l by (auto split: reading.splits)
qed

section \<open>Whatever is read is valid UTF-8\<close>

fun json_valid :: "json \<Rightarrow> bool" where
  "json_valid (JStr s) = valid_utf8 s"
| "json_valid (JArr js) = (\<forall>j \<in> set js. json_valid j)"
| "json_valid (JObj kvs) = (\<forall>kv \<in> set kvs. valid_utf8 (fst kv) \<and> json_valid (snd kv))"
| "json_valid _ = True"

fun frame_valid :: "frame \<Rightarrow> bool" where
  "frame_valid (InArr js) = (\<forall>j \<in> set js. json_valid j)"
| "frame_valid (InObj kvs k) = ((\<forall>kv \<in> set kvs. valid_utf8 (fst kv) \<and> json_valid (snd kv)) \<and> valid_utf8 k)"

fun reading_valid :: "reading \<Rightarrow> bool" where
  "reading_valid (In_literal s v) = json_valid v"
| "reading_valid (Top_value v) = json_valid v"
| "reading_valid (Done_value v) = json_valid v"
| "reading_valid _ = True"

definition scanner_valid :: "scanner \<Rightarrow> bool" where
  "scanner_valid st \<longleftrightarrow> reading_valid (fst st) \<and> list_all frame_valid (snd st)"

lemma valid_utf8_Nil [simp]: "valid_utf8 []"
  by (simp add: valid_utf8_def)

lemma add_value_valid: "json_valid v \<Longrightarrow> list_all frame_valid fs \<Longrightarrow> list_all frame_valid (add_value v fs)"
  by (cases "(v, fs)" rule: add_value.cases) auto

lemma close_valid: "json_valid v \<Longrightarrow> list_all frame_valid fs \<Longrightarrow> scanner_valid (close_value v fs)"
  and deliver_valid: "json_valid v \<Longrightarrow> list_all frame_valid fs \<Longrightarrow> scanner_valid (deliver v fs)"
  by (simp_all add: close_value_def deliver_def scanner_valid_def add_value_valid)

lemma after_value_valid: "list_all frame_valid fs \<Longrightarrow> scanner_valid (after_value c fs)"
  by (cases "(c, fs)" rule: after_value.cases) (auto simp: close_valid, auto simp: scanner_valid_def deliver_valid [unfolded scanner_valid_def])

lemma begin_value_valid: "list_all frame_valid fs \<Longrightarrow> scanner_valid (begin_value c fs)"
  by (simp add: begin_value_def open_frame_def scanner_valid_def)

lemma string_step_valid:
  assumes "list_all frame_valid fs"
  shows "scanner_valid (string_step c key acc e fs)"
proof -
  have u: "valid_utf8 (unquote acc)" by (simp add: unquote_def valid_coerce)
  have "list_all frame_valid (set_key (unquote acc) fs)"
    using assms u by (cases "(unquote acc, fs)" rule: set_key.cases) auto
  with u assms deliver_valid [of "JStr (unquote acc)" fs] show ?thesis
    by (cases e) (auto simp: scanner_valid_def)
qed

lemma number_value_valid: "json_valid (number_value lit)"
  by (simp add: number_value_def)

lemma json_step_valid: "scanner_valid st \<Longrightarrow> scanner_valid (json_step c st)"
proof -
  assume v: "scanner_valid st"
  obtain m fs where st: "st = (m, fs)" by (cases st)
  then have fs: "list_all frame_valid fs" using v by (simp add: scanner_valid_def)
  then have tl: "list_all frame_valid (tl fs)" by (cases fs) simp_all
  have num: "scanner_valid (end_number (number_value lit) c fs)" for lit
    using fs number_value_valid after_value_valid add_value_valid
    by (simp add: end_number_def) (simp add: scanner_valid_def number_value_valid)
  note facts = begin_value_valid [OF fs] after_value_valid [OF fs] string_step_valid [OF fs] num
    close_valid [OF _ tl] deliver_valid [OF _ fs]
  show ?thesis
    using v fs tl
    by (cases m) (auto simp: st facts split: option.split list.split, auto simp: scanner_valid_def deliver_valid [unfolded scanner_valid_def])
qed

lemma json_read_valid: "json_read eof s = Read v \<Longrightarrow> json_valid v"
proof -
  assume r: "json_read eof s = Read v"
  have "scanner_valid (json_feed s st)" if "scanner_valid st" for st
    using that by (induction s arbitrary: st) (simp_all add: json_step_valid)
  then have f: "scanner_valid (json_feed s (Want_value, []))" by (simp add: scanner_valid_def)
  with json_step_valid [OF f, of "CHR '' ''"] r show ?thesis
    by (auto simp: json_read_def Let_def scanner_valid_def split: reading.splits if_splits)
qed

text \<open>What it takes to run the scanner on a given text.\<close>

lemmas json_read_sample_simps = json_read_def begin_value_def open_frame_def max_depth_def json_space_def
  unquote_def coerce_ascii deliver_def close_value_def is_digit_def number_value_def num_complete_def
  end_number_def is_hex_def hex4_digits hex_val_def is_surrogate_def utf8_encode_def char_of_eq_iff digit_val_def

end
