(* ===== verification/JsonDecode.thy ===== *)
theory JsonDecode
  imports Json
begin

text \<open>
  What \<open>encoding/json\<close> makes of a value for a Go variable: names of struct fields matched exactly or
  up to case, strings, booleans, integers, pointers, maps, slices and structs, each decoded into
  the value that the variable has, with an error at a value of another type. The locale
  \<open>json_codec\<close> is what one side of a connection promises the other about a type.
\<close>

section \<open>Names\<close>

text \<open>Matching of a name: exactly, or after folding the case of every rune.\<close>

definition ascii_upper :: "char \<Rightarrow> char" where
  "ascii_upper c = (if 97 \<le> (of_char c :: nat) \<and> (of_char c :: nat) \<le> 122
     then char_of ((of_char c :: nat) - 32) else c)"

text \<open>
  The two runes outside ASCII that fold to an ASCII letter are the long s and the Kelvin sign;
  the others are left alone, since they cannot match a field name.
\<close>

definition fold_rune :: "nat \<times> string \<Rightarrow> string" where
  "fold_rune rb = (if fst rb = 0x17F then ''S'' else if fst rb = 0x212A then ''K''
     else map ascii_upper (snd rb))"

definition fold_name :: "string \<Rightarrow> string" where
  "fold_name s = concat (map fold_rune (runes s))"

definition json_field :: "string list \<Rightarrow> string \<Rightarrow> string option" where
  "json_field names key =
     (if key \<in> set names then Some key else List.find (\<lambda>n. fold_name n = fold_name key) names)"

section \<open>Decoding into a variable\<close>

text \<open>Each takes the value the variable has and gives the one it gets, \<open>None\<close> at a type error.\<close>

fun decode_string :: "json \<Rightarrow> string \<Rightarrow> string option" where
  "decode_string JNull old = Some old"
| "decode_string (JStr s) old = Some s"
| "decode_string _ old = None"

fun decode_bool :: "json \<Rightarrow> bool \<Rightarrow> bool option" where
  "decode_bool JNull old = Some old"
| "decode_bool (JBool b) old = Some b"
| "decode_bool _ old = None"

definition int_range :: "int \<Rightarrow> bool" where
  "int_range i \<longleftrightarrow> - (2 ^ 63) \<le> i \<and> i < 2 ^ 63"

fun decode_int :: "json \<Rightarrow> int \<Rightarrow> int option" where
  "decode_int JNull old = Some old"
| "decode_int (JInt i) old = (if int_range i then Some i else None)"
| "decode_int _ old = None"

text \<open>A pointer is set to nil by \<open>null\<close>.\<close>

fun decode_pbool :: "json \<Rightarrow> bool option option" where
  "decode_pbool JNull = Some None"
| "decode_pbool (JBool b) = Some (Some b)"
| "decode_pbool _ = None"

text \<open>A map keeps its entries; each element starts from the empty string.\<close>

fun decode_entries :: "members \<Rightarrow> (string, string) gomap \<Rightarrow> (string, string) gomap option" where
  "decode_entries [] m = Some m"
| "decode_entries ((k, v) # kvs) m =
     (case decode_string v [] of None \<Rightarrow> None | Some s \<Rightarrow> decode_entries kvs (AList.update k s m))"

fun decode_map :: "json \<Rightarrow> (string, string) gomap \<Rightarrow> (string, string) gomap option" where
  "decode_map JNull m = Some []"
| "decode_map (JObj kvs) m = decode_entries kvs m"
| "decode_map _ m = None"

text \<open>The elements of a slice, each from the zero value.\<close>

fun decode_list :: "(json \<Rightarrow> 'a option) \<Rightarrow> json list \<Rightarrow> 'a list option" where
  "decode_list f [] = Some []"
| "decode_list f (j # js) =
     (case f j of None \<Rightarrow> None
      | Some x \<Rightarrow> (case decode_list f js of None \<Rightarrow> None | Some xs \<Rightarrow> Some (x # xs)))"

fun decode_slice :: "(json \<Rightarrow> 'a option) \<Rightarrow> json \<Rightarrow> 'a list option" where
  "decode_slice f JNull = Some []"
| "decode_slice f (JArr js) = decode_list f js"
| "decode_slice f _ = None"

text \<open>A struct: the members in their order, the unknown ones skipped.\<close>

fun decode_members :: "string list \<Rightarrow> (string \<Rightarrow> json \<Rightarrow> 'r \<Rightarrow> 'r option) \<Rightarrow> members \<Rightarrow> 'r \<Rightarrow> 'r option" where
  "decode_members names set_field [] r = Some r"
| "decode_members names set_field ((k, v) # kvs) r =
     (case json_field names k of
        None \<Rightarrow> decode_members names set_field kvs r
      | Some n \<Rightarrow> (case set_field n v r of None \<Rightarrow> None | Some r' \<Rightarrow> decode_members names set_field kvs r'))"

fun decode_struct :: "string list \<Rightarrow> (string \<Rightarrow> json \<Rightarrow> 'r \<Rightarrow> 'r option) \<Rightarrow> 'r \<Rightarrow> json \<Rightarrow> 'r option" where
  "decode_struct names set_field zero JNull = Some zero"
| "decode_struct names set_field zero (JObj kvs) = decode_members names set_field kvs zero"
| "decode_struct names set_field zero _ = None"

section \<open>Encoding a struct\<close>

text \<open>An \<open>omitempty\<close> field is left out where it is zero.\<close>

definition omit :: "bool \<Rightarrow> string \<Rightarrow> json \<Rightarrow> members" where
  "omit z k v = (if z then [] else [(k, v)])"

section \<open>The interface of a codec\<close>

text \<open>
  What one side relies on of the other: a \<open>fit\<close> value, encoded, decodes to what is \<open>seen\<close> of it
  when its strings are read as UTF-8, and its nesting is within the limit of the reader. Then so
  does the text, and so does a list of such values.
\<close>

locale json_codec =
  fixes encode :: "'a \<Rightarrow> json" and decode :: "json \<Rightarrow> 'b option"
    and seen :: "'a \<Rightarrow> 'b" and fit :: "'a \<Rightarrow> bool"
  assumes decode_encode: "fit x \<Longrightarrow> decode (json_coerce (encode x)) = Some (seen x)"
    and encode_fits: "json_fits 8 (encode x)"
begin

lemma decode_list_encode:
  "list_all fit xs \<Longrightarrow> decode_list decode (map (json_coerce \<circ> encode) xs) = Some (map seen xs)"
  by (induction xs) (simp_all add: decode_encode)

lemma decode_marshal: "fit x \<Longrightarrow> decode_text decode (json_text (encode x)) = Some (seen x)"
  using json_read_marshal [OF encode_fits] by (simp add: decode_text_def decode_encode max_depth_def)

lemma decode_line: "fit x \<Longrightarrow> decode_text decode (json_text (encode x) @ nl) = Some (seen x)"
  using json_read_encode [OF encode_fits, where eof = True and rest = "[]"] by (simp add: decode_text_def decode_encode max_depth_def)

lemma decode_slice_line:
  assumes "list_all fit xs"
  shows "decode_text (decode_slice decode) (json_text (JArr (map encode xs)) @ nl) = Some (map seen xs)"
proof -
  have "json_fits 9 (JArr (map encode xs))" using encode_fits by simp
  from json_read_encode [OF this, where eof = True and rest = "[]"] show ?thesis
    by (simp add: decode_text_def max_depth_def decode_list_encode [OF assms])
qed

end

section \<open>Facts about the decoders\<close>

lemma json_field_exact [simp]: "key \<in> set names \<Longrightarrow> json_field names key = Some key"
  by (simp add: json_field_def)

lemma decode_members_append:
  "decode_members names f (xs @ ys) r =
     (case decode_members names f xs r of None \<Rightarrow> None | Some r' \<Rightarrow> decode_members names f ys r')"
  by (induction names f xs r rule: decode_members.induct) (auto split: option.split)

interpretation string_codec: json_codec JStr "\<lambda>j. decode_string j []" utf8_coerce "\<lambda>s. True"
  by unfold_locales simp_all

text \<open>What is decoded from valid text is valid text.\<close>

lemma ascii_text: "list_all (\<lambda>c. of_char c < (0x80 :: nat)) s \<Longrightarrow> valid_utf8 s"
  by (rule ascii_valid) (simp add: list_all_iff)

lemma decode_string_typed: "decode_string j old = Some s \<Longrightarrow> json_valid j \<Longrightarrow> valid_utf8 old \<Longrightarrow> valid_utf8 s"
  by (cases "(j, old)" rule: decode_string.cases) auto

lemma decode_members_inv:
  assumes "decode_members names f kvs r = Some r'" "P r" "\<forall>kv \<in> set kvs. json_valid (snd kv)"
    and "\<And>n v r r'. P r \<Longrightarrow> json_valid v \<Longrightarrow> f n v r = Some r' \<Longrightarrow> P r'"
  shows "P r'"
  using assms by (induction names f kvs r rule: decode_members.induct) (auto split: option.splits)

lemma decode_struct_inv:
  assumes "decode_struct names f z j = Some r'" "P z" "json_valid j"
    and "\<And>n v r r'. P r \<Longrightarrow> json_valid v \<Longrightarrow> f n v r = Some r' \<Longrightarrow> P r'"
  shows "P r'"
proof (cases j)
  case (JObj kvs)
  with assms decode_members_inv [of names f kvs z r' P] show ?thesis by auto
qed (use assms in simp_all)

lemma decode_slice_typed:
  assumes "decode_slice f j = Some xs" "json_valid j" "\<And>j x. json_valid j \<Longrightarrow> f j = Some x \<Longrightarrow> P x"
  shows "list_all P xs"
proof (cases "(f, j)" rule: decode_slice.cases)
  case (2 f0 js)
  have "list_all P xs" if "decode_list f js = Some xs" "\<forall>j \<in> set js. json_valid j" for js xs
    using that assms(3) by (induction f js arbitrary: xs rule: decode_list.induct) (auto split: option.splits)
  with 2 assms show ?thesis by auto
qed (use assms in auto)

end
