(* ===== verification/Auth.thy ===== *)
theory Auth
  imports JsonDecode
begin

text \<open>
  Caller authentication: \<open>internal/auth/auth.go\<close> and \<open>internal/auth/auth_cache.go\<close>. The bytes
  that the API server answers to those of a token review, the mounted service account token and
  the in-cluster CA are parameters; the JSON of the review and of its answer is modelled. The cache is modelled twice: the operations one call at a time, and the
  calls of several goroutines and the sweeper interleaved at the points where the code holds
  no lock. The locale \<open>token_validator\<close> is what the daemon relies on.
\<close>

section \<open>Token review\<close>

text \<open>The request, and what its JSON is.\<close>

record tokenReviewRequest =
  trq_APIVersion :: string
  trq_Kind :: string
  trq_Token :: string
  trq_Audiences :: "string list"

definition encode_tokenReviewRequest :: "tokenReviewRequest \<Rightarrow> json" where
  "encode_tokenReviewRequest r = JObj
     [(''apiVersion'', JStr (trq_APIVersion r)), (''kind'', JStr (trq_Kind r)),
      (''spec'', JObj ([(''token'', JStr (trq_Token r))]
         @ omit (trq_Audiences r = []) ''audiences'' (JArr (map JStr (trq_Audiences r)))))]"

text \<open>The answer: structs in structs, each decoded into the value that is there.\<close>

record tokenReviewUser =
  Username :: string
  user_UID :: string
  Groups :: "string list"

record tokenReviewStatus =
  Authenticated :: bool
  review_Error :: string
  review_User :: tokenReviewUser
  review_Audiences :: "string list"

record tokenReviewResponse =
  trr_APIVersion :: string
  trr_Kind :: string
  review_Status :: tokenReviewStatus

abbreviation decode_strings :: "json \<Rightarrow> string list option" where
  "decode_strings \<equiv> decode_slice (\<lambda>j. decode_string j [])"

definition set_user_field :: "string \<Rightarrow> json \<Rightarrow> tokenReviewUser \<Rightarrow> tokenReviewUser option" where
  "set_user_field n v u =
     (if n = ''username'' then map_option (\<lambda>s. u\<lparr>Username := s\<rparr>) (decode_string v (Username u))
      else if n = ''uid'' then map_option (\<lambda>s. u\<lparr>user_UID := s\<rparr>) (decode_string v (user_UID u))
      else if n = ''groups'' then map_option (\<lambda>g. u\<lparr>Groups := g\<rparr>) (decode_strings v)
      else None)"

definition set_status_field :: "string \<Rightarrow> json \<Rightarrow> tokenReviewStatus \<Rightarrow> tokenReviewStatus option" where
  "set_status_field n v s =
     (if n = ''authenticated'' then map_option (\<lambda>b. s\<lparr>Authenticated := b\<rparr>) (decode_bool v (Authenticated s))
      else if n = ''error'' then map_option (\<lambda>e. s\<lparr>review_Error := e\<rparr>) (decode_string v (review_Error s))
      else if n = ''user'' then map_option (\<lambda>u. s\<lparr>review_User := u\<rparr>)
        (decode_struct [''username'', ''uid'', ''groups''] set_user_field (review_User s) v)
      else if n = ''audiences'' then map_option (\<lambda>a. s\<lparr>review_Audiences := a\<rparr>) (decode_strings v)
      else None)"

definition set_review_field :: "string \<Rightarrow> json \<Rightarrow> tokenReviewResponse \<Rightarrow> tokenReviewResponse option" where
  "set_review_field n v r =
     (if n = ''apiVersion'' then map_option (\<lambda>s. r\<lparr>trr_APIVersion := s\<rparr>) (decode_string v (trr_APIVersion r))
      else if n = ''kind'' then map_option (\<lambda>s. r\<lparr>trr_Kind := s\<rparr>) (decode_string v (trr_Kind r))
      else if n = ''status'' then map_option (\<lambda>s. r\<lparr>review_Status := s\<rparr>)
        (decode_struct [''authenticated'', ''error'', ''user'', ''audiences''] set_status_field (review_Status r) v)
      else None)"

definition zero_tokenReviewResponse :: tokenReviewResponse where
  "zero_tokenReviewResponse = \<lparr>trr_APIVersion = [], trr_Kind = [],
     review_Status = \<lparr>Authenticated = False, review_Error = [],
       review_User = \<lparr>Username = [], user_UID = [], Groups = []\<rparr>, review_Audiences = []\<rparr>\<rparr>"

definition decode_tokenReviewResponse :: "json \<Rightarrow> tokenReviewResponse option" where
  "decode_tokenReviewResponse =
     decode_struct [''apiVersion'', ''kind'', ''status''] set_review_field zero_tokenReviewResponse"

record http_reply =
  StatusCode :: int
  reply_body :: string

text \<open>What the API server receives: the URL, the two headers that vary and the body.\<close>

record review_request =
  rr_url :: string
  rr_bearer :: string
  rr_body :: string

text \<open>
  \<open>au_incluster\<close>: whether \<open>initInCluster\<close> found a CA; \<open>au_sa_file\<close>: the token file, \<open>None\<close>
  where it cannot be read; \<open>au_do\<close>: the HTTP exchange, \<open>None\<close> where it fails.
\<close>

record auth_world =
  au_incluster :: bool
  au_sa_file :: "string option"
  au_url_ok :: "string \<Rightarrow> bool"
  au_do :: "review_request \<Rightarrow> http_reply option"

datatype auth_error =
    NoInClusterConfig
  | SATokenUnreadable
  | SATokenEmpty
  | BuildRequestFailed
  | RequestFailed
  | ReviewHTTPStatus int string
  | DecodeFailed
  | NotAuthenticated string
  | MissingUsername

definition tokenReviewPath :: string where
  "tokenReviewPath = ''/apis/authentication.k8s.io/v1/tokenreviews''"

definition readInClusterSAToken :: "auth_world \<Rightarrow> auth_error + string" where
  "readInClusterSAToken w =
     (case au_sa_file w of None \<Rightarrow> Inl SATokenUnreadable
      | Some tokenBytes \<Rightarrow>
          let token = strings_TrimSpace tokenBytes in
          if token = [] then Inl SATokenEmpty else Inr token)"

definition review_payload :: "string \<Rightarrow> string" where
  "review_payload token = json_text (encode_tokenReviewRequest
     \<lparr>trq_APIVersion = ''authentication.k8s.io/v1'', trq_Kind = ''TokenReview'', trq_Token = token,
      trq_Audiences = []\<rparr>)"

text \<open>The error text of a reply outside 2xx quotes at most 4096 bytes of its body.\<close>

definition ValidateToken :: "auth_world \<Rightarrow> string \<Rightarrow> string \<Rightarrow> auth_error + string" where
  "ValidateToken w token baseURL =
     (if \<not> au_incluster w then Inl NoInClusterConfig
      else case readInClusterSAToken w of Inl e \<Rightarrow> Inl e
      | Inr saToken \<Rightarrow>
          (let url = baseURL @ tokenReviewPath in
           if \<not> au_url_ok w url then Inl BuildRequestFailed
           else case au_do w \<lparr>rr_url = url, rr_bearer = ''Bearer '' @ saToken, rr_body = review_payload token\<rparr> of
             None \<Rightarrow> Inl RequestFailed
           | Some resp \<Rightarrow>
               if StatusCode resp < 200 \<or> StatusCode resp \<ge> 300
               then Inl (ReviewHTTPStatus (StatusCode resp) (strings_TrimSpace (take 4096 (reply_body resp))))
               else case decode_text decode_tokenReviewResponse (reply_body resp) of None \<Rightarrow> Inl DecodeFailed
               | Some trResp \<Rightarrow>
                   (let s = review_Status trResp in
                    if \<not> Authenticated s then Inl (NotAuthenticated (review_Error s))
                    else if Username (review_User s) = [] then Inl MissingUsername
                    else Inr (Username (review_User s)))))"

fun sa_loop :: "string \<Rightarrow> string list \<Rightarrow> bool" where
  "sa_loop username [] = False"
| "sa_loop username (sa # sas) = (if username = sa then True else sa_loop username sas)"

definition IsRequiredSA :: "string \<Rightarrow> string list \<Rightarrow> bool" where
  "IsRequiredSA username requiredSAs =
     (if length requiredSAs = 0 then True else sa_loop username requiredSAs)"

lemma sa_loop_iff: "sa_loop u sas \<longleftrightarrow> u \<in> set sas"
  by (induction sas) auto

text \<open>The API server vouches for a user name.\<close>

definition vouches :: "auth_world \<Rightarrow> string \<Rightarrow> string \<Rightarrow> string \<Rightarrow> bool" where
  "vouches w token baseURL user \<longleftrightarrow>
     (\<exists>sa resp tr. readInClusterSAToken w = Inr sa
        \<and> au_do w \<lparr>rr_url = baseURL @ tokenReviewPath, rr_bearer = ''Bearer '' @ sa, rr_body = review_payload token\<rparr> = Some resp
        \<and> 200 \<le> StatusCode resp \<and> StatusCode resp < 300
        \<and> decode_text decode_tokenReviewResponse (reply_body resp) = Some tr
        \<and> Authenticated (review_Status tr) \<and> Username (review_User (review_Status tr)) = user \<and> user \<noteq> [])"

lemma ValidateToken_Inr:
  "ValidateToken w token baseURL = Inr user \<longleftrightarrow>
     au_incluster w \<and> au_url_ok w (baseURL @ tokenReviewPath) \<and> vouches w token baseURL user"
proof -
  have *: "\<not> (c < 200 \<or> 300 \<le> c) \<longleftrightarrow> 200 \<le> c \<and> c < 300" for c :: int by auto
  show ?thesis
    by (auto simp: ValidateToken_def vouches_def Let_def * split: sum.splits option.splits if_splits)
qed

text \<open>
  At the level of bytes: the API server was sent a review in which it reads this very token, and
  its answer says that the token is authenticated and whose it is. The JSON of the request keeps a
  token that is valid UTF-8, as every token in a request of a caller is.
\<close>

definition reads_token :: "string \<Rightarrow> string \<Rightarrow> bool" where
  "reads_token body token \<longleftrightarrow> (\<exists>fields. json_read True body = Read (JObj fields)
     \<and> map_of fields ''kind'' = Some (JStr ''TokenReview'')
     \<and> map_of fields ''spec'' = Some (JObj [(''token'', JStr token)]))"

definition review_confirmed :: "auth_world \<Rightarrow> string \<Rightarrow> string \<Rightarrow> bool" where
  "review_confirmed w token user \<longleftrightarrow> (\<exists>q resp tr. au_do w q = Some resp \<and> reads_token (rr_body q) token
     \<and> 200 \<le> StatusCode resp \<and> StatusCode resp < 300
     \<and> decode_text decode_tokenReviewResponse (reply_body resp) = Some tr
     \<and> Authenticated (review_Status tr) \<and> Username (review_User (review_Status tr)) = user \<and> user \<noteq> [])"

lemma review_payload_reads: "valid_utf8 token \<Longrightarrow> reads_token (review_payload token) token"
proof -
  assume v: "valid_utf8 token"
  let ?r = "\<lparr>trq_APIVersion = ''authentication.k8s.io/v1'', trq_Kind = ''TokenReview'', trq_Token = token,
    trq_Audiences = []\<rparr>"
  have "json_read True (review_payload token) = Read (json_coerce (encode_tokenReviewRequest ?r))"
    unfolding review_payload_def
    by (rule json_read_marshal [of 3]) (auto simp: encode_tokenReviewRequest_def omit_def max_depth_def)
  with v show ?thesis
    by (simp add: reads_token_def encode_tokenReviewRequest_def omit_def coerce_ascii coerce_valid)
qed

lemma vouches_confirmed: "vouches w token baseURL user \<Longrightarrow> valid_utf8 token \<Longrightarrow> review_confirmed w token user"
  unfolding vouches_def review_confirmed_def using review_payload_reads by fastforce

text \<open>
  The CA is read once, on the first validation, and the outcome is kept in package variables:
  \<open>pem_ok\<close> is whether the bundle holds a certificate. \<open>ValidateToken\<close> over a world is the
  validation with the flag that this state gives.
\<close>

datatype incluster_error = CAUnreadable | CANoCertificates

record incluster_state =
  ic_once_done :: bool
  ic_err :: "incluster_error option"

definition initInCluster :: "string option \<Rightarrow> (string \<Rightarrow> bool) \<Rightarrow> incluster_error option" where
  "initInCluster caCert pem_ok =
     (case caCert of None \<Rightarrow> Some CAUnreadable
      | Some pem \<Rightarrow> if \<not> pem_ok pem then Some CANoCertificates else None)"

definition inClusterClientOnce_Do :: "string option \<Rightarrow> (string \<Rightarrow> bool) \<Rightarrow> incluster_state \<Rightarrow> incluster_state" where
  "inClusterClientOnce_Do caCert pem_ok st =
     (if ic_once_done st then st else \<lparr>ic_once_done = True, ic_err = initInCluster caCert pem_ok\<rparr>)"

definition ValidateToken_once :: "auth_world \<Rightarrow> string option \<Rightarrow> (string \<Rightarrow> bool) \<Rightarrow> string \<Rightarrow> string \<Rightarrow> incluster_state \<Rightarrow>
    (auth_error + string) \<times> incluster_state" where
  "ValidateToken_once w caCert pem_ok token baseURL st =
     (let st' = inClusterClientOnce_Do caCert pem_ok st
      in (ValidateToken (w\<lparr>au_incluster := (ic_err st' = None)\<rparr>) token baseURL, st'))"

text \<open>
  A CA that is missing at the first validation stays missing: every later validation is refused,
  whatever the mount holds by then.
\<close>

fun validations :: "(auth_world \<times> string option \<times> string \<times> string) list \<Rightarrow> (string \<Rightarrow> bool) \<Rightarrow> incluster_state \<Rightarrow>
    (auth_error + string) list" where
  "validations [] pem_ok st = []"
| "validations ((w, ca, token, url) # calls) pem_ok st =
     (let (r, st') = ValidateToken_once w ca pem_ok token url st in r # validations calls pem_ok st')"

lemma missing_CA_latched:
  assumes "calls \<noteq> []" "fst (snd (hd calls)) = None" "\<not> ic_once_done st"
  shows "set (validations calls pem_ok st) = {Inl NoInClusterConfig}"
proof -
  let ?bad = "\<lparr>ic_once_done = True, ic_err = Some CAUnreadable\<rparr>"
  have latched: "set (validations cs pem_ok ?bad) \<subseteq> {Inl NoInClusterConfig}" for cs
    by (induction cs) (auto simp: ValidateToken_once_def inClusterClientOnce_Do_def ValidateToken_def Let_def)
  obtain w token url cs where c: "calls = (w, None, token, url) # cs"
    using assms(1,2) by (cases calls) auto
  have "ValidateToken_once w None pem_ok token url st = (Inl NoInClusterConfig, ?bad)"
    using assms(3) by (simp add: ValidateToken_once_def inClusterClientOnce_Do_def initInCluster_def ValidateToken_def)
  then have "set (validations calls pem_ok st) = insert (Inl NoInClusterConfig) (set (validations cs pem_ok ?bad))"
    unfolding c by simp
  with latched [of cs] show ?thesis by auto
qed

section \<open>The token cache, one call at a time\<close>

record cacheEntry =
  username :: string
  expiresAt :: gotime

record tokenCache =
  entries :: "(string, cacheEntry) gomap"
  ttl :: int

definition newTokenCache :: "int \<Rightarrow> tokenCache" where
  "newTokenCache t = \<lparr>entries = [], ttl = t\<rparr>"

definition cache_deleteExpired :: "gotime \<Rightarrow> tokenCache \<Rightarrow> tokenCache" where
  "cache_deleteExpired now c = c\<lparr>entries := filter (\<lambda>(token, e). \<not> now > expiresAt e) (entries c)\<rparr>"

text \<open>
  The sweeper: each tick drops what has expired, and it ends when the cache is closed; \<open>None\<close>
  where it is still waiting after the events.
\<close>

datatype sweep_event = Sweep_tick gotime | Sweep_closed

fun cache_sweep :: "sweep_event list \<Rightarrow> tokenCache \<Rightarrow> tokenCache option" where
  "cache_sweep [] c = None"
| "cache_sweep (Sweep_tick now # evs) c = cache_sweep evs (cache_deleteExpired now c)"
| "cache_sweep (Sweep_closed # evs) c = Some c"

definition cache_get :: "gotime \<Rightarrow> string \<Rightarrow> tokenCache \<Rightarrow> string option \<times> tokenCache" where
  "cache_get now token c =
     (case map_of (entries c) token of None \<Rightarrow> (None, c)
      | Some entry \<Rightarrow>
          if now > expiresAt entry then (None, c\<lparr>entries := AList.delete token (entries c)\<rparr>)
          else (Some (username entry), c))"

definition cache_set :: "gotime \<Rightarrow> string \<Rightarrow> string \<Rightarrow> tokenCache \<Rightarrow> tokenCache" where
  "cache_set now token user c =
     c\<lparr>entries := AList.update token \<lparr>username = user, expiresAt = now + ttl c\<rparr> (entries c)\<rparr>"

text \<open>\<open>validate\<close> stands for the variable \<open>validateFunc\<close>.\<close>

definition Cached_ValidateToken :: "(string \<Rightarrow> string \<Rightarrow> auth_error + string) \<Rightarrow> gotime \<Rightarrow> string \<Rightarrow> string \<Rightarrow>
    tokenCache \<Rightarrow> (auth_error + string) \<times> tokenCache" where
  "Cached_ValidateToken validate now token baseURL c =
     (case cache_get now token c of
        (Some user, c') \<Rightarrow> (Inr user, c')
      | (None, c') \<Rightarrow>
          (case validate token baseURL of Inl e \<Rightarrow> (Inl e, c')
           | Inr user \<Rightarrow> (Inr user, cache_set now token user c')))"

lemma cache_get_Some:
  "cache_get now token c = (Some u, c') \<longleftrightarrow>
     c' = c \<and> (\<exists>e. map_of (entries c) token = Some e \<and> now \<le> expiresAt e \<and> username e = u)"
  by (auto simp: cache_get_def not_less split: option.splits if_splits)

lemma cache_get_after_set:
  "fst (cache_get now token (cache_set t token' u c)) =
     (if token = token' then if now \<le> t + ttl c then Some u else None
      else fst (cache_get now token c))"
  by (auto simp: cache_get_def cache_set_def map_of_update split: option.splits)

text \<open>The sweep does not change what a later \<open>get\<close> answers.\<close>

lemma cache_get_after_sweep:
  assumes "gomap_ok (entries c)" "t \<le> now"
  shows "fst (cache_get now token (cache_deleteExpired t c)) = fst (cache_get now token c)"
proof -
  let ?P = "\<lambda>(token :: string, e). \<not> t > expiresAt e"
  have lk: "map_of (filter ?P (entries c)) token = Some e \<longleftrightarrow>
      map_of (entries c) token = Some e \<and> t \<le> expiresAt e" for e
    using gomap_filter_lookup [OF assms(1), of ?P token e] by auto
  show ?thesis
  proof (cases "map_of (filter ?P (entries c)) token")
    case (Some e)
    then have "map_of (entries c) token = Some e" using lk [of e] by simp
    with Some show ?thesis by (simp add: cache_get_def cache_deleteExpired_def)
  next
    case None
    then have "map_of (entries c) token = Some e \<Longrightarrow> expiresAt e < t" for e
      using lk [of e] by force
    with None assms(2) show ?thesis
      by (fastforce simp: cache_get_def cache_deleteExpired_def split: option.splits)
  qed
qed

section \<open>What the daemon relies on\<close>

text \<open>
  \<open>answers v token url u\<close>: at time \<open>v\<close> the underlying review names \<open>u\<close>. A validator keeps an
  invariant of its state relative to the clock, and a name it returns was given by the review
  at most \<open>window\<close> ago.
\<close>

locale token_validator =
  fixes validate :: "gotime \<Rightarrow> string \<Rightarrow> string \<Rightarrow> 's \<Rightarrow> (auth_error + string) \<times> 's"
    and inv :: "gotime \<Rightarrow> 's \<Rightarrow> bool"
    and answers :: "gotime \<Rightarrow> string \<Rightarrow> string \<Rightarrow> bool"
    and window :: int
  assumes window_nonneg: "0 \<le> window"
    and inv_step: "inv t s \<Longrightarrow> t \<le> now \<Longrightarrow> inv now (snd (validate now token url s))"
    and sound: "inv t s \<Longrightarrow> t \<le> now \<Longrightarrow> fst (validate now token url s) = Inr u \<Longrightarrow>
      \<exists>v \<le> now. now - window \<le> v \<and> answers v token u"
begin

text \<open>A sequence of calls, with the times at which they are made.\<close>

fun calls :: "(gotime \<times> string \<times> string) list \<Rightarrow> 's \<Rightarrow> (auth_error + string) list" where
  "calls [] s = []"
| "calls ((now, token, url) # cs) s =
     fst (validate now token url s) # calls cs (snd (validate now token url s))"

lemma calls_sound:
  assumes "inv t s" "sorted (t # map fst cs)"
  shows "list_all2 (\<lambda>(now, token, url) r. \<forall>u. r = Inr u \<longrightarrow>
    (\<exists>v \<le> now. now - window \<le> v \<and> answers v token u)) cs (calls cs s)"
  using assms
proof (induction cs arbitrary: t s)
  case Nil
  then show ?case by simp
next
  case (Cons c cs)
  obtain now token url where c: "c = (now, token, url)" by (cases c)
  have "t \<le> now" "sorted (now # map fst cs)" using Cons.prems(2) c by auto
  from Cons.IH [OF inv_step [OF Cons.prems(1) this(1)] this(2)] sound [OF Cons.prems(1) this(1)]
  show ?case by (simp add: c)
qed

end

text \<open>The uncached validator, over a world that changes with time.\<close>

definition direct_validate :: "(gotime \<Rightarrow> auth_world) \<Rightarrow> gotime \<Rightarrow> string \<Rightarrow> string \<Rightarrow> unit \<Rightarrow>
    (auth_error + string) \<times> unit" where
  "direct_validate w now token url s = (ValidateToken (w now) token url, ())"

definition reviewed :: "(gotime \<Rightarrow> auth_world) \<Rightarrow> gotime \<Rightarrow> string \<Rightarrow> string \<Rightarrow> bool" where
  "reviewed w v token u \<longleftrightarrow> (\<exists>url. vouches (w v) token url u)"

interpretation direct: token_validator "direct_validate w" "\<lambda>_ _. True" "reviewed w" 0 for w
  by unfold_locales (auto simp: direct_validate_def reviewed_def ValidateToken_Inr)

definition cached_validate :: "(gotime \<Rightarrow> auth_world) \<Rightarrow> gotime \<Rightarrow> string \<Rightarrow> string \<Rightarrow> tokenCache \<Rightarrow>
    (auth_error + string) \<times> tokenCache" where
  "cached_validate w now token url c = Cached_ValidateToken (ValidateToken (w now)) now token url c"

text \<open>Each entry stems from a review made at its expiry less the time to live.\<close>

definition cache_inv :: "(gotime \<Rightarrow> auth_world) \<Rightarrow> int \<Rightarrow> gotime \<Rightarrow> tokenCache \<Rightarrow> bool" where
  "cache_inv w d t c \<longleftrightarrow> ttl c = d \<and> 0 \<le> d \<and>
     (\<forall>token e. map_of (entries c) token = Some e \<longrightarrow>
        expiresAt e - d \<le> t \<and> reviewed w (expiresAt e - d) token (username e))"

lemma cache_inv_get:
  "cache_inv w d t c \<Longrightarrow> t \<le> now \<Longrightarrow> cache_inv w d now (snd (cache_get now token c))"
  unfolding cache_inv_def cache_get_def
  by (cases "map_of (entries c) token") (force simp: map_of_delete split: if_splits)+

lemma cache_inv_set:
  "cache_inv w d now c \<Longrightarrow> reviewed w now token u \<Longrightarrow> cache_inv w d now (cache_set now token u c)"
  by (auto simp: cache_inv_def cache_set_def map_of_update)

lemma cached_validate_inv:
  assumes "cache_inv w d t c" "t \<le> now"
  shows "cache_inv w d now (snd (cached_validate w now token url c))"
proof -
  obtain r c' where g: "cache_get now token c = (r, c')" by fastforce
  have inv': "cache_inv w d now c'" using cache_inv_get [OF assms, of token] g by simp
  show ?thesis
  proof (cases r)
    case (Some u)
    with g inv' show ?thesis by (simp add: cached_validate_def Cached_ValidateToken_def)
  next
    case None
    show ?thesis
    proof (cases "ValidateToken (w now) token url")
      case (Inl e)
      with g None inv' show ?thesis by (simp add: cached_validate_def Cached_ValidateToken_def)
    next
      case (Inr u)
      then have "reviewed w now token u" by (auto simp: reviewed_def ValidateToken_Inr)
      with g None Inr cache_inv_set [OF inv'] show ?thesis
        by (simp add: cached_validate_def Cached_ValidateToken_def)
    qed
  qed
qed

interpretation cached: token_validator "cached_validate w" "cache_inv w (int d)" "reviewed w" "int d" for w d
proof
  show "0 \<le> int d" by simp
  fix t now token url u and s :: tokenCache
  assume inv: "cache_inv w (int d) t s" "t \<le> now"
  show "cache_inv w (int d) now (snd (cached_validate w now token url s))"
    by (rule cached_validate_inv [OF inv])
  assume r: "fst (cached_validate w now token url s) = Inr u"
  show "\<exists>v \<le> now. now - int d \<le> v \<and> reviewed w v token u"
  proof (cases "cache_get now token s")
    case (Pair g s')
    show ?thesis
    proof (cases g)
      case (Some u')
      with Pair r have "u' = u" by (simp add: cached_validate_def Cached_ValidateToken_def)
      with Pair Some obtain e where "map_of (entries s) token = Some e" "now \<le> expiresAt e" "username e = u"
        by (auto simp: cache_get_Some)
      with inv have "expiresAt e - int d \<le> t" "reviewed w (expiresAt e - int d) token u"
        by (auto simp: cache_inv_def)
      with inv \<open>now \<le> expiresAt e\<close> show ?thesis by (intro exI [of _ "expiresAt e - int d"]) auto
    next
      case None
      with Pair r have "ValidateToken (w now) token url = Inr u"
        by (auto simp: cached_validate_def Cached_ValidateToken_def split: sum.splits)
      then show ?thesis by (intro exI [of _ now]) (auto simp: reviewed_def ValidateToken_Inr)
    qed
  qed
qed

section \<open>Concurrent calls\<close>

text \<open>
  A call of \<open>CachedTokenValidator.ValidateToken\<close> between its accesses to the map, each of which
  holds the lock: the lookup, the comparison with the clock, the deletion of a stale entry
  (which may by then be another one), the review and the store. \<open>PStore\<close> and \<open>PDone\<close> carry the
  time of the review and of the return.
\<close>

datatype call_pc =
    PLookup
  | PCheck cacheEntry
  | PDelete
  | PValidate
  | PStore gotime string
  | PDone gotime "auth_error + string"

record auth_call =
  call_token :: string
  call_url :: string
  call_pc :: call_pc

record auth_sys =
  sys_clock :: gotime
  sys_cache :: tokenCache
  sys_calls :: "auth_call list"

definition set_pc :: "nat \<Rightarrow> call_pc \<Rightarrow> auth_sys \<Rightarrow> auth_sys" where
  "set_pc i p st = st\<lparr>sys_calls := (sys_calls st)[i := (sys_calls st ! i)\<lparr>call_pc := p\<rparr>]\<rparr>"

text \<open>
  The clock does not advance beyond \<open>lag\<close> from a review to the store of its result; this is
  the only bound on the scheduler.
\<close>

lemma cache_sweep_drops:
  "cache_sweep evs c = Some c' \<Longrightarrow>
   set (entries c') = {e \<in> set (entries c). \<forall>t. Sweep_tick t \<in> set (takeWhile (\<lambda>x. x \<noteq> Sweep_closed) evs) \<longrightarrow> t \<le> expiresAt (snd e)}"
  by (induction evs c rule: cache_sweep.induct) (auto simp: cache_deleteExpired_def)

inductive auth_step :: "(gotime \<Rightarrow> auth_world) \<Rightarrow> int \<Rightarrow> auth_sys \<Rightarrow> auth_sys \<Rightarrow> bool" for w lag where
  tick: "0 \<le> d \<Longrightarrow>
    \<forall>c \<in> set (sys_calls st). \<forall>v u. call_pc c = PStore v u \<longrightarrow> sys_clock st + d \<le> v + lag \<Longrightarrow>
    auth_step w lag st (st\<lparr>sys_clock := sys_clock st + d\<rparr>)"
| sweep: "auth_step w lag st (st\<lparr>sys_cache := cache_deleteExpired (sys_clock st) (sys_cache st)\<rparr>)"
| arrive: "auth_step w lag st (st\<lparr>sys_calls := sys_calls st @
      [\<lparr>call_token = token, call_url = url, call_pc = PLookup\<rparr>]\<rparr>)"
| lookup: "i < length (sys_calls st) \<Longrightarrow> call_pc (sys_calls st ! i) = PLookup \<Longrightarrow>
    auth_step w lag st (set_pc i
      (case map_of (entries (sys_cache st)) (call_token (sys_calls st ! i)) of
         None \<Rightarrow> PValidate | Some e \<Rightarrow> PCheck e) st)"
| check: "i < length (sys_calls st) \<Longrightarrow> call_pc (sys_calls st ! i) = PCheck e \<Longrightarrow>
    auth_step w lag st (set_pc i
      (if sys_clock st > expiresAt e then PDelete else PDone (sys_clock st) (Inr (username e))) st)"
| drop_stale: "i < length (sys_calls st) \<Longrightarrow> call_pc (sys_calls st ! i) = PDelete \<Longrightarrow>
    auth_step w lag st (set_pc i PValidate (st\<lparr>sys_cache := (sys_cache st)\<lparr>entries :=
      AList.delete (call_token (sys_calls st ! i)) (entries (sys_cache st))\<rparr>\<rparr>))"
| review: "i < length (sys_calls st) \<Longrightarrow> call_pc (sys_calls st ! i) = PValidate \<Longrightarrow>
    auth_step w lag st (set_pc i
      (case ValidateToken (w (sys_clock st)) (call_token (sys_calls st ! i)) (call_url (sys_calls st ! i)) of
         Inl e \<Rightarrow> PDone (sys_clock st) (Inl e) | Inr u \<Rightarrow> PStore (sys_clock st) u) st)"
| store: "i < length (sys_calls st) \<Longrightarrow> call_pc (sys_calls st ! i) = PStore v u \<Longrightarrow>
    auth_step w lag st (set_pc i (PDone (sys_clock st) (Inr u))
      (st\<lparr>sys_cache := cache_set (sys_clock st) (call_token (sys_calls st ! i)) u (sys_cache st)\<rparr>))"

inductive auth_reach :: "(gotime \<Rightarrow> auth_world) \<Rightarrow> int \<Rightarrow> int \<Rightarrow> auth_sys \<Rightarrow> bool" for w lag d where
  init: "auth_reach w lag d \<lparr>sys_clock = t, sys_cache = newTokenCache d, sys_calls = []\<rparr>"
| step: "auth_reach w lag d st \<Longrightarrow> auth_step w lag st st' \<Longrightarrow> auth_reach w lag d st'"

text \<open>A user name known for a token at time \<open>t\<close> from a review at most \<open>age\<close> ago.\<close>

definition recent :: "(gotime \<Rightarrow> auth_world) \<Rightarrow> int \<Rightarrow> gotime \<Rightarrow> string \<Rightarrow> string \<Rightarrow> bool" where
  "recent w age t token u \<longleftrightarrow> (\<exists>v \<le> t. t - age \<le> v \<and> reviewed w v token u)"

definition entry_sound :: "(gotime \<Rightarrow> auth_world) \<Rightarrow> int \<Rightarrow> gotime \<Rightarrow> string \<Rightarrow> cacheEntry \<Rightarrow> bool" where
  "entry_sound w age t token e \<longleftrightarrow>
     (\<exists>v \<le> t. expiresAt e - age \<le> v \<and> reviewed w v token (username e))"

definition call_sound :: "(gotime \<Rightarrow> auth_world) \<Rightarrow> int \<Rightarrow> int \<Rightarrow> gotime \<Rightarrow> auth_call \<Rightarrow> bool" where
  "call_sound w lag d t c \<longleftrightarrow>
     (case call_pc c of
        PCheck e \<Rightarrow> entry_sound w (lag + d) t (call_token c) e
      | PStore v u \<Rightarrow> v \<le> t \<and> t \<le> v + lag \<and> reviewed w v (call_token c) u
      | PDone f (Inr u) \<Rightarrow> f \<le> t \<and> recent w (lag + d) f (call_token c) u
      | _ \<Rightarrow> True)"

definition auth_inv :: "(gotime \<Rightarrow> auth_world) \<Rightarrow> int \<Rightarrow> int \<Rightarrow> auth_sys \<Rightarrow> bool" where
  "auth_inv w lag d st \<longleftrightarrow>
     ttl (sys_cache st) = d
     \<and> (\<forall>token e. map_of (entries (sys_cache st)) token = Some e \<longrightarrow>
          entry_sound w (lag + d) (sys_clock st) token e)
     \<and> (\<forall>c \<in> set (sys_calls st). call_sound w lag d (sys_clock st) c)
     \<and> gomap_ok (entries (sys_cache st))"

lemma entry_sound_mono: "entry_sound w a t token e \<Longrightarrow> t \<le> t' \<Longrightarrow> entry_sound w a t' token e"
  unfolding entry_sound_def by (meson order_trans)

lemma call_sound_mono:
  assumes "call_sound w lag d t c" "t \<le> t'" "\<And>v u. call_pc c = PStore v u \<Longrightarrow> t' \<le> v + lag"
  shows "call_sound w lag d t' c"
proof (cases "call_pc c")
  case (PDone f r)
  with assms show ?thesis by (cases r) (auto simp: call_sound_def)
qed (use assms entry_sound_mono in \<open>auto simp: call_sound_def\<close>)

lemma auth_inv_set_pc:
  assumes "auth_inv w lag d st" "i < length (sys_calls st)"
    and "call_sound w lag d (sys_clock st) ((sys_calls st ! i)\<lparr>call_pc := p\<rparr>)"
  shows "auth_inv w lag d (set_pc i p st)"
proof -
  have "set (sys_calls (set_pc i p st)) \<subseteq> insert ((sys_calls st ! i)\<lparr>call_pc := p\<rparr>) (set (sys_calls st))"
    by (simp add: set_pc_def set_update_subset_insert)
  with assms show ?thesis unfolding auth_inv_def by (auto simp: set_pc_def)
qed

lemma auth_inv_cache:
  assumes "auth_inv w lag d st" "ttl c = d" "gomap_ok (entries c)"
    and "\<And>token e. map_of (entries c) token = Some e \<Longrightarrow>
      map_of (entries (sys_cache st)) token = Some e \<or> entry_sound w (lag + d) (sys_clock st) token e"
  shows "auth_inv w lag d (st\<lparr>sys_cache := c\<rparr>)"
  using assms unfolding auth_inv_def by auto

lemma auth_inv_call:
  assumes "auth_inv w lag d st" "i < length (sys_calls st)"
  shows "call_sound w lag d (sys_clock st) (sys_calls st ! i)"
  using assms by (simp add: auth_inv_def)

lemma auth_inv_step:
  assumes inv: "auth_inv w lag d st" and step: "auth_step w lag st st'" and pos: "0 \<le> lag" "0 \<le> d"
  shows "auth_inv w lag d st'"
  using step
proof cases
  case (tick x)
  have ent: "entry_sound w (lag + d) (sys_clock st) token e \<Longrightarrow>
      entry_sound w (lag + d) (sys_clock st + x) token e" for token e
    by (erule entry_sound_mono) (use tick in simp)
  have "call_sound w lag d (sys_clock st + x) c" if "c \<in> set (sys_calls st)" for c
    by (rule call_sound_mono [where t = "sys_clock st"]) (use that tick inv in \<open>auto simp: auth_inv_def\<close>)
  with inv ent tick show ?thesis by (auto simp: auth_inv_def)
next
  case sweep
  have ok: "gomap_ok (entries (sys_cache st))" using inv by (simp add: auth_inv_def)
  show ?thesis unfolding sweep
    by (rule auth_inv_cache [OF inv])
      (use inv ok in \<open>auto simp: cache_deleteExpired_def auth_inv_def gomap_ok_filter gomap_filter_lookup\<close>)
next
  case (arrive token url)
  with inv show ?thesis by (auto simp: auth_inv_def call_sound_def)
next
  case (lookup i)
  show ?thesis unfolding lookup(1)
    by (rule auth_inv_set_pc [OF inv lookup(2)])
      (use inv in \<open>auto simp: call_sound_def auth_inv_def split: option.split\<close>)
next
  case (check i e)
  have e: "entry_sound w (lag + d) (sys_clock st) (call_token (sys_calls st ! i)) e"
    using auth_inv_call [OF inv check(2)] check(3) by (simp add: call_sound_def)
  have "recent w (lag + d) (sys_clock st) (call_token (sys_calls st ! i)) (username e)"
    if "\<not> sys_clock st > expiresAt e"
  proof -
    from e obtain v where "v \<le> sys_clock st" "expiresAt e - (lag + d) \<le> v"
      "reviewed w v (call_token (sys_calls st ! i)) (username e)" by (auto simp: entry_sound_def)
    with that show ?thesis unfolding recent_def by (intro exI [of _ v]) auto
  qed
  then show ?thesis unfolding check(1)
    by (intro auth_inv_set_pc [OF inv check(2)]) (auto simp: call_sound_def)
next
  case (drop_stale i)
  have c: "auth_inv w lag d (st\<lparr>sys_cache := (sys_cache st)\<lparr>entries :=
      AList.delete (call_token (sys_calls st ! i)) (entries (sys_cache st))\<rparr>\<rparr>)"
    by (rule auth_inv_cache [OF inv])
      (use inv in \<open>auto simp: auth_inv_def map_of_delete gomap_ok_delete split: if_splits\<close>)
  show ?thesis unfolding drop_stale(1)
    by (rule auth_inv_set_pc [OF c]) (use drop_stale(2) in \<open>auto simp: call_sound_def\<close>)
next
  case (review i)
  let ?r = "ValidateToken (w (sys_clock st)) (call_token (sys_calls st ! i)) (call_url (sys_calls st ! i))"
  have "reviewed w (sys_clock st) (call_token (sys_calls st ! i)) u" if "?r = Inr u" for u
    using that by (auto simp: reviewed_def ValidateToken_Inr)
  then show ?thesis unfolding review(1)
    by (intro auth_inv_set_pc [OF inv review(2)]) (use pos in \<open>auto simp: call_sound_def split: sum.split\<close>)
next
  case (store i v u)
  let ?token = "call_token (sys_calls st ! i)"
  have s: "v \<le> sys_clock st" "sys_clock st \<le> v + lag" "reviewed w v ?token u"
    using auth_inv_call [OF inv store(2)] store(3) by (simp_all add: call_sound_def)
  have ttl: "ttl (sys_cache st) = d" using inv by (simp add: auth_inv_def)
  have "entry_sound w (lag + d) (sys_clock st) ?token \<lparr>username = u, expiresAt = sys_clock st + d\<rparr>"
    unfolding entry_sound_def using s by (intro exI [of _ v]) auto
  then have c: "auth_inv w lag d (st\<lparr>sys_cache := cache_set (sys_clock st) ?token u (sys_cache st)\<rparr>)"
    by (intro auth_inv_cache [OF inv])
      (use inv ttl in \<open>auto simp: cache_set_def auth_inv_def map_of_update gomap_ok_update split: if_splits\<close>)
  have "recent w (lag + d) (sys_clock st) ?token u"
    unfolding recent_def using s pos by (intro exI [of _ v]) auto
  then show ?thesis unfolding store(1)
    by (intro auth_inv_set_pc [OF c]) (use store(2) in \<open>auto simp: call_sound_def\<close>)
qed

lemma auth_inv_reach: "auth_reach w lag d st \<Longrightarrow> 0 \<le> lag \<Longrightarrow> 0 \<le> d \<Longrightarrow> auth_inv w lag d st"
proof (induction rule: auth_reach.induct)
  case (init t)
  then show ?case by (simp add: auth_inv_def newTokenCache_def gomap_ok_Nil)
next
  case (step st st')
  then show ?case using auth_inv_step by blast
qed

section \<open>Properties\<close>

definition sample_review_body :: string where
  "sample_review_body = ''{\"status\":{\"authenticated\":true,\"user\":{\"username\":\"sa:a\"}}}''"

lemma sample_review_decoded:
  "decode_text decode_tokenReviewResponse sample_review_body =
     Some (zero_tokenReviewResponse\<lparr>review_Status := \<lparr>Authenticated = True, review_Error = [],
       review_User = \<lparr>Username = ''sa:a'', user_UID = [], Groups = []\<rparr>, review_Audiences = []\<rparr>\<rparr>)"
proof -
  have "json_read True sample_review_body = Read (JObj [(''status'', JObj [(''authenticated'', JBool True),
      (''user'', JObj [(''username'', JStr ''sa:a'')])])])"
    by (simp add: sample_review_body_def json_read_sample_simps)
  then show ?thesis
    by (simp add: decode_text_def decode_tokenReviewResponse_def zero_tokenReviewResponse_def set_review_field_def
        set_status_field_def set_user_field_def)
qed

definition sample_review :: "gotime \<Rightarrow> auth_world" where
  "sample_review t = \<lparr>au_incluster = True, au_sa_file = Some ''sa'', au_url_ok = (\<lambda>_. True),
     au_do = (\<lambda>r. if rr_body r = review_payload ''tok''
       then Some \<lparr>StatusCode = 201, reply_body = sample_review_body\<rparr> else None)\<rparr>"

lemma sample_ValidateToken: "ValidateToken (sample_review t) ''tok'' ''https://k'' = Inr ''sa:a''"
proof -
  have "strings_TrimSpace ''sa'' = ''sa''" by code_simp
  then show ?thesis by (simp add: ValidateToken_def readInClusterSAToken_def sample_review_def Let_def
      sample_review_decoded)
qed

text \<open>
  A token is accepted exactly if the API server vouches for it: \<open>ValidateToken\<close> returns a user
  name if and only if the in-cluster configuration and the mounted token are there, the review
  request for this very token is answered with a 2xx status and a decodable review that says
  authenticated, and the name in it is the one returned and not empty.
\<close>

theorem ValidateToken_exact:
  "ValidateToken w token url = Inr user \<longleftrightarrow>
     au_incluster w \<and> au_url_ok w (url @ tokenReviewPath) \<and>
     (\<exists>sa resp tr. readInClusterSAToken w = Inr sa
        \<and> au_do w \<lparr>rr_url = url @ tokenReviewPath, rr_bearer = ''Bearer '' @ sa, rr_body = review_payload token\<rparr> = Some resp
        \<and> 200 \<le> StatusCode resp \<and> StatusCode resp < 300
        \<and> decode_text decode_tokenReviewResponse (reply_body resp) = Some tr
        \<and> Authenticated (review_Status tr) \<and> Username (review_User (review_Status tr)) = user \<and> user \<noteq> [])"
  using ValidateToken_Inr by (simp add: vouches_def)

text \<open>
  C27. The cache cannot extend an identity, however calls interleave: whenever a concurrent call of
  the cached validator returns a user name, the API server named that user for the same token
  at most the time to live (and the scheduling delay between a review and its store) earlier.
\<close>

theorem cached_identity_recent:
  assumes "auth_reach w lag d st" "0 \<le> lag" "0 \<le> d"
    and "i < length (sys_calls st)" "call_pc (sys_calls st ! i) = PDone f (Inr u)"
  shows "\<exists>v \<le> f. f - (lag + d) \<le> v \<and> reviewed w v (call_token (sys_calls st ! i)) u"
proof -
  have "call_sound w lag d (sys_clock st) (sys_calls st ! i)"
    by (rule auth_inv_call [OF auth_inv_reach [OF assms(1-3)] assms(4)])
  with assms(5) show ?thesis by (simp add: call_sound_def recent_def)
qed

definition sample_auth_sys :: "call_pc \<Rightarrow> tokenCache \<Rightarrow> auth_sys" where
  "sample_auth_sys p c = \<lparr>sys_clock = 0, sys_cache = c,
     sys_calls = [\<lparr>call_token = ''tok'', call_url = ''https://k'', call_pc = p\<rparr>]\<rparr>"

definition sample_auth_done :: auth_sys where
  "sample_auth_done = sample_auth_sys (PDone 0 (Inr ''sa:a'')) (cache_set 0 ''tok'' ''sa:a'' (newTokenCache 300))"

lemma sample_auth_reach: "auth_reach sample_review 5 300 sample_auth_done"
proof -
  let ?c = "newTokenCache 300"
  have 0: "auth_reach sample_review 5 300 \<lparr>sys_clock = 0, sys_cache = ?c, sys_calls = []\<rparr>" by (rule init)
  have 1: "auth_reach sample_review 5 300 (sample_auth_sys PLookup ?c)"
    using step [OF 0 arrive [of sample_review 5 _ "''tok''" "''https://k''"]] by (simp add: sample_auth_sys_def)
  have 2: "auth_reach sample_review 5 300 (sample_auth_sys PValidate ?c)"
    using step [OF 1 lookup [of 0]] by (simp add: sample_auth_sys_def set_pc_def newTokenCache_def)
  have 3: "auth_reach sample_review 5 300 (sample_auth_sys (PStore 0 ''sa:a'') ?c)"
    using step [OF 2 review [of 0]] by (simp add: sample_auth_sys_def set_pc_def sample_ValidateToken)
  show ?thesis
    using step [OF 3 store [of 0]] by (simp add: sample_auth_sys_def sample_auth_done_def set_pc_def)
qed

theorem cached_identity_recent_witness:
  "\<exists>v \<le> (0 :: gotime). - 305 \<le> v \<and> reviewed sample_review v ''tok'' ''sa:a''"
  using cached_identity_recent [OF sample_auth_reach, of 0 0 "''sa:a''"]
  by (simp add: sample_auth_done_def sample_auth_sys_def)

end
