(* ===== verification/Jobs.thy ===== *)
theory Jobs
  imports GoStrings
begin

text \<open>
  Background jobs: \<open>internal/daemon/jobs.go\<close>, one operation at a time. Jobs are shared by
  pointer between the goroutine that runs the command, the registry and the handlers, so they
  live in a store and the registry maps an id to a reference. Each operation here holds the
  lock of what it touches; the theory \<open>JobSystem\<close> interleaves them. The locale
  \<open>job_registry\<close> states what the handlers rely on.
\<close>

section \<open>Data\<close>

datatype JobStatus = JobStatusRunning | JobStatusCompleted | JobStatusKilled

fun status_text :: "JobStatus \<Rightarrow> string" where
  "status_text JobStatusRunning = ''running''"
| "status_text JobStatusCompleted = ''completed''"
| "status_text JobStatusKilled = ''killed''"

lemma status_text_inj [simp]: "status_text a = status_text b \<longleftrightarrow> a = b"
  by (cases a; cases b) simp_all

text \<open>The life cycle as an order: a running job may still become either terminal state.\<close>

instantiation JobStatus :: order_bot
begin

definition bot_JobStatus :: JobStatus where
  "bot_JobStatus = JobStatusRunning"

definition less_eq_JobStatus :: "JobStatus \<Rightarrow> JobStatus \<Rightarrow> bool" where
  "less_eq_JobStatus a b \<longleftrightarrow> a = JobStatusRunning \<or> a = b"

definition less_JobStatus :: "JobStatus \<Rightarrow> JobStatus \<Rightarrow> bool" where
  "less_JobStatus a b \<longleftrightarrow> a = JobStatusRunning \<and> b \<noteq> JobStatusRunning"

instance
  by standard (auto simp: less_eq_JobStatus_def less_JobStatus_def bot_JobStatus_def)

end

lemma status_le_iff: "a \<le> b \<longleftrightarrow> a = JobStatusRunning \<or> a = b" for a b :: JobStatus
  by (simp add: less_eq_JobStatus_def)

text \<open>
  A job. \<open>ctx_cancelled\<close> is whether \<open>jobCtx.Err()\<close> is set, \<open>ctx_deadline\<close> the deadline of the
  context it is derived from, \<open>job_done\<close> whether the channel \<open>done\<close> is closed; the zero times
  are \<open>None\<close>.
\<close>

record BackgroundJob =
  job_id :: string
  callerID :: string
  job_command :: string
  job_stdout :: string
  job_stderr :: string
  ctx_cancelled :: bool
  ctx_deadline :: gotime
  job_done :: bool
  startedAt :: gotime
  status :: JobStatus
  exitCode :: int
  completedAt :: "gotime option"
  lastAccessedAt :: "gotime option"

text \<open>The times are rendered by the code in RFC 3339.\<close>

record JobInfo =
  info_ID :: string
  info_CallerID :: string
  info_Command :: string
  info_Status :: string
  info_ExitCode :: int
  info_Stdout :: string
  info_Stderr :: string
  info_StartedAt :: gotime
  info_CompletedAt :: "gotime option"

definition maxBackgroundJobs :: nat where
  "maxBackgroundJobs = 100"

definition completedJobRetention :: int where
  "completedJobRetention = 5 * 60 * 1000000000"

definition job_maxOutputBytes :: nat where
  "job_maxOutputBytes = 64 * 1024"

section \<open>Operations on one job\<close>

definition newBackgroundJob :: "gotime \<Rightarrow> gotime \<Rightarrow> string \<Rightarrow> string \<Rightarrow> BackgroundJob" where
  "newBackgroundJob now deadline caller command =
     \<lparr>job_id = [], callerID = caller, job_command = command, job_stdout = [], job_stderr = [],
      ctx_cancelled = False, ctx_deadline = deadline, job_done = False, startedAt = now,
      status = JobStatusRunning, exitCode = 0, completedAt = None, lastAccessedAt = None\<rparr>"

text \<open>
  \<open>syncBuffer\<close>: its methods hold the mutex for their whole run, so each is one step on the bytes.
  \<open>Write\<close> also returns the number of bytes and never an error.
\<close>

type_synonym syncBuffer = string

definition syncBuffer_Write :: "string \<Rightarrow> syncBuffer \<Rightarrow> nat \<times> syncBuffer" where
  [simp]: "syncBuffer_Write p b = (length p, b @ p)"

definition syncBuffer_String :: "syncBuffer \<Rightarrow> string" where
  [simp]: "syncBuffer_String b = b"

text \<open>The writes of the job's goroutine after \<open>Exec\<close>: the error text goes first into stderr.\<close>

definition write_output :: "string option \<Rightarrow> string \<Rightarrow> string \<Rightarrow> BackgroundJob \<Rightarrow> BackgroundJob" where
  "write_output err out errout j =
     (let stderr1 = (case err of None \<Rightarrow> job_stderr j
                     | Some e \<Rightarrow> snd (syncBuffer_Write (e @ nl) (job_stderr j)))
      in j\<lparr>job_stdout := snd (syncBuffer_Write out (job_stdout j)),
            job_stderr := snd (syncBuffer_Write errout stderr1)\<rparr>)"

lemma write_output_eq:
  "write_output err out errout j =
     j\<lparr>job_stdout := job_stdout j @ out,
       job_stderr := job_stderr j @ (case err of None \<Rightarrow> [] | Some e \<Rightarrow> e @ nl) @ errout\<rparr>"
  by (simp add: write_output_def Let_def split: option.split)

definition finish :: "gotime \<Rightarrow> JobStatus \<Rightarrow> int \<Rightarrow> BackgroundJob \<Rightarrow> BackgroundJob" where
  "finish now s code j = j\<lparr>status := s, exitCode := code, completedAt := Some now\<rparr>"

definition job_truncate :: "string \<Rightarrow> string" where
  "job_truncate s =
     (if length s \<le> job_maxOutputBytes then s
      else take job_maxOutputBytes s @ nl @ ''...(truncated)'')"

definition snapshot :: "gotime \<Rightarrow> bool \<Rightarrow> BackgroundJob \<Rightarrow> JobInfo \<times> BackgroundJob" where
  "snapshot now withOutput j =
     (let info = \<lparr>info_ID = job_id j, info_CallerID = callerID j, info_Command = job_command j,
            info_Status = status_text (status j), info_ExitCode = exitCode j,
            info_Stdout = [], info_Stderr = [], info_StartedAt = startedAt j,
            info_CompletedAt = completedAt j\<rparr>
      in if withOutput \<and> status j \<noteq> JobStatusRunning then
           (info\<lparr>info_Stdout := job_truncate (syncBuffer_String (job_stdout j)),
              info_Stderr := job_truncate (syncBuffer_String (job_stderr j))\<rparr>,
            if lastAccessedAt j = None then j\<lparr>lastAccessedAt := Some now\<rparr> else j)
         else (info, j))"

definition isExpired :: "gotime \<Rightarrow> BackgroundJob \<Rightarrow> bool" where
  "isExpired now j =
     (if status j = JobStatusRunning then False
      else case lastAccessedAt j of None \<Rightarrow> False
      | Some t \<Rightarrow> now - t \<ge> completedJobRetention)"

definition IsDone :: "BackgroundJob \<Rightarrow> bool" where
  "IsDone j = job_done j"

text \<open>\<open>Wait\<close> returns where the job is done, and blocks otherwise.\<close>

definition Wait :: "BackgroundJob \<Rightarrow> unit option" where
  "Wait j = (if job_done j then Some () else None)"

section \<open>The registry\<close>

record job_store =
  heap :: "BackgroundJob list"
  jobs :: "(string, nat) gomap"
  seq :: "64 word"

definition NewBackgroundJobManager :: job_store where
  "NewBackgroundJobManager = \<lparr>heap = [], jobs = [], seq = 0\<rparr>"

definition modify_job :: "nat \<Rightarrow> (BackgroundJob \<Rightarrow> BackgroundJob) \<Rightarrow> job_store \<Rightarrow> job_store" where
  "modify_job r f st = st\<lparr>heap := (heap st)[r := f (heap st ! r)]\<rparr>"

definition gcLocked :: "gotime \<Rightarrow> job_store \<Rightarrow> job_store" where
  "gcLocked now st = st\<lparr>jobs := filter (\<lambda>(ident, r). \<not> isExpired now (heap st ! r)) (jobs st)\<rparr>"

definition Manager_Add :: "gotime \<Rightarrow> nat \<Rightarrow> job_store \<Rightarrow> bool \<times> job_store" where
  "Manager_Add now r st =
     (let st1 = gcLocked now st in
      if length (jobs st1) \<ge> maxBackgroundJobs then (False, st1)
      else
        let n = seq st1 + 1;
            ident = fmt_06x (unat n);
            st2 = modify_job r (job_id_update (\<lambda>_. ident)) (st1\<lparr>seq := n\<rparr>)
        in (True, st2\<lparr>jobs := AList.update ident r (jobs st2)\<rparr>))"

definition Manager_Get :: "string \<Rightarrow> job_store \<Rightarrow> nat option" where
  "Manager_Get ident st = map_of (jobs st) ident"

definition Manager_Remove :: "string \<Rightarrow> job_store \<Rightarrow> job_store" where
  "Manager_Remove ident st = st\<lparr>jobs := AList.delete ident (jobs st)\<rparr>"

fun list_loop :: "gotime \<Rightarrow> BackgroundJob list \<Rightarrow> string \<Rightarrow> string \<Rightarrow> (string, nat) gomap \<Rightarrow> JobInfo list" where
  "list_loop now hp stat caller [] = []"
| "list_loop now hp stat caller ((ident, r) # rest) =
     (let info = fst (snapshot now False (hp ! r)) in
      if stat \<noteq> [] \<and> info_Status info \<noteq> stat then list_loop now hp stat caller rest
      else if caller \<noteq> [] \<and> info_CallerID info \<noteq> caller then list_loop now hp stat caller rest
      else info # list_loop now hp stat caller rest)"

definition Manager_List :: "gotime \<Rightarrow> string \<Rightarrow> string \<Rightarrow> job_store \<Rightarrow> JobInfo list" where
  "Manager_List now stat caller st = list_loop now (heap st) stat caller (jobs st)"

definition Manager_Kill :: "string \<Rightarrow> job_store \<Rightarrow> bool \<times> job_store" where
  "Manager_Kill ident st =
     (case map_of (jobs st) ident of None \<Rightarrow> (False, st)
      | Some r \<Rightarrow>
          if job_done (heap st ! r) then (False, st)
          else (True, modify_job r (ctx_cancelled_update (\<lambda>_. True)) st))"

section \<open>Snapshots\<close>

lemma snapshot_running:
  "status j = JobStatusRunning \<Longrightarrow>
   snd (snapshot now b j) = j \<and> info_Stdout (fst (snapshot now b j)) = [] \<and> info_Stderr (fst (snapshot now b j)) = []"
  by (simp add: snapshot_def Let_def)

lemma snapshot_done:
  "status j \<noteq> JobStatusRunning \<Longrightarrow>
   info_Stdout (fst (snapshot now True j)) = job_truncate (job_stdout j)
   \<and> info_Stderr (fst (snapshot now True j)) = job_truncate (job_stderr j)
   \<and> lastAccessedAt (snd (snapshot now True j)) = Some (case lastAccessedAt j of None \<Rightarrow> now | Some t \<Rightarrow> t)"
  by (auto simp: snapshot_def Let_def split: option.split)

lemma snapshot_False: "snd (snapshot now False j) = j"
  by (simp add: snapshot_def Let_def)

text \<open>A snapshot changes nothing but the time of the first access.\<close>

lemma snapshot_frame:
  "lastAccessedAt_update f (snd (snapshot now b j)) = lastAccessedAt_update f (j\<lparr>lastAccessedAt := lastAccessedAt (snd (snapshot now b j))\<rparr>)"
  by (cases j) (simp add: snapshot_def Let_def)

lemma snapshot_fields [simp]:
  "job_id (snd (snapshot now b j)) = job_id j" "status (snd (snapshot now b j)) = status j"
  "job_done (snd (snapshot now b j)) = job_done j" "ctx_cancelled (snd (snapshot now b j)) = ctx_cancelled j"
  "completedAt (snd (snapshot now b j)) = completedAt j" "startedAt (snd (snapshot now b j)) = startedAt j"
  "job_stdout (snd (snapshot now b j)) = job_stdout j" "job_stderr (snd (snapshot now b j)) = job_stderr j"
  "callerID (snd (snapshot now b j)) = callerID j" "exitCode (snd (snapshot now b j)) = exitCode j"
  "ctx_deadline (snd (snapshot now b j)) = ctx_deadline j" "job_command (snd (snapshot now b j)) = job_command j"
  by (simp_all add: snapshot_def Let_def)

lemma snapshot_info [simp]:
  "info_ID (fst (snapshot now b j)) = job_id j" "info_CallerID (fst (snapshot now b j)) = callerID j"
  "info_Status (fst (snapshot now b j)) = status_text (status j)"
  "info_ExitCode (fst (snapshot now b j)) = exitCode j"
  "info_CompletedAt (fst (snapshot now b j)) = completedAt j"
  by (simp_all add: snapshot_def Let_def)

lemma list_loop_eq:
  "list_loop now hp stat caller m =
     map (\<lambda>(ident, r). fst (snapshot now False (hp ! r)))
       (filter (\<lambda>(ident, r). (stat = [] \<or> status_text (status (hp ! r)) = stat)
          \<and> (caller = [] \<or> callerID (hp ! r) = caller)) m)"
proof (induction m)
  case Nil
  then show ?case by simp
next
  case (Cons x m)
  obtain ident r where "x = (ident, r)" by (cases x)
  with Cons show ?case
    by (cases "stat = [] \<or> status_text (status (hp ! r)) = stat"; cases "caller = [] \<or> callerID (hp ! r) = caller")
      (simp_all add: Let_def)
qed

section \<open>The registry's state\<close>

lemma fmt_06x_not_Nil [simp]: "[] \<noteq> fmt_06x n"
  using fmt_06x_nonempty [of n] by metis

text \<open>
  Every entry's key is the id of a job in the store, drawn from the sequence so far, and the
  limit holds.
\<close>

definition registry_inv :: "job_store \<Rightarrow> bool" where
  "registry_inv st \<longleftrightarrow>
     gomap_ok (jobs st) \<and> length (jobs st) \<le> maxBackgroundJobs
     \<and> (\<forall>(ident, r) \<in> set (jobs st). r < length (heap st) \<and> job_id (heap st ! r) = ident
          \<and> (\<exists>k. 0 < k \<and> k \<le> unat (seq st) \<and> ident = fmt_06x k))"

lemma registry_inv_new: "registry_inv NewBackgroundJobManager"
  by (simp add: registry_inv_def NewBackgroundJobManager_def gomap_ok_Nil)

lemma registry_inv_filter:
  "registry_inv st \<Longrightarrow> registry_inv (st\<lparr>jobs := filter P (jobs st)\<rparr>)"
  by (auto simp: registry_inv_def gomap_ok_filter intro: order_trans [OF length_filter_le])

lemma registry_inv_gc: "registry_inv st \<Longrightarrow> registry_inv (gcLocked now st)"
  by (simp add: gcLocked_def registry_inv_filter)

lemma registry_inv_Remove: "registry_inv st \<Longrightarrow> registry_inv (Manager_Remove ident st)"
  by (simp add: Manager_Remove_def AList.delete_eq registry_inv_filter)

lemma registry_inv_modify:
  assumes "registry_inv st" "\<And>j. job_id (f j) = job_id j"
  shows "registry_inv (modify_job r f st)"
proof -
  have "job_id ((heap st)[r := f (heap st ! r)] ! q) = job_id (heap st ! q)" if "q < length (heap st)" for q
    using that assms(2) by (cases "q = r") auto
  with assms(1) show ?thesis by (fastforce simp: registry_inv_def modify_job_def)
qed

lemma modify_job_simps [simp]:
  "jobs (modify_job r f st) = jobs st" "seq (modify_job r f st) = seq st"
  "length (heap (modify_job r f st)) = length (heap st)"
  by (simp_all add: modify_job_def)

lemma heap_modify_job: "q < length (heap st) \<Longrightarrow>
  heap (modify_job r f st) ! q = (if q = r then f (heap st ! q) else heap st ! q)"
  by (simp add: modify_job_def nth_list_update)

lemma registry_entry:
  "registry_inv st \<Longrightarrow> Manager_Get ident st = Some r \<Longrightarrow>
   r < length (heap st) \<and> job_id (heap st ! r) = ident \<and> (\<exists>k. 0 < k \<and> k \<le> unat (seq st) \<and> ident = fmt_06x k)"
  by (fastforce simp: registry_inv_def Manager_Get_def dest: map_of_SomeD)

lemma gc_fields [simp]: "heap (gcLocked now st) = heap st" "seq (gcLocked now st) = seq st"
  by (simp_all add: gcLocked_def)

lemma Manager_Get_gc:
  assumes "registry_inv st"
  shows "Manager_Get ident (gcLocked now st) = Some r \<longleftrightarrow>
    Manager_Get ident st = Some r \<and> \<not> isExpired now (heap st ! r)"
  using assms by (simp add: Manager_Get_def gcLocked_def registry_inv_def gomap_filter_lookup)

text \<open>The sequence number does not wrap: the next id is new.\<close>

lemma next_seq:
  assumes "unat (seq st) < 2 ^ 64 - 1"
  shows "unat (seq st + 1) = Suc (unat (seq st))"
proof -
  have "unat (seq st) + unat (1 :: 64 word) < 2 ^ LENGTH(64)" using assms by simp
  then show ?thesis by (simp add: unat_add_lem [THEN iffD1])
qed

lemma next_id_fresh:
  assumes "registry_inv st" "unat (seq st) < 2 ^ 64 - 1"
  shows "fmt_06x (unat (seq st + 1)) \<notin> fst ` set (jobs st)"
proof
  assume "fmt_06x (unat (seq st + 1)) \<in> fst ` set (jobs st)"
  then obtain k where "k \<le> unat (seq st)" "fmt_06x (unat (seq st + 1)) = fmt_06x k"
    using assms(1) by (fastforce simp: registry_inv_def)
  then show False using next_seq [OF assms(2)] by (simp add: fmt_06x_inj)
qed

lemma Manager_Add_full:
  "Manager_Add now r st = (False, st') \<longleftrightarrow>
     length (jobs (gcLocked now st)) \<ge> maxBackgroundJobs \<and> st' = gcLocked now st"
  by (auto simp: Manager_Add_def Let_def)

lemma Manager_Add_ok:
  assumes "Manager_Add now r st = (True, st')" "registry_inv st" "unat (seq st) < 2 ^ 64 - 1"
    and "r < length (heap st)" "job_id (heap st ! r) = []"
  defines "ident \<equiv> fmt_06x (unat (seq st + 1))"
  shows "jobs st' = jobs (gcLocked now st) @ [(ident, r)]" "seq st' = seq st + 1"
    "heap st' = (heap st)[r := (heap st ! r)\<lparr>job_id := ident\<rparr>]"
    "registry_inv st'" "Manager_Get ident st = None"
proof -
  let ?g = "gcLocked now st"
  note inv = registry_inv_gc [OF assms(2), of now]
  have fresh: "ident \<notin> fst ` set (jobs ?g)" unfolding ident_def
    using next_id_fresh [OF inv] assms(3) by simp
  show "Manager_Get ident st = None"
    unfolding ident_def using next_id_fresh [OF assms(2,3)] by (simp add: Manager_Get_def map_of_eq_None_iff)
  have room: "length (jobs ?g) < maxBackgroundJobs"
    using assms(1) by (auto simp: Manager_Add_def Let_def split: if_splits)
  show j: "jobs st' = jobs ?g @ [(ident, r)]"
    using assms(1) room update_fresh [OF fresh, of r] by (auto simp: Manager_Add_def Let_def ident_def)
  show s: "seq st' = seq st + 1" using assms(1) room by (auto simp: Manager_Add_def Let_def)
  show h: "heap st' = (heap st)[r := (heap st ! r)\<lparr>job_id := ident\<rparr>]"
    using assms(1) room by (auto simp: Manager_Add_def Let_def modify_job_def ident_def)
  have old: "q < length (heap st') \<and> job_id (heap st' ! q) = i \<and> (\<exists>k. 0 < k \<and> k \<le> unat (seq st') \<and> i = fmt_06x k)"
    if "(i, q) \<in> set (jobs ?g)" for i q
  proof -
    from that inv obtain k where q: "q < length (heap st)" "job_id (heap st ! q) = i"
      "0 < k" "k \<le> unat (seq st)" "i = fmt_06x k" by (fastforce simp: registry_inv_def)
    have "q \<noteq> r" using q(2,5) assms(5) fmt_06x_nonempty by metis
    with q h s next_seq [OF assms(3)] show ?thesis by (intro conjI exI [of _ k]) auto
  qed
  have new: "r < length (heap st') \<and> job_id (heap st' ! r) = ident \<and> (\<exists>k. 0 < k \<and> k \<le> unat (seq st') \<and> ident = fmt_06x k)"
    using h s next_seq [OF assms(3)] assms(4) by (auto simp: ident_def)
  have "gomap_ok (jobs st')" using inv fresh by (auto simp: j registry_inv_def gomap_ok_def)
  with old new room show "registry_inv st'" unfolding registry_inv_def j by auto
qed

lemma registry_inv_Kill: "registry_inv st \<Longrightarrow> registry_inv (snd (Manager_Kill ident st))"
  by (auto simp: Manager_Kill_def registry_inv_modify split: option.split)

section \<open>What the handlers rely on\<close>

text \<open>
  A registry hands out ids: \<open>issued\<close> are those given so far, \<open>unregistered\<close> the jobs not yet
  added, and the invariant allows \<open>n\<close> further additions.
\<close>

locale job_registry =
  fixes get :: "string \<Rightarrow> 's \<Rightarrow> nat option"
    and add :: "gotime \<Rightarrow> nat \<Rightarrow> 's \<Rightarrow> string option \<times> 's"
    and remove :: "string \<Rightarrow> 's \<Rightarrow> 's"
    and inv :: "nat \<Rightarrow> 's \<Rightarrow> bool"
    and issued :: "'s \<Rightarrow> string set"
    and unregistered :: "'s \<Rightarrow> nat set"
    and expired :: "gotime \<Rightarrow> 's \<Rightarrow> nat \<Rightarrow> bool"
  assumes get_issued: "inv n s \<Longrightarrow> get i s = Some r \<Longrightarrow> i \<in> issued s \<and> r \<notin> unregistered s"
    and add_ok: "inv (Suc n) s \<Longrightarrow> r \<in> unregistered s \<Longrightarrow> add now r s = (Some i, s') \<Longrightarrow>
      inv n s' \<and> i \<notin> issued s \<and> issued s' = insert i (issued s) \<and> unregistered s' = unregistered s - {r}
      \<and> get i s' = Some r"
    and add_full: "inv (Suc n) s \<Longrightarrow> add now r s = (None, s') \<Longrightarrow>
      inv n s' \<and> issued s' = issued s \<and> unregistered s' = unregistered s"
    and add_others: "inv (Suc n) s \<Longrightarrow> r \<in> unregistered s \<Longrightarrow> add now r s = (Some i, s') \<Longrightarrow> k \<noteq> i \<Longrightarrow>
      get k s' = Some q \<longleftrightarrow> get k s = Some q \<and> \<not> expired now s q"
    and remove_inv: "inv n s \<Longrightarrow> inv n (remove i s)"
    and get_remove: "inv n s \<Longrightarrow> get k (remove i s) = (if k = i then None else get k s)"
    and remove_issued: "issued (remove i s) = issued s"
begin

fun add_all :: "(gotime \<times> nat) list \<Rightarrow> 's \<Rightarrow> string option list" where
  "add_all [] s = []"
| "add_all ((now, r) # rs) s = fst (add now r s) # add_all rs (snd (add now r s))"

text \<open>However many jobs come and go, no id is handed out twice.\<close>

lemma add_all_new:
  assumes "inv (length rs) s" "distinct (map snd rs)" "snd ` set rs \<subseteq> unregistered s"
  shows "distinct (filter (\<lambda>i. i \<noteq> None) (add_all rs s)) \<and> Some ` issued s \<inter> set (add_all rs s) = {}"
  using assms
proof (induction rs arbitrary: s)
  case Nil
  then show ?case by simp
next
  case (Cons x rs)
  obtain now r where x: "x = (now, r)" by (cases x)
  obtain i s' where a: "add now r s = (i, s')" by fastforce
  have inv: "inv (Suc (length rs)) s" and r: "r \<in> unregistered s" using Cons.prems x by auto
  show ?case
  proof (cases i)
    case None
    note f = add_full [OF inv a [unfolded None]]
    have "snd ` set rs \<subseteq> unregistered s'" using f Cons.prems x by auto
    with f Cons.IH [of s'] Cons.prems(2) x a None show ?thesis by auto
  next
    case (Some k)
    note f = add_ok [OF inv r a [unfolded Some]]
    have "snd ` set rs \<subseteq> unregistered s'" using f Cons.prems x by auto
    with f Cons.IH [of s'] Cons.prems(2) have
      ih: "distinct (filter (\<lambda>i. i \<noteq> None) (add_all rs s'))" "Some ` insert k (issued s) \<inter> set (add_all rs s') = {}"
      by auto
    have "add_all (x # rs) s = Some k # add_all rs s'" by (simp add: x a Some)
    with ih f show ?thesis by auto
  qed
qed

lemma stale_id:
  assumes "inv (Suc n) s" "r \<in> unregistered s" "add now r (remove k s) = (Some i, s')"
    and "k \<in> issued s" "unregistered (remove k s) = unregistered s"
  shows "get k s' = None"
proof -
  have inv: "inv (Suc n) (remove k s)" using remove_inv [OF assms(1)] .
  have r: "r \<in> unregistered (remove k s)" using assms by simp
  have "k \<noteq> i" using add_ok [OF inv r assms(3)] remove_issued assms(4) by metis
  from add_others [OF inv r assms(3) this] get_remove [OF assms(1), of k k] show ?thesis
    by (cases "get k s'") auto
qed

end

text \<open>A registry whose jobs can be cancelled by id.\<close>

locale killable_registry = job_registry get add remove inv issued unregistered expired
  for get :: "string \<Rightarrow> 's \<Rightarrow> nat option" and add remove inv issued unregistered expired +
  fixes kill :: "string \<Rightarrow> 's \<Rightarrow> bool \<times> 's"
    and finished :: "'s \<Rightarrow> nat \<Rightarrow> bool"
    and cancelled :: "'s \<Rightarrow> nat \<Rightarrow> bool"
  assumes kill_answer: "fst (kill i s) \<longleftrightarrow> (\<exists>r. get i s = Some r \<and> \<not> finished s r)"
    and kill_get: "get k (snd (kill i s)) = get k s"
    and kill_finished: "finished (snd (kill i s)) r = finished s r"
    and kill_inv: "inv n s \<Longrightarrow> inv n (snd (kill i s))"
    and kill_cancels: "inv n s \<Longrightarrow> get i s = Some r \<Longrightarrow> fst (kill i s) \<Longrightarrow> cancelled (snd (kill i s)) r"
begin

lemma kill_again: "fst (kill i (snd (kill i s))) = fst (kill i s)"
  by (simp add: kill_answer kill_get kill_finished)

end

definition manager_add :: "gotime \<Rightarrow> nat \<Rightarrow> job_store \<Rightarrow> string option \<times> job_store" where
  "manager_add now r st =
     (let (ok, st') = Manager_Add now r st in (if ok then Some (job_id (heap st' ! r)) else None, st'))"

definition manager_inv :: "nat \<Rightarrow> job_store \<Rightarrow> bool" where
  "manager_inv n st \<longleftrightarrow> registry_inv st \<and> unat (seq st) + n < 2 ^ 64"

definition manager_issued :: "job_store \<Rightarrow> string set" where
  "manager_issued st = fmt_06x ` {0<..unat (seq st)}"

definition manager_unregistered :: "job_store \<Rightarrow> nat set" where
  "manager_unregistered st = {r. r < length (heap st) \<and> job_id (heap st ! r) = []}"

lemma manager_add_Some:
  assumes "manager_inv (Suc n) st" "r \<in> manager_unregistered st" "manager_add now r st = (Some i, st')"
  shows "Manager_Add now r st = (True, st')" "i = fmt_06x (unat (seq st + 1))"
    "unat (seq st + 1) = Suc (unat (seq st))"
proof -
  show m: "Manager_Add now r st = (True, st')"
    using assms(3) by (auto simp: manager_add_def split: prod.splits if_splits)
  have b: "unat (seq st) < 2 ^ 64 - 1" "registry_inv st" using assms(1) by (auto simp: manager_inv_def)
  have r: "r < length (heap st)" "job_id (heap st ! r) = []" using assms(2) by (auto simp: manager_unregistered_def)
  from Manager_Add_ok(3) [OF m b(2,1) r] m assms(3) r show "i = fmt_06x (unat (seq st + 1))"
    by (simp add: manager_add_def)
  show "unat (seq st + 1) = Suc (unat (seq st))" by (rule next_seq [OF b(1)])
qed

lemma manager_add_law:
  assumes "manager_inv (Suc n) st" "r \<in> manager_unregistered st" "manager_add now r st = (Some i, st')"
  shows "manager_inv n st'" "i \<notin> manager_issued st" "manager_issued st' = insert i (manager_issued st)"
    "manager_unregistered st' = manager_unregistered st - {r}" "Manager_Get i st' = Some r"
    "k \<noteq> i \<Longrightarrow> Manager_Get k st' = Some q \<longleftrightarrow> Manager_Get k st = Some q \<and> \<not> isExpired now (heap st ! q)"
proof -
  note a = manager_add_Some [OF assms]
  have b: "unat (seq st) < 2 ^ 64 - 1" "registry_inv st" "unat (seq st) + Suc n < 2 ^ 64"
    using assms(1) by (auto simp: manager_inv_def)
  have r: "r < length (heap st)" "job_id (heap st ! r) = []" using assms(2) by (auto simp: manager_unregistered_def)
  note f = Manager_Add_ok [OF a(1) b(2,1) r, folded a(2)]
  show "manager_inv n st'" using f(2,4) a(3) b(3) by (simp add: manager_inv_def)
  show "i \<notin> manager_issued st" using a(2,3) by (auto simp: manager_issued_def fmt_06x_inj)
  have "{0<..Suc m} = insert (Suc m) {0<..m}" for m :: nat by auto
  then show "manager_issued st' = insert i (manager_issued st)"
    unfolding manager_issued_def f(2) a(3) a(2) by simp
  have i: "i \<noteq> []" using a(2) by simp
  show "manager_unregistered st' = manager_unregistered st - {r}"
  proof (rule set_eqI)
    fix q
    show "q \<in> manager_unregistered st' \<longleftrightarrow> q \<in> manager_unregistered st - {r}"
      using i r f(3) by (cases "q = r") (auto simp: manager_unregistered_def)
  qed
  have dist: "gomap_ok (jobs st')" using f(4) by (simp add: registry_inv_def)
  show "Manager_Get i st' = Some r"
    unfolding Manager_Get_def gomap_lookup_iff [OF dist] by (simp add: f(1))
  have "Manager_Get k st' = Some q \<longleftrightarrow> (k, q) \<in> set (jobs st')"
    unfolding Manager_Get_def by (rule gomap_lookup_iff [OF dist])
  moreover have "Manager_Get k (gcLocked now st) = Some q \<longleftrightarrow> (k, q) \<in> set (jobs (gcLocked now st))"
    unfolding Manager_Get_def using registry_inv_gc [OF b(2)] by (simp add: gomap_lookup_iff registry_inv_def)
  ultimately show "k \<noteq> i \<Longrightarrow> Manager_Get k st' = Some q \<longleftrightarrow> Manager_Get k st = Some q \<and> \<not> isExpired now (heap st ! q)"
    using Manager_Get_gc [OF b(2), of k now q] f(1) by auto
qed

lemma manager_add_None:
  assumes "manager_inv (Suc n) st" "manager_add now r st = (None, st')"
  shows "st' = gcLocked now st \<and> manager_inv n st'"
proof -
  have "Manager_Add now r st = (False, st')"
    using assms(2) by (auto simp: manager_add_def split: prod.splits if_splits)
  then have "st' = gcLocked now st" by (simp add: Manager_Add_full)
  with assms(1) show ?thesis by (simp add: manager_inv_def registry_inv_gc)
qed

lemma manager_issued_cong [simp]:
  "manager_issued (gcLocked now st) = manager_issued st"
  "manager_unregistered (gcLocked now st) = manager_unregistered st"
  "manager_issued (Manager_Remove k st) = manager_issued st"
  "manager_unregistered (Manager_Remove k st) = manager_unregistered st"
  by (simp_all add: manager_issued_def manager_unregistered_def Manager_Remove_def)

lemma manager_get_issued:
  assumes "manager_inv n st" "Manager_Get i st = Some r"
  shows "i \<in> manager_issued st \<and> r \<notin> manager_unregistered st"
proof -
  have "registry_inv st" using assms(1) by (simp add: manager_inv_def)
  from registry_entry [OF this assms(2)] show ?thesis
    by (auto simp: manager_issued_def manager_unregistered_def)
qed

interpretation manager: job_registry Manager_Get manager_add Manager_Remove manager_inv manager_issued
  manager_unregistered "\<lambda>now st r. isExpired now (heap st ! r)"
proof
  fix n i r k q now and st st' :: job_store
  show "manager_inv n st \<Longrightarrow> Manager_Get i st = Some r \<Longrightarrow> i \<in> manager_issued st \<and> r \<notin> manager_unregistered st"
    by (rule manager_get_issued)
  show "manager_inv (Suc n) st \<Longrightarrow> r \<in> manager_unregistered st \<Longrightarrow> manager_add now r st = (Some i, st') \<Longrightarrow>
      manager_inv n st' \<and> i \<notin> manager_issued st \<and> manager_issued st' = insert i (manager_issued st)
      \<and> manager_unregistered st' = manager_unregistered st - {r} \<and> Manager_Get i st' = Some r"
    by (blast dest: manager_add_law)
  show "manager_inv (Suc n) st \<Longrightarrow> manager_add now r st = (None, st') \<Longrightarrow>
      manager_inv n st' \<and> manager_issued st' = manager_issued st \<and> manager_unregistered st' = manager_unregistered st"
    by (auto dest!: manager_add_None)
  show "manager_inv (Suc n) st \<Longrightarrow> r \<in> manager_unregistered st \<Longrightarrow> manager_add now r st = (Some i, st') \<Longrightarrow> k \<noteq> i \<Longrightarrow>
      Manager_Get k st' = Some q \<longleftrightarrow> Manager_Get k st = Some q \<and> \<not> isExpired now (heap st ! q)"
    by (rule manager_add_law(6))
  show "manager_inv n st \<Longrightarrow> manager_inv n (Manager_Remove i st)"
    by (simp add: manager_inv_def registry_inv_Remove) (simp add: Manager_Remove_def)
  show "manager_inv n st \<Longrightarrow> Manager_Get k (Manager_Remove i st) = (if k = i then None else Manager_Get k st)"
    by (simp add: Manager_Get_def Manager_Remove_def map_of_delete)
  show "manager_issued (Manager_Remove i st) = manager_issued st" by simp
qed

lemma Manager_Kill_cases:
  obtains (absent) "Manager_Get i st = None" "Manager_Kill i st = (False, st)"
  | (finished) r where "Manager_Get i st = Some r" "job_done (heap st ! r)" "Manager_Kill i st = (False, st)"
  | (killed) r where "Manager_Get i st = Some r" "\<not> job_done (heap st ! r)"
      "Manager_Kill i st = (True, modify_job r (ctx_cancelled_update (\<lambda>_. True)) st)"
  using that by (auto simp: Manager_Kill_def Manager_Get_def split: option.splits if_splits)

lemma Manager_Kill_job:
  "job_done (heap (snd (Manager_Kill i st)) ! q) = job_done (heap st ! q)"
proof (cases rule: Manager_Kill_cases [of i st])
  case (killed r)
  then show ?thesis
    by (cases "q < length (heap st)"; cases "q = r") (auto simp: modify_job_def nth_list_update list_update_beyond)
qed simp_all

interpretation manager_kill: killable_registry Manager_Get manager_add Manager_Remove manager_inv manager_issued
  manager_unregistered "\<lambda>now st r. isExpired now (heap st ! r)" Manager_Kill
  "\<lambda>st r. job_done (heap st ! r)" "\<lambda>st r. ctx_cancelled (heap st ! r)"
proof
  fix n i r k and st :: job_store
  show "fst (Manager_Kill i st) \<longleftrightarrow> (\<exists>r. Manager_Get i st = Some r \<and> \<not> job_done (heap st ! r))"
    by (cases rule: Manager_Kill_cases [of i st]) auto
  show "Manager_Get k (snd (Manager_Kill i st)) = Manager_Get k st"
    by (cases rule: Manager_Kill_cases [of i st]) (auto simp: Manager_Get_def)
  show "job_done (heap (snd (Manager_Kill i st)) ! r) = job_done (heap st ! r)" by (rule Manager_Kill_job)
  show "manager_inv n st \<Longrightarrow> manager_inv n (snd (Manager_Kill i st))"
    by (cases rule: Manager_Kill_cases [of i st]) (auto simp: manager_inv_def registry_inv_modify)
  show "manager_inv n st \<Longrightarrow> Manager_Get i st = Some r \<Longrightarrow> fst (Manager_Kill i st) \<Longrightarrow>
      ctx_cancelled (heap (snd (Manager_Kill i st)) ! r)"
  proof (cases rule: Manager_Kill_cases [of i st])
    case (killed q)
    assume "manager_inv n st" "Manager_Get i st = Some r"
    then have "r < length (heap st)" using registry_entry by (auto simp: manager_inv_def)
    with killed \<open>Manager_Get i st = Some r\<close> show ?thesis by (simp add: heap_modify_job)
  qed auto
qed

section \<open>Properties\<close>

text \<open>
  Job ids are never reused: in any sequence of additions of new jobs, at any times and with
  whatever expires in between, all ids handed out differ, and none was ever handed out before;
  so an old id never leads to a newer job.
\<close>

theorem job_ids_unique:
  assumes "manager_inv (length rs) st" "distinct (map snd rs)"
    and "set (map snd rs) \<subseteq> manager_unregistered st"
  shows "distinct (filter (\<lambda>i. i \<noteq> None) (manager.add_all rs st))
    \<and> Some ` manager_issued st \<inter> set (manager.add_all rs st) = {}"
  by (rule manager.add_all_new) (use assms in simp_all)

definition sample_jobs :: job_store where
  "sample_jobs = \<lparr>heap = [newBackgroundJob 0 9 [] ''a'', newBackgroundJob 0 9 [] ''b''], jobs = [], seq = 0\<rparr>"

theorem job_ids_unique_witness:
  "distinct (filter (\<lambda>i. i \<noteq> None) (manager.add_all [(0, 0), (5, 1)] sample_jobs))"
proof -
  have "registry_inv sample_jobs" by (simp add: registry_inv_def sample_jobs_def gomap_ok_Nil)
  then show ?thesis
    using job_ids_unique [of "[(0, 0), (5, 1)]" sample_jobs]
    by (auto simp: manager_inv_def manager_unregistered_def sample_jobs_def newBackgroundJob_def less_Suc_eq)
qed

end
