(* ===== verification/JobSystem.thy ===== *)
theory JobSystem
  imports Jobs
begin

text \<open>
  The background jobs as a state machine: the goroutine of each job, the handlers that
  register, read, kill or abandon jobs, and the clock, interleaved in any order. A step is one
  critical section of the code; between the steps of one goroutine all others may run. The
  theory proves what holds in every reachable state and along every step.
\<close>

section \<open>Steps\<close>

text \<open>
  The goroutine started by \<open>newBackgroundJob\<close>: it executes the command, has written the output,
  has read \<open>jobCtx.Err()\<close> and so decided the status, has recorded it with \<open>finish\<close>, has run
  the deferred \<open>cleanup\<close>, has closed \<open>done\<close>.
\<close>

datatype worker =
    Executing | Wrote int | Decided JobStatus int | Finished | Cleaned | Closed

record job_sys =
  js_clock :: gotime
  js_store :: job_store
  js_work :: "worker list"

datatype job_event =
    E_tick int
  | E_spawn int string string
  | E_expire nat
  | E_exec nat "string option" string string int
  | E_decide nat
  | E_finish nat
  | E_cleanup nat
  | E_close nat
  | E_register nat
  | E_kill string
  | E_cancel nat
  | E_read nat bool
  | E_remove string

definition job_at :: "job_sys \<Rightarrow> nat \<Rightarrow> BackgroundJob" where
  "job_at s r = heap (js_store s) ! r"

definition job_count :: "job_sys \<Rightarrow> nat" where
  "job_count s = length (heap (js_store s))"

definition with_store :: "(job_store \<Rightarrow> job_store) \<Rightarrow> job_sys \<Rightarrow> job_sys" where
  "with_store f s = s\<lparr>js_store := f (js_store s)\<rparr>"

definition set_work :: "nat \<Rightarrow> worker \<Rightarrow> job_sys \<Rightarrow> job_sys" where
  "set_work r w s = s\<lparr>js_work := (js_work s)[r := w]\<rparr>"

inductive job_step :: "job_event \<Rightarrow> job_sys \<Rightarrow> job_sys \<Rightarrow> bool" where
  tick: "0 \<le> d \<Longrightarrow> job_step (E_tick d) s (s\<lparr>js_clock := js_clock s + d\<rparr>)"
| spawn: "job_step (E_spawn timeout caller command) s
    (s\<lparr>js_store := (js_store s)\<lparr>heap := heap (js_store s)
         @ [newBackgroundJob (js_clock s) (js_clock s + timeout) caller command]\<rparr>,
       js_work := js_work s @ [Executing]\<rparr>)"
| expire: "r < job_count s \<Longrightarrow> ctx_deadline (job_at s r) \<le> js_clock s \<Longrightarrow>
    job_step (E_expire r) s (with_store (modify_job r (ctx_cancelled_update (\<lambda>_. True))) s)"
| exec: "r < job_count s \<Longrightarrow> js_work s ! r = Executing \<Longrightarrow>
    job_step (E_exec r err out errout code) s
      (set_work r (Wrote code) (with_store (modify_job r (write_output err out errout)) s))"
| decide: "r < job_count s \<Longrightarrow> js_work s ! r = Wrote code \<Longrightarrow>
    job_step (E_decide r) s
      (set_work r (Decided (if ctx_cancelled (job_at s r) then JobStatusKilled else JobStatusCompleted) code) s)"
| finish: "r < job_count s \<Longrightarrow> js_work s ! r = Decided stat code \<Longrightarrow>
    job_step (E_finish r) s
      (set_work r Finished (with_store (modify_job r (finish (js_clock s) stat code)) s))"
| cleanup: "r < job_count s \<Longrightarrow> js_work s ! r = Finished \<Longrightarrow>
    job_step (E_cleanup r) s
      (set_work r Cleaned (with_store (modify_job r (ctx_cancelled_update (\<lambda>_. True))) s))"
| close: "r < job_count s \<Longrightarrow> js_work s ! r = Cleaned \<Longrightarrow>
    job_step (E_close r) s
      (set_work r Closed (with_store (modify_job r (job_done_update (\<lambda>_. True))) s))"
| register: "r < job_count s \<Longrightarrow> job_id (job_at s r) = [] \<Longrightarrow>
    job_step (E_register r) s (with_store (\<lambda>st. snd (Manager_Add (js_clock s) r st)) s)"
| kill: "job_step (E_kill i) s (with_store (\<lambda>st. snd (Manager_Kill i st)) s)"
| cancel: "r < job_count s \<Longrightarrow>
    job_step (E_cancel r) s (with_store (modify_job r (ctx_cancelled_update (\<lambda>_. True))) s)"
| read: "r < job_count s \<Longrightarrow>
    job_step (E_read r b) s (with_store (modify_job r (\<lambda>j. snd (snapshot (js_clock s) b j))) s)"
| remove: "job_step (E_remove i) s (with_store (Manager_Remove i) s)"

inductive_cases job_step_registerE: "job_step (E_register r) s s'"
inductive_cases job_step_killE: "job_step (E_kill i) s s'"
inductive_cases job_step_readE: "job_step (E_read r b) s s'"

definition job_init :: "gotime \<Rightarrow> job_sys" where
  "job_init t = \<lparr>js_clock = t, js_store = NewBackgroundJobManager, js_work = []\<rparr>"

text \<open>The states a history of events leads to.\<close>

inductive job_run :: "job_event list \<Rightarrow> job_sys \<Rightarrow> job_sys \<Rightarrow> bool" where
  run_nil: "job_run [] s s"
| run_step: "job_run es s s' \<Longrightarrow> job_step e s' s'' \<Longrightarrow> job_run (es @ [e]) s s''"

definition job_reach :: "job_event list \<Rightarrow> job_sys \<Rightarrow> bool" where
  "job_reach es s \<longleftrightarrow> (\<exists>t. job_run es (job_init t) s)"

lemma job_reach_start: "job_reach [] (job_init t)"
  unfolding job_reach_def using run_nil by blast

lemma job_reach_step: "job_reach es s \<Longrightarrow> job_step e s s' \<Longrightarrow> job_reach (es @ [e]) s'"
  unfolding job_reach_def using run_step by blast

lemma job_run_append: "job_run fs s' s'' \<Longrightarrow> job_run es s s' \<Longrightarrow> job_run (es @ fs) s s''"
proof (induction rule: job_run.induct)
  case (run_step fs s' s'' e s''')
  from run_step.IH [OF run_step.prems] run_step.hyps(2) show ?case
    using job_run.run_step by fastforce
qed simp

lemma job_reach_run: "job_reach es s \<Longrightarrow> job_run fs s s' \<Longrightarrow> job_reach (es @ fs) s'"
  unfolding job_reach_def using job_run_append by blast

lemma job_reach_induct [consumes 1, case_names start step]:
  assumes "job_reach es s" "\<And>t. P [] (job_init t)"
    and "\<And>es s e s'. job_reach es s \<Longrightarrow> P es s \<Longrightarrow> job_step e s s' \<Longrightarrow> P (es @ [e]) s'"
  shows "P es s"
proof -
  have "job_run es s0 s \<Longrightarrow> s0 = job_init t \<Longrightarrow> P es s" for s0 t
  proof (induction rule: job_run.induct)
    case (run_step es s s' e s'')
    then show ?case using assms(3) unfolding job_reach_def by blast
  qed (use assms(2) in simp)
  with assms(1) show ?thesis unfolding job_reach_def by blast
qed

definition is_register :: "job_event \<Rightarrow> bool" where
  "is_register e = (case e of E_register r \<Rightarrow> True | _ \<Rightarrow> False)"

definition registrations :: "job_event list \<Rightarrow> nat" where
  "registrations es = length (filter is_register es)"

section \<open>The invariant\<close>

text \<open>A job and its goroutine at time \<open>t\<close>.\<close>

definition before_finish :: "worker \<Rightarrow> bool" where
  "before_finish w \<longleftrightarrow> (case w of Executing \<Rightarrow> True | Wrote _ \<Rightarrow> True | Decided _ _ \<Rightarrow> True | _ \<Rightarrow> False)"

definition job_ok :: "gotime \<Rightarrow> BackgroundJob \<Rightarrow> worker \<Rightarrow> bool" where
  "job_ok t j w \<longleftrightarrow>
     startedAt j \<le> t
     \<and> (status j = JobStatusRunning \<longleftrightarrow> before_finish w)
     \<and> (job_done j \<longleftrightarrow> w = Closed)
     \<and> (before_finish w \<longrightarrow> completedAt j = None \<and> lastAccessedAt j = None)
     \<and> (\<not> before_finish w \<longrightarrow> (\<exists>c. completedAt j = Some c \<and> startedAt j \<le> c \<and> c \<le> t
          \<and> (\<forall>a. lastAccessedAt j = Some a \<longrightarrow> c \<le> a \<and> a \<le> t)))
     \<and> (status j = JobStatusKilled \<longrightarrow> ctx_cancelled j)
     \<and> (w = Executing \<longrightarrow> job_stdout j = [] \<and> job_stderr j = [])
     \<and> (\<forall>s c. w = Decided s c \<longrightarrow> s \<noteq> JobStatusRunning \<and> (s = JobStatusKilled \<longrightarrow> ctx_cancelled j))"

definition jobs_ok :: "job_sys \<Rightarrow> bool" where
  "jobs_ok s \<longleftrightarrow> length (js_work s) = job_count s
     \<and> (\<forall>r < job_count s. job_ok (js_clock s) (job_at s r) (js_work s ! r))"

lemma job_ok_tick: "job_ok t j w \<Longrightarrow> t \<le> t' \<Longrightarrow> job_ok t' j w"
  unfolding job_ok_def by (meson order_trans)

text \<open>The steps of other parties keep a job well-formed.\<close>

lemma job_ok_cancel: "job_ok t j w \<Longrightarrow> job_ok t (j\<lparr>ctx_cancelled := True\<rparr>) w"
  by (simp add: job_ok_def)

lemma job_ok_id: "job_ok t j w \<Longrightarrow> job_ok t (j\<lparr>job_id := i\<rparr>) w"
  by (simp add: job_ok_def)

lemma job_ok_snapshot: "job_ok t j w \<Longrightarrow> job_ok t (snd (snapshot t b j)) w"
  by (auto simp: job_ok_def snapshot_def Let_def)

text \<open>The goroutine's own steps.\<close>

lemma job_ok_new: "job_ok t (newBackgroundJob t d c cmd) Executing"
  by (simp add: job_ok_def newBackgroundJob_def before_finish_def)

lemma job_ok_write: "job_ok t j Executing \<Longrightarrow> job_ok t (write_output e out errout j) (Wrote code)"
  by (simp add: job_ok_def write_output_eq before_finish_def)

lemma job_ok_decide:
  "job_ok t j (Wrote code) \<Longrightarrow>
   job_ok t j (Decided (if ctx_cancelled j then JobStatusKilled else JobStatusCompleted) code)"
  by (auto simp: job_ok_def before_finish_def)

lemma job_ok_finish: "job_ok t j (Decided s code) \<Longrightarrow> job_ok t (finish t s code j) Finished"
  by (auto simp: job_ok_def finish_def before_finish_def)

lemma job_ok_cleanup: "job_ok t j Finished \<Longrightarrow> job_ok t (j\<lparr>ctx_cancelled := True\<rparr>) Cleaned"
  by (simp add: job_ok_def before_finish_def)

lemma job_ok_close: "job_ok t j Cleaned \<Longrightarrow> job_ok t (j\<lparr>job_done := True\<rparr>) Closed"
  by (simp add: job_ok_def before_finish_def)

text \<open>A step changes at most one job and its goroutine.\<close>

lemma jobs_ok_modify_work:
  assumes "jobs_ok s" "job_ok (js_clock s) (f (job_at s r)) w"
  shows "jobs_ok (set_work r w (with_store (modify_job r f) s))"
proof -
  have "job_ok (js_clock s) ((heap (js_store s))[r := f (heap (js_store s) ! r)] ! q) ((js_work s)[r := w] ! q)"
    if "q < length (heap (js_store s))" for q
    using that assms by (cases "q = r") (auto simp: jobs_ok_def job_at_def job_count_def)
  with assms(1) show ?thesis
    by (auto simp: jobs_ok_def set_work_def with_store_def modify_job_def job_at_def job_count_def)
qed

lemma set_work_same: "set_work r (js_work s ! r) s = s"
  by (simp add: set_work_def)

lemma jobs_ok_modify:
  assumes "jobs_ok s" "job_ok (js_clock s) (f (job_at s r)) (js_work s ! r)"
  shows "jobs_ok (with_store (modify_job r f) s)"
  using jobs_ok_modify_work [where f = f and r = r and w = "js_work s ! r", OF assms] set_work_same [of r "with_store (modify_job r f) s"]
  by (simp add: with_store_def)

lemma jobs_ok_work:
  assumes "jobs_ok s" "job_ok (js_clock s) (job_at s r) w"
  shows "jobs_ok (set_work r w s)"
proof -
  have "with_store (modify_job r (\<lambda>j. j)) s = s" by (simp add: with_store_def modify_job_def)
  with jobs_ok_modify_work [of s "\<lambda>j. j" r w] assms show ?thesis by simp
qed

lemma jobs_ok_registry:
  assumes "jobs_ok s" "heap st = heap (js_store s)"
  shows "jobs_ok (s\<lparr>js_store := st\<rparr>)"
  using assms by (simp add: jobs_ok_def job_at_def job_count_def)

lemma Manager_Add_heap:
  "heap (snd (Manager_Add now r st)) = heap st
   \<or> (\<exists>i. heap (snd (Manager_Add now r st)) = heap (modify_job r (job_id_update (\<lambda>_. i)) st))"
  by (auto simp: Manager_Add_def Let_def modify_job_def)

lemma jobs_ok_at: "jobs_ok s \<Longrightarrow> r < job_count s \<Longrightarrow> job_ok (js_clock s) (job_at s r) (js_work s ! r)"
  by (simp add: jobs_ok_def)

lemma jobs_ok_step: "job_step e s s' \<Longrightarrow> jobs_ok s \<Longrightarrow> jobs_ok s'"
proof (induction rule: job_step.induct)
  case (tick d s)
  then show ?case using job_ok_tick by (auto simp: jobs_ok_def job_at_def job_count_def)
next
  case (spawn timeout caller command s)
  then show ?case by (auto simp: jobs_ok_def job_at_def job_count_def nth_append less_Suc_eq job_ok_new)
next
  case (expire r s)
  then show ?case using jobs_ok_at job_ok_cancel by (intro jobs_ok_modify) auto
next
  case (exec r s err out errout code)
  then show ?case using jobs_ok_at [of s r] by (intro jobs_ok_modify_work job_ok_write) auto
next
  case (decide r s code)
  then show ?case using jobs_ok_at [of s r] by (intro jobs_ok_work job_ok_decide) auto
next
  case (finish r s stat code)
  then show ?case using jobs_ok_at [of s r] by (intro jobs_ok_modify_work job_ok_finish) auto
next
  case (cleanup r s)
  then show ?case using jobs_ok_at [of s r] job_ok_cleanup by (intro jobs_ok_modify_work) auto
next
  case (close r s)
  then show ?case using jobs_ok_at [of s r] job_ok_close by (intro jobs_ok_modify_work) auto
next
  case (register r s)
  show ?case
  proof (cases "heap (snd (Manager_Add (js_clock s) r (js_store s))) = heap (js_store s)")
    case True
    then show ?thesis using jobs_ok_registry register by (simp add: with_store_def)
  next
    case False
    then obtain i where h: "heap (snd (Manager_Add (js_clock s) r (js_store s))) =
        heap (modify_job r (job_id_update (\<lambda>_. i)) (js_store s))" using Manager_Add_heap by blast
    have "jobs_ok (with_store (modify_job r (job_id_update (\<lambda>_. i))) s)"
      using register jobs_ok_at [of s r] job_ok_id by (intro jobs_ok_modify) auto
    from jobs_ok_registry [OF this, of "snd (Manager_Add (js_clock s) r (js_store s))"] h
    show ?thesis by (simp add: with_store_def)
  qed
next
  case (kill i s)
  show ?case
  proof (cases rule: Manager_Kill_cases [of i "js_store s"])
    case (killed r)
    show ?thesis
    proof (cases "r < job_count s")
      case True
      have "jobs_ok (with_store (modify_job r (ctx_cancelled_update (\<lambda>_. True))) s)"
        using kill jobs_ok_at [OF _ True] job_ok_cancel by (intro jobs_ok_modify) auto
      with killed show ?thesis by (simp add: with_store_def)
    next
      case False
      with killed kill show ?thesis
        by (simp add: with_store_def modify_job_def job_count_def list_update_beyond jobs_ok_registry)
    qed
  qed (use kill in \<open>simp_all add: with_store_def\<close>)
next
  case (cancel r s)
  then show ?case using jobs_ok_at job_ok_cancel by (intro jobs_ok_modify) auto
next
  case (read r s b)
  then show ?case using jobs_ok_at [of s r] job_ok_snapshot by (intro jobs_ok_modify) auto
next
  case (remove i s)
  then show ?case by (simp add: with_store_def Manager_Remove_def jobs_ok_registry)
qed

lemma jobs_ok_init: "jobs_ok (job_init t)"
  by (simp add: jobs_ok_def job_init_def job_count_def NewBackgroundJobManager_def)

lemma jobs_ok_reach: "job_reach es s \<Longrightarrow> jobs_ok s"
  by (induction rule: job_reach_induct) (auto intro: jobs_ok_init jobs_ok_step)

lemma jobs_ok_run: "job_run es s s' \<Longrightarrow> jobs_ok s \<Longrightarrow> jobs_ok s'"
  by (induction rule: job_run.induct) (auto intro: jobs_ok_step)

section \<open>What a step does to one job\<close>

lemma job_at_modify:
  "r < job_count s \<Longrightarrow> job_at (with_store (modify_job q f) s) r = (if r = q then f (job_at s r) else job_at s r)"
  by (simp add: job_at_def job_count_def with_store_def modify_job_def nth_list_update)

lemma job_at_work [simp]: "job_at (set_work q w s) r = job_at s r" "job_count (set_work q w s) = job_count s"
  by (simp_all add: job_at_def job_count_def set_work_def)

lemma job_count_modify [simp]: "job_count (with_store (modify_job q f) s) = job_count s"
  by (simp add: job_count_def with_store_def)

lemma job_at_register:
  "r < job_count s \<Longrightarrow> job_at (with_store (\<lambda>st. snd (Manager_Add t q st)) s) r = job_at s r
   \<or> r = q \<and> (\<exists>i. job_at (with_store (\<lambda>st. snd (Manager_Add t q st)) s) r = (job_at s r)\<lparr>job_id := i\<rparr>)"
proof -
  assume r: "r < job_count s"
  show ?thesis
  proof (cases "heap (snd (Manager_Add t q (js_store s))) = heap (js_store s)")
    case True
    then show ?thesis by (simp add: with_store_def job_at_def)
  next
    case False
    then obtain i where h: "heap (snd (Manager_Add t q (js_store s))) =
        heap (modify_job q (job_id_update (\<lambda>_. i)) (js_store s))" using Manager_Add_heap by blast
    have "job_at (with_store (\<lambda>st. snd (Manager_Add t q st)) s) r =
        job_at (with_store (modify_job q (job_id_update (\<lambda>_. i))) s) r"
      by (simp add: with_store_def job_at_def h)
    with job_at_modify [OF r, of q "job_id_update (\<lambda>_. i)"] show ?thesis by auto
  qed
qed

lemma job_at_kill:
  "r < job_count s \<Longrightarrow> job_at (with_store (\<lambda>st. snd (Manager_Kill i st)) s) r
     \<in> {job_at s r, (job_at s r)\<lparr>ctx_cancelled := True\<rparr>}"
proof (cases rule: Manager_Kill_cases [of i "js_store s"])
  case (killed q)
  assume r: "r < job_count s"
  have "with_store (\<lambda>st. snd (Manager_Kill i st)) s = with_store (modify_job q (ctx_cancelled_update (\<lambda>_. True))) s"
    using killed by (simp add: with_store_def)
  with job_at_modify [OF r, of q "ctx_cancelled_update (\<lambda>_. True)"] show ?thesis by simp
qed (simp_all add: with_store_def job_at_def)

text \<open>How a job may differ later on.\<close>

definition job_after :: "BackgroundJob \<Rightarrow> BackgroundJob \<Rightarrow> bool" where
  "job_after j j' \<longleftrightarrow>
     status j \<le> status j' \<and> callerID j' = callerID j \<and> job_command j' = job_command j
     \<and> startedAt j' = startedAt j \<and> (ctx_cancelled j \<longrightarrow> ctx_cancelled j') \<and> (job_done j \<longrightarrow> job_done j')
     \<and> (job_id j \<noteq> [] \<longrightarrow> job_id j' = job_id j)
     \<and> (lastAccessedAt j \<noteq> None \<longrightarrow> lastAccessedAt j' = lastAccessedAt j)
     \<and> (status j \<noteq> JobStatusRunning \<longrightarrow> exitCode j' = exitCode j \<and> completedAt j' = completedAt j
          \<and> job_stdout j' = job_stdout j \<and> job_stderr j' = job_stderr j)"

lemma job_after_refl [simp]: "job_after j j"
  by (simp add: job_after_def)

lemma job_after_trans: "job_after a b \<Longrightarrow> job_after b c \<Longrightarrow> job_after a c"
  unfolding job_after_def status_le_iff by (metis option.distinct(1))

lemma job_after_cancel [simp]: "job_after j (j\<lparr>ctx_cancelled := True\<rparr>)"
  by (simp add: job_after_def)

lemma job_after_snapshot: "job_after j (snd (snapshot t b j))"
  by (auto simp: job_after_def snapshot_def Let_def)

lemma job_after_running:
  "status j = JobStatusRunning \<Longrightarrow> lastAccessedAt j = None \<Longrightarrow>
   job_after j (finish t st code j) \<and> job_after j (write_output e out err j)"
  by (simp add: job_after_def finish_def write_output_eq status_le_iff)

lemma job_step_after: "job_step e s s' \<Longrightarrow> jobs_ok s \<Longrightarrow> r < job_count s \<Longrightarrow>
  r < job_count s' \<and> job_after (job_at s r) (job_at s' r)"
proof (induction rule: job_step.induct)
  case (tick d s)
  then show ?case by (simp add: job_at_def job_count_def)
next
  case (spawn timeout caller command s)
  then show ?case by (simp add: job_at_def job_count_def nth_append)
next
  case (exec q s err out errout code)
  have "job_ok (js_clock s) (job_at s q) Executing" using exec jobs_ok_at by metis
  then have "status (job_at s q) = JobStatusRunning" "lastAccessedAt (job_at s q) = None"
    by (auto simp: job_ok_def before_finish_def)
  with exec job_after_running show ?case by (auto simp: job_at_modify)
next
  case (finish q s stat code)
  have "job_ok (js_clock s) (job_at s q) (Decided stat code)" using finish jobs_ok_at by metis
  then have "status (job_at s q) = JobStatusRunning" "lastAccessedAt (job_at s q) = None"
    by (auto simp: job_ok_def before_finish_def)
  with finish job_after_running show ?case by (auto simp: job_at_modify)
next
  case (close q s)
  then show ?case by (auto simp: job_at_modify job_after_def)
next
  case (register q s)
  have "job_after (job_at s r) ((job_at s r)\<lparr>job_id := i\<rparr>)" if "r = q" for i
    using that register(2) by (simp add: job_after_def)
  moreover have "job_count (with_store (\<lambda>st. snd (Manager_Add (js_clock s) q st)) s) = job_count s"
    using Manager_Add_heap [of "js_clock s" q "js_store s"] by (auto simp: job_count_def with_store_def)
  ultimately show ?case using job_at_register [OF register(4), of "js_clock s" q] register(4) by auto
next
  case (kill i s)
  have "job_count (with_store (\<lambda>st. snd (Manager_Kill i st)) s) = job_count s"
    by (cases rule: Manager_Kill_cases [of i "js_store s"]) (auto simp: job_count_def with_store_def)
  with job_at_kill [OF kill(2), of i] kill(2) show ?case by auto
next
  case (remove i s)
  then show ?case by (simp add: job_at_def job_count_def with_store_def Manager_Remove_def)
qed (auto simp: job_at_modify job_after_snapshot)

lemma job_run_after: "job_run es s s' \<Longrightarrow> jobs_ok s \<Longrightarrow> r < job_count s \<Longrightarrow>
  r < job_count s' \<and> job_after (job_at s r) (job_at s' r)"
proof (induction rule: job_run.induct)
  case (run_step es s s' e s'')
  then have "jobs_ok s'" using jobs_ok_run by blast
  with run_step job_step_after [OF run_step(2), of r] show ?case using job_after_trans by blast
qed simp

section \<open>The registry in reachable states\<close>

lemma registrations_snoc: "registrations (es @ [e]) = registrations es + (if is_register e then 1 else 0)"
  by (simp add: registrations_def)

lemma registry_inv_heap_append:
  "registry_inv st \<Longrightarrow> registry_inv (st\<lparr>heap := heap st @ [j]\<rparr>)"
  by (fastforce simp: registry_inv_def nth_append)

lemma Manager_Add_inv:
  assumes "registry_inv st" "unat (seq st) < 2 ^ 64 - 1" "r < length (heap st)" "job_id (heap st ! r) = []"
  shows "registry_inv (snd (Manager_Add now r st)) \<and> unat (seq (snd (Manager_Add now r st))) \<le> Suc (unat (seq st))"
proof (cases "Manager_Add now r st")
  case (Pair ok st')
  show ?thesis
  proof (cases ok)
    case True
    with Pair have "Manager_Add now r st = (True, st')" by simp
    from Manager_Add_ok(2,4) [OF this assms] next_seq [OF assms(2)] Pair show ?thesis by simp
  next
    case False
    with Pair have "st' = gcLocked now st" by (simp add: Manager_Add_full)
    with Pair assms registry_inv_gc show ?thesis by simp
  qed
qed

definition registry_ok :: "nat \<Rightarrow> job_sys \<Rightarrow> bool" where
  "registry_ok n s \<longleftrightarrow> registry_inv (js_store s) \<and> unat (seq (js_store s)) \<le> n"

lemma registry_ok_modify:
  "registry_ok n s \<Longrightarrow> (\<And>j. job_id (f j) = job_id j) \<Longrightarrow> registry_ok n (with_store (modify_job r f) s)"
  by (simp add: registry_ok_def with_store_def registry_inv_modify)

lemma registry_ok_work [simp]: "registry_ok n (set_work r w s) = registry_ok n s"
  by (simp add: registry_ok_def set_work_def)

lemma registry_ok_step:
  "job_step e s s' \<Longrightarrow> registry_ok n s \<Longrightarrow> (is_register e \<Longrightarrow> n < 2 ^ 64 - 1) \<Longrightarrow>
   registry_ok (n + (if is_register e then 1 else 0)) s'"
proof (induction rule: job_step.induct)
  case (tick d s)
  then show ?case by (simp add: registry_ok_def is_register_def)
next
  case (spawn timeout caller command s)
  then show ?case by (simp add: registry_ok_def is_register_def registry_inv_heap_append)
next
  case (register r s)
  then show ?case
    using Manager_Add_inv [of "js_store s" r "js_clock s"]
    by (simp add: registry_ok_def is_register_def with_store_def job_count_def job_at_def)
next
  case (kill i s)
  have "seq (snd (Manager_Kill i (js_store s))) = seq (js_store s)"
    by (cases rule: Manager_Kill_cases [of i "js_store s"]) simp_all
  with kill show ?case by (simp add: registry_ok_def is_register_def with_store_def registry_inv_Kill)
next
  case (remove i s)
  then show ?case
    using registry_inv_Remove by (simp add: registry_ok_def is_register_def with_store_def) (simp add: Manager_Remove_def)
qed (simp_all add: is_register_def registry_ok_modify write_output_eq finish_def)

lemma registry_ok_reach:
  "job_reach es s \<Longrightarrow> registrations es < 2 ^ 64 \<Longrightarrow> registry_ok (registrations es) s"
proof (induction rule: job_reach_induct)
  case (start t)
  then show ?case by (simp add: registry_ok_def job_init_def registry_inv_new) (simp add: NewBackgroundJobManager_def)
next
  case (step es s e s')
  from step.prems have "registrations es < 2 ^ 64" "is_register e \<Longrightarrow> registrations es < 2 ^ 64 - 1"
    by (auto simp: registrations_snoc split: if_splits)
  with registry_ok_step [OF step.hyps(2)] step.IH show ?case by (simp add: registrations_snoc)
qed

text \<open>An entry leaves the registry only by removal, or by collection long after its first reading.\<close>

lemma registry_entry_kept:
  assumes step: "job_step e s s'" and ok: "registry_ok n s" "is_register e \<Longrightarrow> n < 2 ^ 64 - 1"
    and get: "Manager_Get i (js_store s) = Some r" and gone: "Manager_Get i (js_store s') \<noteq> Some r"
  shows "e = E_remove i \<or> (\<exists>q a. e = E_register q \<and> lastAccessedAt (job_at s r) = Some a
    \<and> status (job_at s r) \<noteq> JobStatusRunning \<and> completedJobRetention \<le> js_clock s - a)"
  using step
proof cases
  case (register q)
  let ?st = "js_store s" and ?t = "js_clock s"
  have b: "unat (seq ?st) < 2 ^ 64 - 1" "registry_inv ?st"
    using ok register(1) by (auto simp: registry_ok_def is_register_def)
  have "\<not> (Manager_Get i (gcLocked ?t ?st) = Some r)"
  proof
    assume g: "Manager_Get i (gcLocked ?t ?st) = Some r"
    obtain res st' where a: "Manager_Add ?t q ?st = (res, st')" by fastforce
    have "Manager_Get i st' = Some r"
    proof (cases res)
      case True
      with a have a': "Manager_Add ?t q ?st = (True, st')" by simp
      have q: "q < length (heap ?st)" "job_id (heap ?st ! q) = []"
        using register by (simp_all add: job_count_def job_at_def)
      note f = Manager_Add_ok [OF a' b(2,1) q]
      have "(i, r) \<in> set (jobs (gcLocked ?t ?st))" using g by (auto simp: Manager_Get_def dest: map_of_SomeD)
      moreover have "gomap_ok (jobs st')" using f(4) by (simp add: registry_inv_def)
      ultimately show ?thesis unfolding Manager_Get_def by (simp add: gomap_lookup_iff f(1) del: map_of_append)
    next
      case False
      with a g show ?thesis by (simp add: Manager_Add_full)
    qed
    with gone a register(2) show False by (simp add: with_store_def)
  qed
  then have "isExpired ?t (heap ?st ! r)" using Manager_Get_gc [OF b(2)] get by blast
  then show ?thesis using register(1)
    by (auto simp: isExpired_def job_at_def split: if_splits option.splits)
next
  case (kill k)
  with get gone show ?thesis by (simp add: with_store_def manager_kill.kill_get)
next
  case (remove k)
  with get gone show ?thesis
    by (auto simp: with_store_def Manager_Get_def Manager_Remove_def map_of_delete split: if_splits)
qed (use get gone in \<open>auto simp: with_store_def set_work_def Manager_Get_def\<close>)

section \<open>A cancelled job is reported as killed\<close>

text \<open>The context was cancelled before the goroutine looked at it.\<close>

definition doomed :: "job_sys \<Rightarrow> nat \<Rightarrow> bool" where
  "doomed s r \<longleftrightarrow>
     (case js_work s ! r of
        Executing \<Rightarrow> ctx_cancelled (job_at s r)
      | Wrote c \<Rightarrow> ctx_cancelled (job_at s r)
      | Decided stat c \<Rightarrow> stat = JobStatusKilled
      | _ \<Rightarrow> status (job_at s r) = JobStatusKilled)"

lemma doomed_work:
  "doomed s r \<Longrightarrow> js_work s' ! r = js_work s ! r \<Longrightarrow>
   (ctx_cancelled (job_at s r) \<Longrightarrow> ctx_cancelled (job_at s' r)) \<Longrightarrow>
   (status (job_at s r) = JobStatusKilled \<Longrightarrow> status (job_at s' r) = JobStatusKilled) \<Longrightarrow> doomed s' r"
  by (simp add: doomed_def split: worker.splits)

lemma work_set_work: "r < length (js_work s) \<Longrightarrow>
  js_work (set_work q w s) ! r = (if r = q then w else js_work s ! r)"
  by (simp add: set_work_def nth_list_update)

lemma work_with_store [simp]: "js_work (with_store f s) = js_work s"
  by (simp add: with_store_def)

text \<open>Only the goroutine's own steps move it on.\<close>

lemma job_step_work:
  "job_step e s s' \<Longrightarrow> jobs_ok s \<Longrightarrow> r < job_count s \<Longrightarrow>
   js_work s' ! r = js_work s ! r
   \<or> (\<exists>err out errout code. e = E_exec r err out errout code) \<or> e = E_decide r \<or> e = E_finish r
   \<or> e = E_cleanup r \<or> e = E_close r"
  by (induction rule: job_step.induct)
    (auto simp: work_set_work jobs_ok_def nth_append)

lemma doomed_step:
  assumes step: "job_step e s s'" and ok: "jobs_ok s" and r: "r < job_count s" and d: "doomed s r"
  shows "doomed s' r"
proof -
  note after = job_step_after [OF step ok r]
  have len: "r < length (js_work s)" using ok r by (simp add: jobs_ok_def)
  have keep: "doomed s' r" if "js_work s' ! r = js_work s ! r"
    by (rule doomed_work [OF d that]) (use after in \<open>auto simp: job_after_def status_le_iff\<close>)
  from job_step_work [OF step ok r] consider "js_work s' ! r = js_work s ! r"
    | (exec) err out errout code where "e = E_exec r err out errout code" | (decide) "e = E_decide r"
    | (finish) "e = E_finish r" | (cleanup) "e = E_cleanup r" | (close) "e = E_close r" by blast
  then show ?thesis
  proof cases
    case 1
    then show ?thesis by (rule keep)
  next
    case exec
    from step show ?thesis unfolding exec
      by cases (use d r len in \<open>auto simp: doomed_def work_set_work job_at_modify write_output_eq\<close>)
  next
    case decide
    from step show ?thesis unfolding decide
      by cases (use d r len in \<open>auto simp: doomed_def work_set_work\<close>)
  next
    case finish
    from step show ?thesis unfolding finish
      by cases (use d r len in \<open>auto simp: doomed_def work_set_work job_at_modify finish_def\<close>)
  next
    case cleanup
    from step show ?thesis unfolding cleanup
      by cases (use d r len in \<open>auto simp: doomed_def work_set_work job_at_modify\<close>)
  next
    case close
    from step show ?thesis unfolding close
      by cases (use d r len in \<open>auto simp: doomed_def work_set_work job_at_modify\<close>)
  qed
qed

lemma doomed_run:
  "job_run es s s' \<Longrightarrow> jobs_ok s \<Longrightarrow> r < job_count s \<Longrightarrow> doomed s r \<Longrightarrow> doomed s' r"
proof (induction rule: job_run.induct)
  case (run_step es s s' e s'')
  have ok: "jobs_ok s'" using run_step.prems(1) run_step.hyps(1) jobs_ok_run by blast
  have r: "r < job_count s'" using job_run_after [OF run_step.hyps(1) run_step.prems(1,2)] by simp
  show ?case using doomed_step [OF run_step.hyps(2) ok r] run_step by blast
qed simp

lemma doomed_status: "jobs_ok s \<Longrightarrow> r < job_count s \<Longrightarrow> doomed s r \<Longrightarrow>
  status (job_at s r) \<in> {JobStatusRunning, JobStatusKilled}"
  using jobs_ok_at [of s r] by (auto simp: doomed_def job_ok_def before_finish_def split: worker.splits)

section \<open>A job's output is that of its command\<close>

text \<open>The results of executions of job \<open>r\<close> in a history.\<close>

fun exec_of :: "nat \<Rightarrow> job_event \<Rightarrow> (string option \<times> string \<times> string \<times> int) list" where
  "exec_of r (E_exec q err out errout code) = (if q = r then [(err, out, errout, code)] else [])"
| "exec_of r e = []"

definition execs :: "job_event list \<Rightarrow> nat \<Rightarrow> (string option \<times> string \<times> string \<times> int) list" where
  "execs es r = concat (map (exec_of r) es)"

lemma execs_snoc: "execs (es @ [e]) r = execs es r @ exec_of r e"
  by (simp add: execs_def)

definition stderr_text :: "string option \<Rightarrow> string \<Rightarrow> string" where
  "stderr_text err errout = (case err of None \<Rightarrow> [] | Some e \<Rightarrow> e @ nl) @ errout"

definition code_ok :: "BackgroundJob \<Rightarrow> worker \<Rightarrow> int \<Rightarrow> bool" where
  "code_ok j w code \<longleftrightarrow>
     (case w of Executing \<Rightarrow> True | Wrote c \<Rightarrow> c = code | Decided s c \<Rightarrow> c = code | _ \<Rightarrow> exitCode j = code)"

definition output_ok :: "job_event list \<Rightarrow> nat \<Rightarrow> BackgroundJob \<Rightarrow> worker \<Rightarrow> bool" where
  "output_ok es r j w \<longleftrightarrow>
     (if w = Executing then execs es r = [] \<and> job_stdout j = [] \<and> job_stderr j = []
      else \<exists>err out errout code. execs es r = [(err, out, errout, code)] \<and> job_stdout j = out
        \<and> job_stderr j = stderr_text err errout \<and> code_ok j w code)"

definition outputs_ok :: "job_event list \<Rightarrow> job_sys \<Rightarrow> bool" where
  "outputs_ok es s \<longleftrightarrow> (\<forall>r < job_count s. output_ok es r (job_at s r) (js_work s ! r))
     \<and> (\<forall>r \<ge> job_count s. execs es r = [])"

lemma output_ok_cong:
  "output_ok es r j w \<Longrightarrow> execs es' r = execs es r \<Longrightarrow> job_stdout j' = job_stdout j \<Longrightarrow>
   job_stderr j' = job_stderr j \<Longrightarrow> exitCode j' = exitCode j \<Longrightarrow> output_ok es' r j' w"
proof -
  assume h: "output_ok es r j w" "execs es' r = execs es r" "job_stdout j' = job_stdout j"
    "job_stderr j' = job_stderr j" "exitCode j' = exitCode j"
  have "code_ok j' w = code_ok j w" using h(5) by (simp add: code_ok_def fun_eq_iff split: worker.split)
  with h show ?thesis by (simp only: output_ok_def)
qed

lemma job_step_output:
  "job_step e s s' \<Longrightarrow> jobs_ok s \<Longrightarrow> r < job_count s \<Longrightarrow> js_work s' ! r = js_work s ! r \<Longrightarrow>
   exec_of r e = [] \<and> job_stdout (job_at s' r) = job_stdout (job_at s r)
   \<and> job_stderr (job_at s' r) = job_stderr (job_at s r) \<and> exitCode (job_at s' r) = exitCode (job_at s r)"
proof (induction rule: job_step.induct)
  case (tick d s)
  then show ?case by (simp add: job_at_def)
next
  case (spawn timeout caller command s)
  then show ?case by (simp add: job_at_def job_count_def nth_append)
next
  case (exec q s err out errout code)
  then have "q \<noteq> r" by (auto simp: jobs_ok_def work_set_work)
  with exec show ?case by (simp add: job_at_modify)
next
  case (finish q s stat code)
  then have "q \<noteq> r" by (auto simp: jobs_ok_def work_set_work)
  with finish show ?case by (simp add: job_at_modify)
next
  case (register q s)
  with job_at_register [OF register(4), of "js_clock s" q] show ?case by auto
next
  case (kill i s)
  with job_at_kill [OF kill(2), of i] show ?case by auto
next
  case (remove i s)
  then show ?case by (simp add: job_at_def with_store_def Manager_Remove_def)
qed (auto simp: job_at_modify)

lemma job_step_count: "job_step e s s' \<Longrightarrow> job_count s \<le> job_count s' \<and>
  (job_count s' = job_count s \<or> (\<exists>t c cmd. e = E_spawn t c cmd
     \<and> job_count s' = Suc (job_count s)
     \<and> job_at s' (job_count s) = newBackgroundJob (js_clock s) (js_clock s + t) c cmd
     \<and> (jobs_ok s \<longrightarrow> js_work s' ! job_count s = Executing)))"
proof (induction rule: job_step.induct)
  case (spawn timeout caller command s)
  then show ?case by (auto simp: job_count_def job_at_def jobs_ok_def nth_append)
next
  case (register q s)
  then show ?case using Manager_Add_heap [of "js_clock s" q "js_store s"]
    by (auto simp: job_count_def with_store_def)
next
  case (kill i s)
  then show ?case by (cases rule: Manager_Kill_cases [of i "js_store s"]) (auto simp: job_count_def with_store_def)
next
  case (remove i s)
  then show ?case by (simp add: job_count_def with_store_def Manager_Remove_def)
qed (auto, simp_all add: job_count_def)

lemma outputs_ok_step:
  assumes step: "job_step e s s'" and ok: "jobs_ok s" and out: "outputs_ok es s"
  shows "outputs_ok (es @ [e]) s'"
proof -
  have old: "output_ok (es @ [e]) r (job_at s' r) (js_work s' ! r)" if r: "r < job_count s" for r
  proof -
    have o: "output_ok es r (job_at s r) (js_work s ! r)" using out r by (simp add: outputs_ok_def)
    have len: "r < length (js_work s)" using ok r by (simp add: jobs_ok_def)
    have keep: ?thesis if w: "js_work s' ! r = js_work s ! r"
      using job_step_output [OF step ok r w] o w
      by (auto simp: execs_snoc intro!: output_ok_cong [where es = es and j = "job_at s r"])
    from job_step_work [OF step ok r] consider "js_work s' ! r = js_work s ! r"
      | (exec) err out errout code where "e = E_exec r err out errout code" | (decide) "e = E_decide r"
      | (finish) "e = E_finish r" | (cleanup) "e = E_cleanup r" | (close) "e = E_close r" by blast
    then show ?thesis
    proof cases
      case 1
      then show ?thesis by (rule keep)
    next
      case exec
      from step show ?thesis unfolding exec
        by cases (use o r len in \<open>auto simp: output_ok_def execs_snoc work_set_work job_at_modify
          write_output_eq stderr_text_def code_ok_def\<close>)
    next
      case decide
      from step show ?thesis unfolding decide
        by cases (use o r len in \<open>auto simp: output_ok_def execs_snoc work_set_work code_ok_def\<close>)
    next
      case finish
      from step show ?thesis unfolding finish
        by cases (use o r len in \<open>auto simp: output_ok_def execs_snoc work_set_work job_at_modify
          finish_def code_ok_def\<close>)
    next
      case cleanup
      from step show ?thesis unfolding cleanup
        by cases (use o r len in \<open>auto simp: output_ok_def execs_snoc work_set_work job_at_modify code_ok_def\<close>)
    next
      case close
      from step show ?thesis unfolding close
        by cases (use o r len in \<open>auto simp: output_ok_def execs_snoc work_set_work job_at_modify code_ok_def\<close>)
    qed
  qed
  have ex: "exec_of r e = []" if "r \<ge> job_count s" for r
    using step that by (induction rule: job_step.induct) auto
  have new: "execs (es @ [e]) r = []" if "r \<ge> job_count s" for r
    using out that ex by (simp add: outputs_ok_def execs_snoc)
  show ?thesis
  proof (cases "job_count s' = job_count s")
    case True
    with old new show ?thesis by (simp add: outputs_ok_def)
  next
    case False
    with job_step_count [OF step] ok obtain t c cmd where n: "job_count s' = Suc (job_count s)"
      "job_at s' (job_count s) = newBackgroundJob (js_clock s) (js_clock s + t) c cmd"
      "js_work s' ! job_count s = Executing" by auto
    have "output_ok (es @ [e]) (job_count s) (job_at s' (job_count s)) (js_work s' ! job_count s)"
      using n new [of "job_count s"] by (simp add: output_ok_def newBackgroundJob_def)
    with old new n(1) show ?thesis by (auto simp: outputs_ok_def less_Suc_eq)
  qed
qed

lemma outputs_ok_reach: "job_reach es s \<Longrightarrow> outputs_ok es s"
proof (induction rule: job_reach_induct)
  case (start t)
  then show ?case by (simp add: outputs_ok_def job_init_def job_count_def NewBackgroundJobManager_def execs_def)
next
  case (step es s e s')
  then show ?case using outputs_ok_step jobs_ok_reach by blast
qed

lemma job_run_Cons: "job_step e s s' \<Longrightarrow> job_run es s' s'' \<Longrightarrow> job_run (e # es) s s''"
  using job_run_append [of es s' s'' "[e]" s] run_step [OF run_nil, of e s s'] by simp

lemma job_run_1: "job_step e s s' \<Longrightarrow> job_run [e] s s'"
  using run_step [OF run_nil] by fastforce

section \<open>A sample run\<close>

text \<open>
  A job is started, registered, killed while it executes, and finishes; later it is read. The
  states are written out so that the properties below can be instantiated at them.
\<close>

definition sample_job :: BackgroundJob where
  "sample_job = newBackgroundJob 0 60 ''me'' ''sleep 9''"

definition sample_store :: "BackgroundJob \<Rightarrow> job_store" where
  "sample_store j = \<lparr>heap = [j], jobs = [(''000001'', 0)], seq = 1\<rparr>"

definition sample_sys :: "BackgroundJob \<Rightarrow> worker \<Rightarrow> job_sys" where
  "sample_sys j w = \<lparr>js_clock = 0, js_store = sample_store j, js_work = [w]\<rparr>"

definition sample_registered :: job_sys where
  "sample_registered = sample_sys (sample_job\<lparr>job_id := ''000001''\<rparr>) Executing"

definition sample_killed :: job_sys where
  "sample_killed = sample_sys (sample_job\<lparr>job_id := ''000001'', ctx_cancelled := True\<rparr>) Executing"

definition sample_written_job :: BackgroundJob where
  "sample_written_job = sample_job\<lparr>job_id := ''000001'', ctx_cancelled := True, job_stdout := ''hi''\<rparr>"

definition sample_done_job :: BackgroundJob where
  "sample_done_job = sample_written_job\<lparr>status := JobStatusKilled, exitCode := -1, completedAt := Some 0,
     job_done := True\<rparr>"

definition sample_done :: job_sys where
  "sample_done = sample_sys sample_done_job Closed"

definition sample_finish :: "job_event list" where
  "sample_finish = [E_exec 0 None ''hi'' [] (-1), E_decide 0, E_finish 0, E_cleanup 0, E_close 0]"

lemma sample_count [simp]: "job_count (sample_sys j w) = 1" "job_at (sample_sys j w) 0 = j" "js_work (sample_sys j w) = [w]"
  by (simp_all add: sample_sys_def sample_store_def job_count_def job_at_def)

lemma sample_modify:
  "set_work 0 w' (with_store (modify_job 0 f) (sample_sys j w)) = sample_sys (f j) w'"
  "with_store (modify_job 0 f) (sample_sys j w) = sample_sys (f j) w"
  "set_work 0 w' (sample_sys j w) = sample_sys j w'"
  by (simp_all add: sample_sys_def sample_store_def set_work_def with_store_def modify_job_def)

lemma fmt_06x_1: "fmt_06x 1 = ''000001''" "fmt_06x (Suc 0) = ''000001''"
  by code_simp+

lemma sample_reach_registered: "job_reach [E_spawn 60 ''me'' ''sleep 9'', E_register 0] sample_registered"
proof -
  let ?s = "\<lparr>js_clock = 0, js_store = \<lparr>heap = [sample_job], jobs = [], seq = 0\<rparr>, js_work = [Executing]\<rparr>"
  have "job_step (E_spawn 60 ''me'' ''sleep 9'') (job_init 0) ?s"
    using job_step.spawn [of 60 "''me''" "''sleep 9''" "job_init 0"]
    by (simp add: job_init_def NewBackgroundJobManager_def sample_job_def)
  from job_reach_step [OF job_reach_start this] have a: "job_reach [E_spawn 60 ''me'' ''sleep 9''] ?s" by simp
  have "job_step (E_register 0) ?s sample_registered"
    using job_step.register [of 0 ?s]
    by (simp add: job_count_def job_at_def sample_job_def newBackgroundJob_def with_store_def Manager_Add_def
        gcLocked_def maxBackgroundJobs_def modify_job_def Let_def sample_registered_def sample_sys_def
        sample_store_def fmt_06x_1)
  from job_reach_step [OF a this] show ?thesis by simp
qed

lemma sample_kill: "job_step (E_kill ''000001'') sample_registered sample_killed"
proof -
  have "with_store (\<lambda>st. snd (Manager_Kill ''000001'' st)) sample_registered = sample_killed"
    by (simp add: with_store_def Manager_Kill_def sample_registered_def sample_killed_def sample_sys_def
        sample_store_def modify_job_def sample_job_def newBackgroundJob_def)
  with job_step.kill [of "''000001''" sample_registered] show ?thesis by simp
qed

lemma sample_run: "job_run sample_finish sample_killed sample_done"
proof -
  let ?j = "sample_job\<lparr>job_id := ''000001'', ctx_cancelled := True\<rparr>"
  have w: "write_output None ''hi'' [] ?j = sample_written_job"
    by (simp add: write_output_eq sample_written_job_def sample_job_def newBackgroundJob_def)
  have 1: "job_step (E_exec 0 None ''hi'' [] (-1)) sample_killed (sample_sys sample_written_job (Wrote (-1)))"
    using job_step.exec [of 0 sample_killed None "''hi''" "[]" "-1"]
    by (simp add: sample_killed_def sample_modify w)
  have 2: "job_step (E_decide 0) (sample_sys sample_written_job (Wrote (-1)))
      (sample_sys sample_written_job (Decided JobStatusKilled (-1)))"
    using job_step.decide [of 0 "sample_sys sample_written_job (Wrote (-1))" "-1"]
    by (simp add: sample_modify sample_written_job_def)
  let ?f = "finish 0 JobStatusKilled (-1) sample_written_job"
  have 3: "job_step (E_finish 0) (sample_sys sample_written_job (Decided JobStatusKilled (-1))) (sample_sys ?f Finished)"
    using job_step.finish [of 0 "sample_sys sample_written_job (Decided JobStatusKilled (-1))" JobStatusKilled "-1"]
    by (simp add: sample_modify) (simp add: sample_sys_def)
  have 4: "job_step (E_cleanup 0) (sample_sys ?f Finished) (sample_sys ?f Cleaned)"
    using job_step.cleanup [of 0 "sample_sys ?f Finished"]
    by (simp add: sample_modify finish_def sample_written_job_def sample_job_def newBackgroundJob_def)
  have 5: "job_step (E_close 0) (sample_sys ?f Cleaned) sample_done"
    using job_step.close [of 0 "sample_sys ?f Cleaned"]
    by (simp add: sample_modify finish_def sample_done_def sample_done_job_def sample_written_job_def
        sample_job_def newBackgroundJob_def)
  show ?thesis
    unfolding sample_finish_def
    by (rule job_run_Cons [OF 1]) (rule job_run_Cons [OF 2], rule job_run_Cons [OF 3],
      rule job_run_Cons [OF 4], rule job_run_1 [OF 5])
qed

lemma sample_reach_killed: "job_reach [E_spawn 60 ''me'' ''sleep 9'', E_register 0, E_kill ''000001''] sample_killed"
  using job_reach_step [OF sample_reach_registered sample_kill] by simp

definition sample_history :: "job_event list" where
  "sample_history = [E_spawn 60 ''me'' ''sleep 9'', E_register 0, E_kill ''000001''] @ sample_finish"

lemma sample_reach_done: "job_reach sample_history sample_done"
  unfolding sample_history_def by (rule job_reach_run [OF sample_reach_killed sample_run])

lemma sample_done_at: "job_at sample_done 0 = sample_done_job" "job_count sample_done = 1"
  by (simp_all add: sample_done_def)

lemma sample_killed_at: "job_count sample_killed = 1"
  "job_at sample_killed 0 = sample_job\<lparr>job_id := ''000001'', ctx_cancelled := True\<rparr>"
  by (simp_all add: sample_killed_def)

section \<open>Properties\<close>

text \<open>
  Life cycle. In every reachable state a job whose \<open>done\<close> channel is closed has a terminal
  status and a completion time between its start and now; a running job has neither a
  completion time nor an access time; a first access never precedes the completion; and a job
  reported as killed had its context cancelled.
\<close>

theorem job_lifecycle:
  assumes "job_reach es s" "r < job_count s"
  shows "let j = job_at s r in (job_done j \<longrightarrow> status j \<noteq> JobStatusRunning)
    \<and> (status j = JobStatusRunning \<longleftrightarrow> completedAt j = None)
    \<and> (\<forall>c. completedAt j = Some c \<longrightarrow> startedAt j \<le> c \<and> c \<le> js_clock s)
    \<and> (\<forall>a. lastAccessedAt j = Some a \<longrightarrow> (\<exists>c. completedAt j = Some c \<and> c \<le> a \<and> a \<le> js_clock s))
    \<and> (status j = JobStatusKilled \<longrightarrow> ctx_cancelled j)"
  using jobs_ok_at [OF jobs_ok_reach [OF assms(1)] assms(2)]
  unfolding Let_def job_ok_def by (cases "before_finish (js_work s ! r)") (auto simp: before_finish_def)

theorem job_lifecycle_witness:
  "job_reach sample_history sample_done \<and> job_done (job_at sample_done 0)
   \<and> status (job_at sample_done 0) \<noteq> JobStatusRunning"
  using job_lifecycle [OF sample_reach_done, of 0] sample_reach_done
  by (simp add: sample_done_at sample_done_job_def)

text \<open>
  C8. A terminal status is final: along any further events, whatever is interleaved, the status
  only moves up the order of \<open>JobStatus\<close>, and once it is terminal the status, the exit code,
  both outputs and the completion time never change, nor does the first access time.
\<close>

theorem job_terminal_final:
  assumes "job_reach es s" "job_run fs s s'" "r < job_count s"
  shows "r < job_count s' \<and> status (job_at s r) \<le> status (job_at s' r)
    \<and> (status (job_at s r) \<noteq> JobStatusRunning \<longrightarrow>
         status (job_at s' r) = status (job_at s r) \<and> exitCode (job_at s' r) = exitCode (job_at s r)
         \<and> completedAt (job_at s' r) = completedAt (job_at s r)
         \<and> job_stdout (job_at s' r) = job_stdout (job_at s r) \<and> job_stderr (job_at s' r) = job_stderr (job_at s r))
    \<and> (lastAccessedAt (job_at s r) \<noteq> None \<longrightarrow> lastAccessedAt (job_at s' r) = lastAccessedAt (job_at s r))"
  using job_run_after [OF assms(2) jobs_ok_reach [OF assms(1)] assms(3)]
  by (auto simp: job_after_def status_le_iff)

theorem job_terminal_final_witness:
  "job_run sample_finish sample_killed sample_done
   \<and> status (job_at sample_killed 0) \<le> status (job_at sample_done 0)"
  using job_terminal_final [OF sample_reach_killed sample_run, of 0] sample_run by (simp add: sample_killed_at)

text \<open>
  C9. The result of a job is the result of its command: once the status is terminal, the job's
  goroutine has executed the command exactly once, and stdout, stderr (the error text first)
  and exit code are those of that execution, however other parties interleave.
\<close>

theorem job_result_of_command:
  assumes "job_reach es s" "r < job_count s" "status (job_at s r) \<noteq> JobStatusRunning"
  shows "\<exists>err out errout code. execs es r = [(err, out, errout, code)]
    \<and> job_stdout (job_at s r) = out \<and> job_stderr (job_at s r) = stderr_text err errout
    \<and> exitCode (job_at s r) = code"
proof -
  have ok: "job_ok (js_clock s) (job_at s r) (js_work s ! r)"
    using jobs_ok_at [OF jobs_ok_reach [OF assms(1)] assms(2)] .
  have out: "output_ok es r (job_at s r) (js_work s ! r)"
    using outputs_ok_reach [OF assms(1)] assms(2) by (simp add: outputs_ok_def)
  from ok assms(3) have "\<not> before_finish (js_work s ! r)" by (simp add: job_ok_def)
  with out show ?thesis
    by (cases "js_work s ! r") (auto simp: output_ok_def before_finish_def code_ok_def)
qed

theorem job_result_of_command_witness:
  "execs sample_history 0 = [(None, ''hi'', [], -1)] \<and> job_stdout (job_at sample_done 0) = ''hi''"
proof -
  have "execs sample_history 0 = [(None, ''hi'', [], -1)]"
    by (simp add: sample_history_def sample_finish_def execs_def)
  moreover have "status (job_at sample_done 0) \<noteq> JobStatusRunning"
    by (simp add: sample_done_at sample_done_job_def)
  ultimately show ?thesis
    using job_result_of_command [OF sample_reach_done, of 0] by (simp add: sample_done_at(2))
qed

text \<open>
  C14. A cancellation that comes before the job's goroutine looks at its context is not lost: from
  then on the job is never reported as completed, only as running and then as killed.
\<close>

theorem cancelled_job_is_killed:
  assumes "job_reach es s" "job_run fs s s'" "r < job_count s"
    and "ctx_cancelled (job_at s r)" "js_work s ! r = Executing \<or> (\<exists>c. js_work s ! r = Wrote c)"
  shows "status (job_at s' r) \<noteq> JobStatusCompleted
    \<and> (job_done (job_at s' r) \<longrightarrow> status (job_at s' r) = JobStatusKilled)"
proof -
  have ok: "jobs_ok s" "jobs_ok s'" using jobs_ok_reach [OF assms(1)] jobs_ok_run [OF assms(2)] by blast+
  have r: "r < job_count s'" using job_run_after [OF assms(2) ok(1) assms(3)] by blast
  have "doomed s r" using assms(4,5) by (auto simp: doomed_def)
  then have "doomed s' r" using doomed_run [OF assms(2) ok(1) assms(3)] by blast
  from doomed_status [OF ok(2) r this] jobs_ok_at [OF ok(2) r] show ?thesis
    by (auto simp: job_ok_def before_finish_def)
qed

theorem cancelled_job_is_killed_witness:
  "job_done (job_at sample_done 0) \<and> status (job_at sample_done 0) = JobStatusKilled"
  using cancelled_job_is_killed [OF sample_reach_killed sample_run, of 0]
  by (simp add: sample_killed_at sample_done_at) (simp add: sample_killed_def sample_done_job_def)

text \<open>
  C16. The registry never loses a job that may still be wanted: along a step, an entry goes away
  only by an explicit removal of its id, or while another job is added, and then only if the
  job is finished and was first read at least five minutes ago.
\<close>

theorem registry_keeps_jobs:
  assumes "job_reach es s" "registrations es < 2 ^ 64 - 1" "job_step e s s'"
    and "Manager_Get i (js_store s) = Some r" "Manager_Get i (js_store s') \<noteq> Some r"
  shows "e = E_remove i \<or> (\<exists>q a. e = E_register q \<and> lastAccessedAt (job_at s r) = Some a
    \<and> status (job_at s r) \<noteq> JobStatusRunning \<and> completedJobRetention \<le> js_clock s - a)"
  using registry_entry_kept [OF assms(3) registry_ok_reach [OF assms(1)] _ assms(4,5)] assms(2) by simp

theorem registry_keeps_jobs_witness:
  "job_step (E_remove ''000001'') sample_done (with_store (Manager_Remove ''000001'') sample_done)
   \<and> Manager_Get ''000001'' (js_store (with_store (Manager_Remove ''000001'') sample_done)) \<noteq> Some 0"
proof -
  have reg: "registrations sample_history = 1"
    by (simp add: registrations_def is_register_def sample_history_def sample_finish_def)
  have "Manager_Get ''000001'' (js_store sample_done) = Some 0"
    by (simp add: sample_done_def sample_sys_def sample_store_def Manager_Get_def)
  moreover have gone: "Manager_Get ''000001'' (js_store (with_store (Manager_Remove ''000001'') sample_done)) \<noteq> Some 0"
    by (simp add: sample_done_def sample_sys_def sample_store_def Manager_Get_def Manager_Remove_def with_store_def)
  ultimately show ?thesis
    using registry_keeps_jobs [OF sample_reach_done _ job_step.remove, of "''000001''" 0] reg job_step.remove by simp
qed

text \<open>
  C17. In every reachable state the registry holds at most 100 jobs, its ids are distinct, each id
  is the id stored in the job it leads to, and no two ids lead to the same job.
\<close>

theorem registry_bounded:
  assumes "job_reach es s" "registrations es < 2 ^ 64"
  shows "let m = jobs (js_store s) in length m \<le> 100 \<and> distinct (map fst m) \<and> distinct (map snd m)
    \<and> list_all (\<lambda>(i, r). r < job_count s \<and> job_id (job_at s r) = i \<and> i \<noteq> []) m"
proof -
  let ?m = "jobs (js_store s)"
  have inv: "registry_inv (js_store s)" using registry_ok_reach [OF assms(1,2)] by (simp add: registry_ok_def)
  have ent: "r < job_count s \<and> job_id (job_at s r) = i \<and> i \<noteq> []" if "(i, r) \<in> set ?m" for i r
    using inv that by (fastforce simp: registry_inv_def job_count_def job_at_def)
  have d: "distinct (map fst ?m)" using inv by (simp add: registry_inv_def gomap_ok_def)
  have "distinct ?m" using d by (simp add: distinct_map)
  moreover have "inj_on snd (set ?m)"
    by (rule inj_onI) (metis ent prod.collapse)
  ultimately have "distinct (map snd ?m)" by (simp add: distinct_map)
  moreover have "list_all (\<lambda>(i, r). r < job_count s \<and> job_id (job_at s r) = i \<and> i \<noteq> []) ?m"
    using ent by (auto simp: list_all_iff)
  ultimately show ?thesis using d inv by (simp add: registry_inv_def maxBackgroundJobs_def)
qed

theorem registry_bounded_witness:
  "registrations sample_history = 1 \<and> length (jobs (js_store sample_done)) \<le> 100"
proof -
  have "registrations sample_history = 1"
    by (simp add: registrations_def is_register_def sample_history_def sample_finish_def)
  then show ?thesis using registry_bounded [OF sample_reach_done] by (simp add: Let_def)
qed

end
