(* ===== verification/Handler.thy ===== *)
theory Handler
  imports Exec Auth JobSystem
begin

text \<open>
  The request handlers: \<open>internal/daemon/handler.go\<close>. A run passes the authorization gate, the
  checks of paths and environment, starts a job and waits for the first of three events: the
  poll tick that finds it done, the auto-background threshold, or the end of the request. What
  each event finds is an argument, so that any interleaving with the job system is covered.
  JSON decoding is a parameter of the HTTP layer.
\<close>

section \<open>Requests and responses\<close>

record RunRequest =
  req_Command :: string
  req_Env :: "(string, string) gomap"
  req_AllowedPaths :: "AllowedPath list"
  req_Network :: "bool option"
  req_Timeout :: go_int
  req_CallerID :: string
  req_AuthToken :: string

record RunResponse =
  rsp_Stdout :: string
  rsp_Stderr :: string
  rsp_ExitCode :: int
  rsp_StrippedEnvKeys :: "string list"
  rsp_JobID :: string
  rsp_Status :: string

record HealthResponse =
  health_OK :: bool
  health_Platform :: string
  health_Version :: string

text \<open>
  The errors of a run: a \<open>runError\<close> with its status, one that wraps \<open>errHTTPValidation\<close>, and
  the others.
\<close>

datatype run_error =
    RunError nat string
  | PathValidation string
  | EnvValidation env_error
  | JobLimitReached
  | RequestContext ctx_error

section \<open>The authorization gate\<close>

definition validateToken :: "(gotime \<Rightarrow> auth_world) \<Rightarrow> gotime \<Rightarrow> tokenCache option \<Rightarrow> string \<Rightarrow> string \<Rightarrow>
    (auth_error + string) \<times> tokenCache option" where
  "validateToken w now tv token baseURL =
     (case tv of
        Some c \<Rightarrow> (let (r, c') = cached_validate w now token baseURL c in (r, Some c'))
      | None \<Rightarrow> (ValidateToken (w now) token baseURL, None))"

definition em_dash :: string where
  "em_dash = [CHR 0xE2, CHR 0x80, CHR 0x94]"

definition required_service_accounts :: "Config \<Rightarrow> string list" where
  "required_service_accounts cfg =
     map strings_TrimSpace (strings_Split (CHR '','') (RequireServiceAccount (Kubernetes cfg)))"

definition authorize :: "(gotime \<Rightarrow> auth_world) \<Rightarrow> gotime \<Rightarrow> Config \<Rightarrow> tokenCache option \<Rightarrow> RunRequest \<Rightarrow>
    (run_error + unit) \<times> tokenCache option" where
  "authorize w now cfg tv req =
     (if Enabled (Kubernetes cfg) \<and> RequireServiceAccount (Kubernetes cfg) \<noteq> [] then
        if req_AuthToken req = [] then (Inl (RunError 401 ''authorization required''), tv)
        else
          (case validateToken w now tv (req_AuthToken req) (TokenReviewURL (Kubernetes cfg)) of
             (Inl e, tv') \<Rightarrow> (Inl (RunError 403 (''access denied '' @ em_dash @ '' token validation failed'')), tv')
           | (Inr user, tv') \<Rightarrow>
               if \<not> IsRequiredSA user (required_service_accounts cfg)
               then (Inl (RunError 403 (''access denied '' @ em_dash @ '' unauthorized service account'')), tv')
               else (Inr (), tv'))
      else (Inr (), tv))"

section \<open>Preparing a run\<close>

definition defaultRunTimeout :: duration where
  "defaultRunTimeout = 20 * 60 * seconds_ns"

definition run_timeout :: "RunRequest \<Rightarrow> duration" where
  "run_timeout req = (if 0 < sint (req_Timeout req) then req_Timeout req * seconds_ns else defaultRunTimeout)"

definition auto_background :: "Config \<Rightarrow> go_int" where
  "auto_background cfg =
     (if AutoBackgroundAfter cfg = 0 then DefaultAutoBackgroundAfter else AutoBackgroundAfter cfg)"

text \<open>The part of \<open>handleRunAutoBackground\<close> before the job: the configuration and the stripped keys.\<close>

definition prepare_run :: "host \<Rightarrow> Config \<Rightarrow> RunRequest \<Rightarrow> run_error + ExecConfig \<times> string list" where
  "prepare_run h cfg req =
     (case buildMounts (BaselineMounts cfg) (req_AllowedPaths req) of Inl p \<Rightarrow> Inl (PathValidation p)
      | Inr mounts \<Rightarrow>
          (case validateEnv (req_Env req) of Inl e \<Rightarrow> Inl (EnvValidation e)
           | Inr _ \<Rightarrow>
               (let (allowedEnv, stripped) = FilterEnv cfg (req_Env req) in
                Inr (buildExecConfig h (envMapToSlice allowedEnv) mounts (req_AllowedPaths req), stripped))))"

section \<open>Waiting for the job\<close>

datatype poll_event = Poll_tick | Poll_threshold | Poll_request_done ctx_error

text \<open>
  One round of the \<open>select\<close> loop for the job \<open>r\<close>, in the store and at the time it finds:
  \<open>None\<close> goes round again.
\<close>

definition poll_round :: "string list \<Rightarrow> nat \<Rightarrow> poll_event \<Rightarrow> gotime \<Rightarrow> job_store \<Rightarrow>
    (run_error + RunResponse) option \<times> job_store" where
  "poll_round stripped r ev now st =
     (case ev of
        Poll_tick \<Rightarrow>
          if IsDone (heap st ! r) then
            (let info = fst (snapshot now True (heap st ! r)) in
             (Some (Inr \<lparr>rsp_Stdout = info_Stdout info, rsp_Stderr = info_Stderr info,
                rsp_ExitCode = info_ExitCode info, rsp_StrippedEnvKeys = stripped,
                rsp_JobID = [], rsp_Status = []\<rparr>),
              modify_job r (\<lambda>j. snd (snapshot now True j)) st))
          else (None, st)
      | Poll_threshold \<Rightarrow>
          (let (ok, st') = Manager_Add now r st in
           if \<not> ok then (Some (Inl JobLimitReached), modify_job r (ctx_cancelled_update (\<lambda>_. True)) st')
           else (Some (Inr \<lparr>rsp_Stdout = [], rsp_Stderr = [], rsp_ExitCode = 0, rsp_StrippedEnvKeys = [],
                   rsp_JobID = job_id (heap st' ! r), rsp_Status = ''background''\<rparr>), st'))
      | Poll_request_done ce \<Rightarrow>
          (Some (Inl (RequestContext ce)), modify_job r (ctx_cancelled_update (\<lambda>_. True)) st))"

text \<open>The loop over the events as they come, each with the time and the store it finds.\<close>

fun poll_loop :: "string list \<Rightarrow> nat \<Rightarrow> (poll_event \<times> gotime \<times> job_store) list \<Rightarrow>
    ((run_error + RunResponse) \<times> job_store) option" where
  "poll_loop stripped r [] = None"
| "poll_loop stripped r ((ev, now, st) # obs) =
     (case poll_round stripped r ev now st of
        (None, _) \<Rightarrow> poll_loop stripped r obs
      | (Some resp, st') \<Rightarrow> Some (resp, st'))"

text \<open>
  \<open>handleRun\<close> up to the start of the job: an answer already, or the job with the time limit of
  its context, the command's configuration and the stripped keys.
\<close>

record run_start =
  rs_job :: BackgroundJob
  rs_config :: ExecConfig
  rs_stripped :: "string list"
  rs_threshold :: duration

definition handleRun_start :: "(gotime \<Rightarrow> auth_world) \<Rightarrow> host \<Rightarrow> gotime \<Rightarrow> Config \<Rightarrow> tokenCache option \<Rightarrow>
    RunRequest \<Rightarrow> (run_error + run_start) \<times> tokenCache option" where
  "handleRun_start w h now cfg tv req =
     (case authorize w now cfg tv req of
        (Inl e, tv') \<Rightarrow> (Inl e, tv')
      | (Inr _, tv') \<Rightarrow>
          (case prepare_run h cfg req of
             Inl e \<Rightarrow> (Inl e, tv')
           | Inr (execCfg, stripped) \<Rightarrow>
               (Inr \<lparr>rs_job = newBackgroundJob now (now + sint (run_timeout req)) (req_CallerID req) (req_Command req),
                     rs_config = execCfg, rs_stripped = stripped,
                     rs_threshold = Seconds (auto_background cfg)\<rparr>, tv')))"

text \<open>The end of \<open>handleRun\<close>: the context is released unless the job went to the background.\<close>

definition handleRun_end :: "nat \<Rightarrow> run_error + RunResponse \<Rightarrow> job_store \<Rightarrow> (run_error + RunResponse) \<times> job_store" where
  "handleRun_end r resp st =
     (case resp of
        Inl e \<Rightarrow> (Inl e, modify_job r (ctx_cancelled_update (\<lambda>_. True)) st)
      | Inr rsp \<Rightarrow>
          if rsp_JobID rsp = [] then (Inr rsp, modify_job r (ctx_cancelled_update (\<lambda>_. True)) st)
          else (Inr rsp, st))"

definition handleHealth :: "host \<Rightarrow> string \<Rightarrow> HealthResponse" where
  "handleHealth h version = \<lparr>health_OK = True, health_Platform = goos h, health_Version = version\<rparr>"

section \<open>HTTP\<close>

datatype 'a http_body = PlainError string | JsonError string | Json 'a

text \<open>\<open>http.Error\<close> writes text, \<open>writeJSON\<close> an object with the key \<open>error\<close> or a value.\<close>

record 'a http_response =
  http_status :: nat
  http_body :: "'a http_body"

definition error_text :: "(run_error \<Rightarrow> string) \<Rightarrow> run_error \<Rightarrow> string" where
  "error_text render e = (case e of RunError st msg \<Rightarrow> msg | _ \<Rightarrow> render e)"

text \<open>\<open>decoded\<close> is \<open>Inl\<close> the decoder's error, also where the body exceeds 1 MiB.\<close>

definition handleHTTPValidating :: "(run_error \<Rightarrow> string) \<Rightarrow> ('q \<Rightarrow> run_error + 'a) \<Rightarrow> string + 'q \<Rightarrow> 'a http_response" where
  "handleHTTPValidating render f decoded =
     (case decoded of
        Inl e \<Rightarrow> \<lparr>http_status = 400, http_body = PlainError e\<rparr>
      | Inr req \<Rightarrow>
          (case f req of
             Inl e \<Rightarrow>
               (case e of
                  RunError st msg \<Rightarrow> \<lparr>http_status = st, http_body = JsonError msg\<rparr>
                | PathValidation p \<Rightarrow> \<lparr>http_status = 400, http_body = JsonError (error_text render e)\<rparr>
                | _ \<Rightarrow> \<lparr>http_status = 500, http_body = JsonError (error_text render e)\<rparr>)
           | Inr resp \<Rightarrow> \<lparr>http_status = 200, http_body = Json resp\<rparr>))"

definition normalizeJobStatus :: "string \<Rightarrow> string option" where
  "normalizeJobStatus s =
     (if s = [] \<or> s = ''all'' then Some []
      else if s = ''running'' \<or> s = ''completed'' \<or> s = ''killed'' then Some s
      else None)"

text \<open>\<open>quote\<close> is the rendering of the verb \<open>%q\<close>.\<close>

definition handleHTTPJobList :: "(string \<Rightarrow> string) \<Rightarrow> gotime \<Rightarrow> string \<Rightarrow> string \<Rightarrow> job_store \<Rightarrow>
    JobInfo list http_response" where
  "handleHTTPJobList quote now stat caller st =
     (case normalizeJobStatus stat of
        None \<Rightarrow> \<lparr>http_status = 400, http_body = JsonError (''invalid job status '' @ quote stat)\<rparr>
      | Some s \<Rightarrow> \<lparr>http_status = 200, http_body = Json (Manager_List now s caller st)\<rparr>)"

definition handleHTTPJobGet :: "gotime \<Rightarrow> string \<Rightarrow> job_store \<Rightarrow> JobInfo http_response \<times> job_store" where
  "handleHTTPJobGet now ident st =
     (case Manager_Get ident st of
        None \<Rightarrow> (\<lparr>http_status = 404, http_body = JsonError ''job not found''\<rparr>, st)
      | Some r \<Rightarrow>
          (\<lparr>http_status = 200, http_body = Json (fst (snapshot now True (heap st ! r)))\<rparr>,
           modify_job r (\<lambda>j. snd (snapshot now True j)) st))"

definition handleHTTPJobKill :: "gotime \<Rightarrow> string \<Rightarrow> job_store \<Rightarrow> JobInfo http_response \<times> job_store" where
  "handleHTTPJobKill now ident st =
     (case Manager_Get ident st of
        None \<Rightarrow> (\<lparr>http_status = 404, http_body = JsonError ''job not found''\<rparr>, st)
      | Some r \<Rightarrow>
          if IsDone (heap st ! r)
          then (\<lparr>http_status = 409, http_body = JsonError ''job already completed''\<rparr>, st)
          else
            (let (ok, st') = Manager_Kill ident st in
             if \<not> ok then (\<lparr>http_status = 409, http_body = JsonError ''job already completed''\<rparr>, st')
             else (\<lparr>http_status = 200, http_body = Json (fst (snapshot now True (heap st' ! r)))\<rparr>,
                   modify_job r (\<lambda>j. snd (snapshot now True j)) st')))"

section \<open>Authorization\<close>

text \<open>The daemon's validator, with or without a cache, is a validator with the cache's window.\<close>

definition tv_inv :: "(gotime \<Rightarrow> auth_world) \<Rightarrow> int \<Rightarrow> gotime \<Rightarrow> tokenCache option \<Rightarrow> bool" where
  "tv_inv w d t tv \<longleftrightarrow> (case tv of None \<Rightarrow> True | Some c \<Rightarrow> cache_inv w d t c)"

interpretation daemon: token_validator "\<lambda>now token url tv. validateToken w now tv token url"
  "tv_inv w (int d)" "reviewed w" "int d" for w d
proof
  fix t now token url u and tv :: "tokenCache option"
  assume inv: "tv_inv w (int d) t tv" "t \<le> now"
  show "tv_inv w (int d) now (snd (validateToken w now tv token url))"
    using inv cached.inv_step [of w d t _ now token url]
    by (cases tv) (auto simp: tv_inv_def validateToken_def Let_def case_prod_beta)
  assume r: "fst (validateToken w now tv token url) = Inr u"
  show "\<exists>v \<le> now. now - int d \<le> v \<and> reviewed w v token u"
  proof (cases tv)
    case None
    with r have "ValidateToken (w now) token url = Inr u" by (simp add: validateToken_def)
    then show ?thesis by (intro exI [of _ now]) (auto simp: reviewed_def ValidateToken_Inr)
  next
    case (Some c)
    then have "cache_inv w (int d) t c" "fst (cached_validate w now token url c) = Inr u"
      using inv r by (simp_all add: tv_inv_def validateToken_def Let_def case_prod_beta)
    from cached.sound [OF this(1) inv(2) this(2)] show ?thesis .
  qed
qed simp

definition auth_required :: "Config \<Rightarrow> bool" where
  "auth_required cfg \<longleftrightarrow> Enabled (Kubernetes cfg) \<and> RequireServiceAccount (Kubernetes cfg) \<noteq> []"

lemma required_nonempty: "required_service_accounts cfg \<noteq> []"
  by (simp add: required_service_accounts_def)

lemma IsRequiredSA_iff: "sas \<noteq> [] \<Longrightarrow> IsRequiredSA u sas \<longleftrightarrow> u \<in> set sas"
  by (simp add: IsRequiredSA_def sa_loop_iff)

lemma authorize_Inr:
  assumes "authorize w now cfg tv req = (Inr x, tv')" "auth_required cfg"
  shows "req_AuthToken req \<noteq> [] \<and> (\<exists>user \<in> set (required_service_accounts cfg).
    validateToken w now tv (req_AuthToken req) (TokenReviewURL (Kubernetes cfg)) = (Inr user, tv'))"
  using assms IsRequiredSA_iff [OF required_nonempty, of _ cfg]
  by (auto simp: authorize_def auth_required_def split: if_splits prod.splits sum.splits)

lemma authorize_Inl:
  assumes "authorize w now cfg tv req = (Inl e, tv')"
  shows "auth_required cfg \<and> (\<exists>msg. e = RunError 401 msg \<and> req_AuthToken req = []
    \<or> e = RunError 403 msg \<and> req_AuthToken req \<noteq> [])"
  using assms by (auto simp: authorize_def auth_required_def split: if_splits prod.splits sum.splits)

lemma authorize_open: "\<not> auth_required cfg \<Longrightarrow> authorize w now cfg tv req = (Inr (), tv)"
  unfolding authorize_def auth_required_def by (simp only: if_False)

section \<open>What a prepared run grants\<close>

lemma prepare_run_Inr:
  assumes "prepare_run h cfg req = Inr (c, stripped)" "gomap_ok (req_Env req)"
  shows "(\<forall>ap \<in> set (req_AllowedPaths req). filepath_IsAbs (ap_Path ap))
    \<and> (\<forall>kv \<in> set (req_Env req). good_env_entry kv)
    \<and> MountDirs c = AddAncestorMounts (BaselineMounts cfg @ map request_mount (req_AllowedPaths req))
    \<and> Env c = envMapToSlice (filter (\<lambda>kv. env_allowed cfg (fst kv)) (req_Env req))
    \<and> stripped = sort (map fst (filter (\<lambda>kv. \<not> env_allowed cfg (fst kv)) (req_Env req)))
    \<and> WorkingDir c = (case req_AllowedPaths req of [] \<Rightarrow> temp_dir h | ap # _ \<Rightarrow> filepath_Clean (ap_Path ap))"
  using assms
  by (auto simp: prepare_run_def FilterEnv_eq buildExecConfig_def buildMounts_Inr validateEnv_Inr
      split: sum.splits)

lemma prepare_run_Inl:
  assumes "prepare_run h cfg req = Inl e"
  shows "(\<exists>ap \<in> set (req_AllowedPaths req). e = PathValidation (ap_Path ap) \<and> \<not> filepath_IsAbs (ap_Path ap))
    \<or> (\<exists>kv \<in> set (req_Env req). \<exists>x. e = EnvValidation x \<and> bad_env_entry kv x)"
  using assms buildMounts_Inl validateEnv_Inl
  by (auto simp: prepare_run_def split: sum.splits prod.splits) blast+

text \<open>The environment a started command sees, whichever backend runs it.\<close>

lemma prepared_env:
  assumes "prepare_run h cfg req = Inr (c, stripped)" "gomap_ok (req_Env req)"
    and "cmd \<in> set (starts (snd (fst (Sandbox_Exec sb E st com (Some c)))))"
  shows "\<exists>fb. \<forall>k. exec_env_lookup (cmd_env cmd) k =
    (case map_of (req_Env req) k of
       Some v \<Rightarrow> if env_allowed cfg k then Some v else builtin_env (eh_tools E) fb k
     | None \<Rightarrow> builtin_env (eh_tools E) fb k)"
proof -
  let ?m = "filter (\<lambda>kv. env_allowed cfg (fst kv)) (req_Env req)"
  note p = prepare_run_Inr [OF assms(1,2)]
  have names: "\<forall>kv \<in> set ?m. CHR ''='' \<notin> set (fst kv)"
    using p valid_name_no_eq by (auto simp: good_env_entry_def)
  have ok: "gomap_ok ?m" using assms(2) by (rule gomap_ok_filter)
  have env: "Env c = envMapToSlice ?m" using p by blast
  obtain fb where fb: "\<forall>k. exec_env_lookup (cmd_env cmd) k =
      (case map_of ?m k of Some v \<Rightarrow> Some v | None \<Rightarrow> builtin_env (eh_tools E) fb k)"
    using sandbox.run_env [OF assms(3) ok env names] by blast
  have "map_of ?m k = (case map_of (req_Env req) k of
      Some v \<Rightarrow> if env_allowed cfg k then Some v else None | None \<Rightarrow> None)" for k
  proof (cases "map_of ?m k")
    case None
    then show ?thesis
      using gomap_filter_lookup [OF assms(2), of "\<lambda>kv. env_allowed cfg (fst kv)" k]
      by (auto split: option.splits)
  next
    case (Some v)
    then show ?thesis
      using gomap_filter_lookup [OF assms(2), of "\<lambda>kv. env_allowed cfg (fst kv)" k v] by auto
  qed
  with fb show ?thesis by (intro exI [of _ fb]) (auto split: option.split)
qed

text \<open>The directories a bubblewrap command can write to.\<close>

definition grants_write :: "Config \<Rightarrow> RunRequest \<Rightarrow> string set" where
  "grants_write cfg req = set (AllowWrite cfg)
     \<union> {filepath_Clean (ap_Path ap) | ap. ap \<in> set (req_AllowedPaths req) \<and> \<not> ap_ReadOnly ap \<and> \<not> ap_MetadataOnly ap}"

definition grants_read :: "Config \<Rightarrow> RunRequest \<Rightarrow> string set" where
  "grants_read cfg req = set (AllowRead cfg) \<union> set (AllowWrite cfg)
     \<union> {filepath_Clean (ap_Path ap) | ap. ap \<in> set (req_AllowedPaths req) \<and> \<not> ap_MetadataOnly ap}"

lemma ancestor_mounts_granted:
  "{m \<in> set (AddAncestorMounts ms). \<not> MetadataOnly m \<and> P m} = {m \<in> set ms. \<not> MetadataOnly m \<and> P m}"
  by (rule AddAncestorMounts_spec [of ms]) (auto simp: metadata_mount_def)

lemma prepared_mounts:
  assumes "prepare_run h cfg req = Inr (c, stripped)" "gomap_ok (req_Env req)"
  shows "Source ` {m \<in> set (MountDirs c). \<not> MetadataOnly m \<and> \<not> ReadOnly m \<and> Q (Source m)} =
      {p \<in> grants_write cfg req. Q p}"
    and "Source ` {m \<in> set (MountDirs c). \<not> MetadataOnly m \<and> Q (Source m)} = {p \<in> grants_read cfg req. Q p}"
proof -
  let ?ms = "BaselineMounts cfg @ map request_mount (req_AllowedPaths req)"
  have m: "MountDirs c = AddAncestorMounts ?ms" using prepare_run_Inr [OF assms] by blast
  show "Source ` {m \<in> set (MountDirs c). \<not> MetadataOnly m \<and> \<not> ReadOnly m \<and> Q (Source m)} =
      {p \<in> grants_write cfg req. Q p}"
    unfolding m ancestor_mounts_granted
    by (auto simp: grants_write_def BaselineMounts_def request_mount_def image_iff) force+
  show "Source ` {m \<in> set (MountDirs c). \<not> MetadataOnly m \<and> Q (Source m)} = {p \<in> grants_read cfg req. Q p}"
    unfolding m ancestor_mounts_granted
    by (auto simp: grants_read_def BaselineMounts_def request_mount_def image_iff) force+
qed

section \<open>The handlers as steps of the job system\<close>

lemma job_sys_id [simp]: "s\<lparr>js_store := js_store s\<rparr> = s"
  by simp

lemma with_store_eq: "with_store f s = s\<lparr>js_store := f (js_store s)\<rparr>"
  by (simp add: with_store_def)

lemma job_run_2: "job_step e s s' \<Longrightarrow> job_step f s' s'' \<Longrightarrow> job_run [e, f] s s''"
  by (rule job_run_Cons [OF _ job_run_1])

lemma handleHTTPJobKill_cases:
  obtains (missing) "Manager_Get i st = None"
      "handleHTTPJobKill now i st = (\<lparr>http_status = 404, http_body = JsonError ''job not found''\<rparr>, st)"
  | (finished) r where "Manager_Get i st = Some r" "job_done (heap st ! r)"
      "handleHTTPJobKill now i st = (\<lparr>http_status = 409, http_body = JsonError ''job already completed''\<rparr>, st)"
  | (killed) r st1 where "Manager_Get i st = Some r" "\<not> job_done (heap st ! r)"
      "st1 = modify_job r (ctx_cancelled_update (\<lambda>_. True)) st" "Manager_Kill i st = (True, st1)"
      "handleHTTPJobKill now i st = (\<lparr>http_status = 200, http_body = Json (fst (snapshot now True (heap st1 ! r)))\<rparr>,
         modify_job r (\<lambda>j. snd (snapshot now True j)) st1)"
proof (cases "Manager_Get i st")
  case None
  then show ?thesis using missing by (simp add: handleHTTPJobKill_def)
next
  case (Some r)
  show ?thesis
  proof (cases "job_done (heap st ! r)")
    case True
    with Some show ?thesis using finished by (simp add: handleHTTPJobKill_def IsDone_def)
  next
    case False
    then have "Manager_Kill i st = (True, modify_job r (ctx_cancelled_update (\<lambda>_. True)) st)"
      using Some by (simp add: Manager_Kill_def Manager_Get_def)
    with Some False show ?thesis
      by (intro killed [of r]) (simp_all add: handleHTTPJobKill_def IsDone_def Let_def)
  qed
qed

section \<open>What a run answers\<close>

lemma poll_tick_response:
  assumes "job_reach es s" "r < job_count s"
    and "poll_round stripped r Poll_tick now (js_store s) = (Some resp, st')"
  shows "\<exists>err out errout code. execs es r = [(err, out, errout, code)]
    \<and> resp = Inr \<lparr>rsp_Stdout = job_truncate out, rsp_Stderr = job_truncate (stderr_text err errout),
        rsp_ExitCode = code, rsp_StrippedEnvKeys = stripped, rsp_JobID = [], rsp_Status = []\<rparr>
    \<and> jobs st' = jobs (js_store s)"
proof -
  let ?j = "job_at s r"
  have finished: "job_done ?j" using assms(3) by (auto simp: poll_round_def IsDone_def job_at_def split: if_splits)
  have ok: "job_ok (js_clock s) ?j (js_work s ! r)" using jobs_ok_at [OF jobs_ok_reach [OF assms(1)] assms(2)] .
  then have w: "js_work s ! r = Closed" using finished by (simp add: job_ok_def)
  with ok have st: "status ?j \<noteq> JobStatusRunning" by (simp add: job_ok_def before_finish_def)
  have "output_ok es r ?j (js_work s ! r)" using outputs_ok_reach [OF assms(1)] assms(2) by (simp add: outputs_ok_def)
  then obtain err out errout code where o: "execs es r = [(err, out, errout, code)]" "job_stdout ?j = out"
    "job_stderr ?j = stderr_text err errout" "exitCode ?j = code" using w by (auto simp: output_ok_def code_ok_def)
  have "resp = Inr \<lparr>rsp_Stdout = job_truncate out, rsp_Stderr = job_truncate (stderr_text err errout),
        rsp_ExitCode = code, rsp_StrippedEnvKeys = stripped, rsp_JobID = [], rsp_Status = []\<rparr> \<and> jobs st' = jobs (js_store s)"
    using assms(3) finished o snapshot_done [OF st, of now]
    by (auto simp: poll_round_def IsDone_def job_at_def Let_def)
  with o(1) show ?thesis by blast
qed

lemma poll_threshold_response:
  assumes "registry_ok n s" "n < 2 ^ 64 - 1" "r < job_count s" "job_id (job_at s r) = []"
    and "poll_round stripped r Poll_threshold now (js_store s) = (Some resp, st')"
  shows "(resp = Inl JobLimitReached \<and> ctx_cancelled (heap st' ! r)
      \<and> maxBackgroundJobs \<le> length (jobs (gcLocked now (js_store s))))
    \<or> (\<exists>rsp. resp = Inr rsp \<and> rsp_Status rsp = ''background'' \<and> rsp_JobID rsp \<noteq> []
      \<and> Manager_Get (rsp_JobID rsp) st' = Some r \<and> Manager_Get (rsp_JobID rsp) (js_store s) = None)"
proof -
  obtain ok st1 where a: "Manager_Add now r (js_store s) = (ok, st1)" by fastforce
  have b: "registry_inv (js_store s)" "unat (seq (js_store s)) < 2 ^ 64 - 1"
    using assms(1,2) by (simp_all add: registry_ok_def)
  show ?thesis
  proof (cases ok)
    case True
    then have a': "Manager_Add now r (js_store s) = (True, st1)" using a by simp
    have r: "r < length (heap (js_store s))" "job_id (heap (js_store s) ! r) = []"
      using assms(3,4) by (simp_all add: job_count_def job_at_def)
    note f = Manager_Add_ok [OF a' b r]
    have "gomap_ok (jobs st1)" using f(4) by (simp add: registry_inv_def)
    then have g: "Manager_Get (fmt_06x (unat (seq (js_store s) + 1))) st1 = Some r"
      unfolding Manager_Get_def by (simp add: gomap_lookup_iff f(1) del: map_of_append)
    have i: "job_id (heap st1 ! r) = fmt_06x (unat (seq (js_store s) + 1))" using f(3) r by simp
    show ?thesis
      using assms(5) a' g i f(5) by (auto simp: poll_round_def Let_def)
  next
    case False
    with a have "st1 = gcLocked now (js_store s)" "maxBackgroundJobs \<le> length (jobs (gcLocked now (js_store s)))"
      by (simp_all add: Manager_Add_full)
    with assms(3,5) a False show ?thesis
      by (auto simp: poll_round_def Let_def heap_modify_job job_count_def)
  qed
qed

text \<open>The sandbox's truncation marker never reaches a client: the daemon truncates again.\<close>

lemma job_truncate_twice: "job_truncate (truncate_output s maxOutputBytes) = job_truncate s"
proof (cases "length s \<le> maxOutputBytes")
  case True
  then show ?thesis by (simp add: truncate_output_def)
next
  case False
  have m: "maxOutputBytes = job_maxOutputBytes" by (simp add: maxOutputBytes_def job_maxOutputBytes_def)
  have "0 < length truncation_marker" by (simp add: truncation_marker_def)
  with False have t: "truncate_output s maxOutputBytes = take job_maxOutputBytes s @ truncation_marker"
    "\<not> length (take job_maxOutputBytes s @ truncation_marker) \<le> job_maxOutputBytes"
    unfolding m by (auto simp: truncate_output_def)
  have "take job_maxOutputBytes (take job_maxOutputBytes s @ truncation_marker) = take job_maxOutputBytes s"
    using False m by simp
  with False t m show ?thesis by (simp only: job_truncate_def if_False)
qed

section \<open>Time limits\<close>

lemma run_timeout_exact:
  assumes "0 < n" "n \<le> 9223372036" "req_Timeout req = of_nat n"
  shows "sint (run_timeout req) = int n * 1000000000"
proof -
  have st: "sint (of_nat m :: 64 word) = int m" if "int m < 2 ^ 63" for m
  proof -
    have "signed_take_bit (LENGTH(64) - Suc 0) (int m) = int m"
      by (rule signed_take_bit_int_eq_self) (use that in simp_all)
    then show ?thesis by (simp only: signed_of_nat of_int_eq_id id_apply)
  qed
  have n: "sint (req_Timeout req) = int n" using assms by (simp add: st)
  have "run_timeout req = of_nat (n * 1000000000)"
    using n assms(1,3) by (simp add: run_timeout_def seconds_ns_def)
  moreover have "sint (of_nat (n * 1000000000) :: 64 word) = int (n * 1000000000)"
    by (rule st) (use assms(2) in simp)
  ultimately show ?thesis by simp
qed

end
