(* ===== verification/Races.thy ===== *)
theory Races
  imports Handler
begin

text \<open>
  The handlers against the running system: a run from its request to its answer, what an id names
  from one look at the registry to a later one, and the kill request with the goroutines, the other
  requests and the clock between its three looks at the registry and the job. \<open>Handler\<close> has each
  handler as one step; here the steps are apart.
\<close>

section \<open>A run from request to answer\<close>

text \<open>
  \<open>handleRun\<close> as a whole: refused before a job exists, or the job is started as the newest one and
  the loop waits, each event finding the store that the rest of the system has made by then;
  \<open>None\<close> while it still waits. The gate's cache is returned too.
\<close>

definition handleRun :: "(gotime \<Rightarrow> auth_world) \<Rightarrow> host \<Rightarrow> gotime \<Rightarrow> Config \<Rightarrow> tokenCache option \<Rightarrow> RunRequest \<Rightarrow>
    job_store \<Rightarrow> (poll_event \<times> gotime \<times> job_store) list \<Rightarrow>
    ((run_error + RunResponse) \<times> job_store \<times> tokenCache option) option" where
  "handleRun w h now cfg tv req st obs =
     (case handleRun_start w h now cfg tv req of
        (Inl e, tv') \<Rightarrow> Some (Inl e, st, tv')
      | (Inr rs, tv') \<Rightarrow>
          (let r = length (heap st) in
           case poll_loop (rs_stripped rs) r obs of
             None \<Rightarrow> None
           | Some (resp, st1) \<Rightarrow> (let (resp', st') = handleRun_end r resp st1 in Some (resp', st', tv'))))"

text \<open>
  The same in the two functions of the code: the gate around \<open>handleRunAutoBackground\<close>, which prepares
  the run, starts the job and waits.
\<close>

definition handleRunAutoBackground :: "host \<Rightarrow> Config \<Rightarrow> RunRequest \<Rightarrow> job_store \<Rightarrow>
    (poll_event \<times> gotime \<times> job_store) list \<Rightarrow> ((run_error + RunResponse) \<times> job_store) option" where
  "handleRunAutoBackground h cfg req st obs =
     (case prepare_run h cfg req of
        Inl e \<Rightarrow> Some (Inl e, st)
      | Inr (execCfg, stripped) \<Rightarrow> poll_loop stripped (length (heap st)) obs)"

lemma handleRun_gate:
  "handleRun w h now cfg tv req st obs =
     (case authorize w now cfg tv req of
        (Inl e, tv') \<Rightarrow> Some (Inl e, st, tv')
      | (Inr _, tv') \<Rightarrow>
          (case handleRunAutoBackground h cfg req st obs of
             None \<Rightarrow> None
           | Some (resp, st1) \<Rightarrow>
               (let (resp', st') = handleRun_end (length (heap st)) resp st1 in Some (resp', st', tv'))))"
  by (auto simp: handleRun_def handleRun_start_def handleRunAutoBackground_def handleRun_end_def modify_job_def Let_def
      list_update_beyond
      split: prod.split sum.split option.split)

lemma poll_loop_length:
  assumes "poll_loop stripped r obs = Some (resp, st')" "\<forall>(ev, t, s) \<in> set obs. r < length (heap s)"
  shows "r < length (heap st')
    \<and> (\<forall>rsp. resp = Inr rsp \<longrightarrow> rsp_JobID rsp \<noteq> [] \<longrightarrow>
         rsp_Status rsp = ''background'' \<and> Manager_Get (rsp_JobID rsp) st' = Some r)"
  using assms
proof (induction stripped r obs rule: poll_loop.induct)
  case (2 stripped r ev now st obs)
  show ?case
  proof (cases "poll_round stripped r ev now st")
    case (Pair res st1)
    show ?thesis
    proof (cases res)
      case None
      with Pair 2 show ?thesis by auto
    next
      case (Some x)
      with Pair "2.prems" have x: "x = resp" "st1 = st'" "r < length (heap st)" by auto
      show ?thesis
      proof (cases ev)
        case Poll_threshold
        obtain ok st2 where a: "Manager_Add now r st = (ok, st2)" by fastforce
        have len: "length (heap st2) = length (heap st)" using a by (auto simp: Manager_Add_def Let_def split: if_splits)
        have get: "ok \<Longrightarrow> Manager_Get (job_id (heap st2 ! r)) st2 = Some r"
          using a x(3) by (auto simp: Manager_Add_def Manager_Get_def Let_def heap_modify_job update_conv' split: if_splits)
        from Some Pair x a len get Poll_threshold show ?thesis
          by (cases ok) (auto simp: poll_round_def Let_def)
      qed (use Some Pair x in \<open>auto simp: poll_round_def Let_def split: if_splits\<close>)
    qed
  qed
qed simp

text \<open>
  C13. No run leaves a command behind that nobody can reach: when the run handler returns, either
  the request was refused and no job was made, or its job's context is cancelled, which ends the
  command and releases the timer, or the answer is \<open>background\<close> with an id under which the
  registry finds this very job.
\<close>

theorem no_orphan_job:
  assumes "handleRun w h now cfg tv req st obs = Some (resp, st', tv')"
    and "\<forall>(ev, t, s) \<in> set obs. length (heap st) < length (heap s)"
  shows "(\<exists>e. fst (handleRun_start w h now cfg tv req) = Inl e \<and> resp = Inl e \<and> st' = st)
    \<or> ctx_cancelled (heap st' ! length (heap st))
    \<or> (\<exists>rsp. resp = Inr rsp \<and> rsp_Status rsp = ''background''
         \<and> Manager_Get (rsp_JobID rsp) st' = Some (length (heap st)))"
proof (cases "handleRun_start w h now cfg tv req")
  case (Pair res tv0)
  let ?r = "length (heap st)"
  show ?thesis
  proof (cases res)
    case (Inl e)
    with Pair assms(1) show ?thesis by (simp add: handleRun_def)
  next
    case (Inr rs)
    then obtain resp1 st1 where l: "poll_loop (rs_stripped rs) ?r obs = Some (resp1, st1)"
      and e: "handleRun_end ?r resp1 st1 = (resp, st')"
      using Pair assms(1) by (auto simp: handleRun_def Let_def split: option.splits prod.splits)
    from poll_loop_length [OF l assms(2)] e show ?thesis
      by (auto simp: handleRun_end_def heap_modify_job split: sum.splits if_splits)
  qed
qed

definition no_cluster :: "gotime \<Rightarrow> auth_world" where
  "no_cluster t = \<lparr>au_incluster = False, au_sa_file = None, au_url_ok = (\<lambda>u. False), au_do = (\<lambda>r. None)\<rparr>"

lemma no_orphan_job_witness:
  "\<exists>st'. handleRun no_cluster sample_host 0 zero_Config None
      \<lparr>req_Command = ''ls'', req_Env = [], req_AllowedPaths = [], req_Network = None, req_Timeout = 0,
       req_CallerID = [], req_AuthToken = []\<rparr> NewBackgroundJobManager
      [(Poll_tick, 1, sample_store sample_job), (Poll_request_done Canceled, 2, sample_store sample_job)]
      = Some (Inl (RequestContext Canceled), st', None) \<and> ctx_cancelled (heap st' ! 0)"
proof -
  let ?req = "\<lparr>req_Command = ''ls'', req_Env = [], req_AllowedPaths = [], req_Network = None, req_Timeout = 0,
       req_CallerID = [], req_AuthToken = []\<rparr>"
  let ?obs = "[(Poll_tick, 1, sample_store sample_job), (Poll_request_done Canceled, 2, sample_store sample_job)]"
  have "\<not> auth_required zero_Config" by (simp add: auth_required_def zero_Config_def)
  moreover have "buildMounts (BaselineMounts zero_Config) [] = Inr (AddAncestorMounts (BaselineMounts zero_Config))"
    by (simp add: buildMounts_Inr)
  ultimately obtain rs where start: "handleRun_start no_cluster sample_host 0 zero_Config None ?req = (Inr rs, None)"
    by (cases "FilterEnv zero_Config []") (simp add: handleRun_start_def authorize_open prepare_run_def)
  then obtain st' where h: "handleRun no_cluster sample_host 0 zero_Config None ?req NewBackgroundJobManager ?obs
      = Some (Inl (RequestContext Canceled), st', None)"
    by (simp add: handleRun_def poll_round_def handleRun_end_def NewBackgroundJobManager_def sample_store_def
        sample_job_def newBackgroundJob_def IsDone_def Let_def)
  with no_orphan_job [OF h] start show ?thesis
    by (simp add: NewBackgroundJobManager_def sample_store_def)
qed

section \<open>An id and its job\<close>

lemma Manager_Add_get:
  assumes "registry_inv st" "unat (seq st) < 2 ^ 64 - 1" "r < length (heap st)" "job_id (heap st ! r) = []"
    and "k \<le> unat (seq st)" "Manager_Get (fmt_06x k) (snd (Manager_Add now r st)) = Some q"
  shows "Manager_Get (fmt_06x k) st = Some q"
proof (cases "Manager_Add now r st")
  case (Pair ok st')
  have gc: "Manager_Get (fmt_06x k) (gcLocked now st) = Some q \<Longrightarrow> ?thesis"
    using Manager_Get_gc [OF assms(1)] by blast
  show ?thesis
  proof (cases ok)
    case True
    with Pair have a: "Manager_Add now r st = (True, st')" by simp
    have "fmt_06x (unat (seq st + 1)) \<noteq> fmt_06x k"
      using next_seq [OF assms(2)] assms(5) by (simp add: fmt_06x_inj)
    with Manager_Add_ok(1) [OF a assms(1-4)] assms(6) Pair gc show ?thesis
      by (auto simp: Manager_Get_def map_add_def split: option.splits if_splits)
  next
    case False
    with Pair have "st' = gcLocked now st" using Manager_Add_full [of now r st st'] by simp
    with assms(6) Pair gc show ?thesis by simp
  qed
qed

lemma Manager_Add_seq:
  assumes "unat (seq st) < 2 ^ 64 - 1"
  shows "unat (seq st) \<le> unat (seq (snd (Manager_Add now r st)))"
  using next_seq [OF assms] by (simp add: Manager_Add_def Let_def)

lemma id_entry_step:
  assumes "job_step e s s'" "registry_ok n s" "is_register e \<Longrightarrow> n < 2 ^ 64 - 1" "k \<le> unat (seq (js_store s))"
  shows "k \<le> unat (seq (js_store s'))
    \<and> (Manager_Get (fmt_06x k) (js_store s') = Some q \<longrightarrow> Manager_Get (fmt_06x k) (js_store s) = Some q)"
  using assms(1)
proof cases
  case (register r)
  have b: "unat (seq (js_store s)) < 2 ^ 64 - 1" "registry_inv (js_store s)"
    using assms register(1) by (auto simp: registry_ok_def is_register_def)
  have "r < length (heap (js_store s))" "job_id (heap (js_store s) ! r) = []"
    using register by (simp_all add: job_count_def job_at_def)
  with Manager_Add_get [OF b(2,1) _ _ assms(4)] Manager_Add_seq [OF b(1)] assms(4) register(2)
  show ?thesis by (auto simp: with_store_def intro: le_trans)
next
  case (kill i)
  with assms(4) show ?thesis
    by (cases rule: Manager_Kill_cases [of i "js_store s"]) (simp_all add: with_store_def Manager_Get_def)
next
  case (remove i)
  with assms(4) show ?thesis
    by (auto simp: with_store_def Manager_Get_def Manager_Remove_def map_of_delete split: if_splits)
qed (use assms(4) in \<open>simp_all add: with_store_def set_work_def Manager_Get_def\<close>)

text \<open>
  From one look to a later one, without \<open>Remove\<close>, which no handler calls: an id never comes to
  name another job, and an entry that is gone was that of a job in a terminal status that had
  been read five minutes before.
\<close>

definition read_long_ago :: "job_sys \<Rightarrow> nat \<Rightarrow> bool" where
  "read_long_ago s r \<longleftrightarrow> status (job_at s r) \<noteq> JobStatusRunning
     \<and> (case lastAccessedAt (job_at s r) of None \<Rightarrow> False | Some a \<Rightarrow> completedJobRetention \<le> js_clock s - a)"

lemma read_long_ago_step:
  assumes "job_step e s s'" "jobs_ok s" "r < job_count s" "read_long_ago s r"
  shows "read_long_ago s' r"
proof -
  have "js_clock s \<le> js_clock s'" using assms(1) by cases (simp_all add: with_store_def set_work_def)
  then show ?thesis using job_step_after [OF assms(1-3)] assms(4)
    by (auto simp: read_long_ago_def job_after_def status_le_iff split: option.splits)
qed

definition no_remove :: "job_event list \<Rightarrow> bool" where
  "no_remove es = list_all (\<lambda>e. case e of E_remove i \<Rightarrow> False | _ \<Rightarrow> True) es"

lemma id_entry_run:
  assumes "job_run fs s s'" "job_reach es s" "registrations (es @ fs) < 2 ^ 64" "no_remove fs"
    and "Manager_Get i (js_store s) = Some r"
  shows "Manager_Get i (js_store s') = Some r \<or> Manager_Get i (js_store s') = None \<and> read_long_ago s' r"
proof -
  have "registry_inv (js_store s)"
    using registry_ok_reach [OF assms(2)] assms(3) by (simp add: registrations_def registry_ok_def)
  from registry_entry [OF this assms(5)] obtain k where
    k: "k \<le> unat (seq (js_store s))" "i = fmt_06x k" "r < job_count s" by (auto simp: job_count_def)
  have "k \<le> unat (seq (js_store s')) \<and> (Manager_Get i (js_store s') = Some r
      \<or> Manager_Get i (js_store s') = None \<and> read_long_ago s' r)"
    using assms(1-5) k(1,3)
  proof (induction rule: job_run.induct)
    case (run_step fs s s' e s'')
    have reg: "registrations (es @ fs) < 2 ^ 64" "is_register e \<Longrightarrow> registrations (es @ fs) < 2 ^ 64 - 1"
      using run_step.prems(2) registrations_snoc [of "es @ fs" e] by (auto split: if_splits)
    have nr: "no_remove fs" "e \<noteq> E_remove i" using run_step.prems(3) by (auto simp: no_remove_def)
    have reach: "job_reach (es @ fs) s'" using job_reach_run [OF run_step.prems(1) run_step.hyps(1)] .
    have ok: "registry_ok (registrations (es @ fs)) s'" "jobs_ok s'" "r < job_count s'"
      using registry_ok_reach [OF reach reg(1)] jobs_ok_reach [OF reach]
        job_run_after [OF run_step.hyps(1) jobs_ok_reach [OF run_step.prems(1)] run_step.prems(6)] by blast+
    note IH = run_step.IH [OF run_step.prems(1) reg(1) nr(1) run_step.prems(4-6)]
    note ids = id_entry_step [OF run_step.hyps(2) ok(1) reg(2), of k, folded k(2)]
    note after = read_long_ago_step [OF run_step.hyps(2) ok(2,3)]
    show ?case
    proof (cases "Manager_Get i (js_store s') = Some r")
      case True
      have "read_long_ago s' r" if "Manager_Get i (js_store s'') \<noteq> Some r"
        using registry_entry_kept [OF run_step.hyps(2) ok(1) reg(2) True that] nr(2) by (auto simp: read_long_ago_def)
      then show ?thesis using IH ids True after by (cases "Manager_Get i (js_store s'')") auto
    next
      case False
      then show ?thesis using IH ids after by (cases "Manager_Get i (js_store s'')") auto
    qed
  qed auto
  then show ?thesis by blast
qed

section \<open>A kill request with the system between its steps\<close>

text \<open>
  \<open>handleHTTPJobKill\<close> in its three looks: \<open>jobMgr.Get\<close> in the state \<open>s0\<close>, \<open>job.IsDone\<close> in
  \<open>s1\<close>, \<open>jobMgr.Kill\<close> in \<open>s2\<close>: the status it answers and the store it leaves.
\<close>

definition kill_in_steps :: "string \<Rightarrow> job_sys \<Rightarrow> job_sys \<Rightarrow> job_sys \<Rightarrow> nat \<times> job_store" where
  "kill_in_steps i s0 s1 s2 =
     (case Manager_Get i (js_store s0) of
        None \<Rightarrow> (404, js_store s2)
      | Some r \<Rightarrow>
          if IsDone (job_at s1 r) then (409, js_store s2)
          else (let (ok, st) = Manager_Kill i (js_store s2) in (if ok then 200 else 409, st)))"

text \<open>Without anything in between it is the handler.\<close>

lemma kill_in_steps_atomic:
  "fst (kill_in_steps i s s s) = http_status (fst (handleHTTPJobKill now i (js_store s)))"
  by (simp add: kill_in_steps_def handleHTTPJobKill_def job_at_def split: option.split prod.split)

lemma done_not_running:
  "jobs_ok s \<Longrightarrow> r < job_count s \<Longrightarrow> job_done (job_at s r) \<Longrightarrow> status (job_at s r) \<noteq> JobStatusRunning"
  using jobs_ok_at [of s r] by (simp add: job_ok_def before_finish_def)

text \<open>A job cancelled before its goroutine looked at the context ends as killed, whatever follows.\<close>

lemma cancelled_ends_killed:
  assumes "jobs_ok s" "r < job_count s" "js_work s ! r \<in> insert Executing (range Wrote)"
    and "s1 = s\<lparr>js_store := modify_job r (ctx_cancelled_update (\<lambda>_. True)) (js_store s)\<rparr>"
    and "job_run gs s1 s'" "job_done (job_at s' r)"
  shows "status (job_at s' r) = JobStatusKilled"
proof -
  have s1: "s1 = with_store (modify_job r (ctx_cancelled_update (\<lambda>_. True))) s"
    using assms(4) by (simp add: with_store_def)
  have "job_step (E_cancel r) s s1" unfolding s1 using assms(2) by (rule job_step.cancel)
  then have ok1: "jobs_ok s1" "r < job_count s1"
    using jobs_ok_step assms(1) job_step_after [OF _ assms(1,2)] by blast+
  have "ctx_cancelled (job_at s1 r)" "js_work s1 ! r = js_work s ! r"
    using assms(2) by (simp_all add: s1 job_at_modify)
  then have d: "doomed s1 r" using assms(3) by (auto simp: doomed_def)
  have ok': "jobs_ok s'" "r < job_count s'"
    using jobs_ok_run [OF assms(5) ok1(1)] job_run_after [OF assms(5) ok1] by blast+
  from doomed_status [OF ok' doomed_run [OF assms(5) ok1 d]] done_not_running [OF ok' assms(6)]
  show ?thesis by blast
qed

text \<open>
  C15. A kill request is answered truthfully whatever happens between its looks at the registry
  and at the job: 404 only when the id named no job; 409 only when the job had really left the
  running state, also where its entry was collected meanwhile; and 200 only when the registry
  still named this very job, which is cancelled then, and ends as killed if its command had not
  returned and its outcome not been decided yet. No other job is touched.
\<close>

theorem kill_request_interleaved:
  assumes "job_reach es s0" and "job_run fs s0 s1" and "job_run gs s1 s2"
    and "no_remove (fs @ gs)" and "registrations (es @ fs @ gs) < 2 ^ 64"
  shows "case Manager_Get i (js_store s0) of
      None \<Rightarrow> kill_in_steps i s0 s1 s2 = (404, js_store s2)
    | Some r \<Rightarrow>
        kill_in_steps i s0 s1 s2 = (409, js_store s2) \<and> status (job_at s2 r) \<noteq> JobStatusRunning
      \<or> Manager_Get i (js_store s2) = Some r
        \<and> kill_in_steps i s0 s1 s2 = (200, modify_job r (ctx_cancelled_update (\<lambda>_. True)) (js_store s2))
        \<and> (\<forall>hs s'. js_work s2 ! r \<in> insert Executing (range Wrote) \<longrightarrow>
             job_run hs (s2\<lparr>js_store := snd (kill_in_steps i s0 s1 s2)\<rparr>) s' \<longrightarrow> job_done (job_at s' r) \<longrightarrow>
             status (job_at s' r) = JobStatusKilled)"
proof (cases "Manager_Get i (js_store s0)")
  case None
  then show ?thesis by (simp add: kill_in_steps_def)
next
  case (Some r)
  have run: "job_run (fs @ gs) s0 s2" using job_run_append [OF assms(3,2)] .
  have "registry_inv (js_store s0)"
    using registry_ok_reach [OF assms(1)] assms(5) by (simp add: registrations_def registry_ok_def)
  then have r0: "r < job_count s0" using registry_entry Some by (simp add: job_count_def)
  have ok0: "jobs_ok s0" using jobs_ok_reach [OF assms(1)] .
  have s1: "jobs_ok s1" "r < job_count s1"
    using jobs_ok_run [OF assms(2) ok0] job_run_after [OF assms(2) ok0 r0] by blast+
  have s2: "jobs_ok s2" "r < job_count s2" "job_after (job_at s1 r) (job_at s2 r)"
    using jobs_ok_run [OF assms(3) s1(1)] job_run_after [OF assms(3) s1] by blast+
  have stays: "status (job_at s1 r) \<noteq> JobStatusRunning \<Longrightarrow> status (job_at s2 r) \<noteq> JobStatusRunning"
    using s2(3) by (auto simp: job_after_def status_le_iff)
  note entry = id_entry_run [OF run assms(1) assms(5) assms(4) Some, unfolded read_long_ago_def]
  consider (done1) "job_done (job_at s1 r)" | (gone) "\<not> job_done (job_at s1 r)" "Manager_Get i (js_store s2) = None"
    | (done2) "\<not> job_done (job_at s1 r)" "Manager_Get i (js_store s2) = Some r" "job_done (job_at s2 r)"
    | (live) "\<not> job_done (job_at s1 r)" "Manager_Get i (js_store s2) = Some r" "\<not> job_done (job_at s2 r)"
    using entry by (cases "job_done (job_at s1 r)"; cases "job_done (job_at s2 r)") fastforce+
  then show ?thesis
  proof cases
    case done1
    then show ?thesis using Some stays done_not_running [OF s1] by (simp add: kill_in_steps_def IsDone_def)
  next
    case gone
    then show ?thesis using Some entry by (simp add: kill_in_steps_def IsDone_def Manager_Kill_def Manager_Get_def)
  next
    case done2
    then show ?thesis using Some done_not_running [OF s2(1,2)]
      by (simp add: kill_in_steps_def IsDone_def Manager_Kill_def Manager_Get_def job_at_def)
  next
    case live
    then have k: "kill_in_steps i s0 s1 s2 = (200, modify_job r (ctx_cancelled_update (\<lambda>_. True)) (js_store s2))"
      using Some by (simp add: kill_in_steps_def IsDone_def Manager_Kill_def Manager_Get_def job_at_def)
    then show ?thesis using Some live cancelled_ends_killed [OF s2(1,2) _ refl] by simp
  qed
qed

lemma kill_request_interleaved_witness:
  "kill_in_steps ''000001'' sample_registered sample_registered sample_registered
     = (200, modify_job 0 (ctx_cancelled_update (\<lambda>_. True)) (js_store sample_registered))"
proof -
  have "Manager_Get ''000001'' (js_store sample_registered) = Some 0" "status (job_at sample_registered 0) = JobStatusRunning"
    by (simp_all add: sample_registered_def sample_sys_def sample_store_def Manager_Get_def job_at_def
        sample_job_def newBackgroundJob_def)
  with kill_request_interleaved [OF sample_reach_registered run_nil run_nil, of "''000001''"]
  show ?thesis by (simp add: no_remove_def registrations_def is_register_def)
qed

end
