(* ===== verification/Daemon.thy ===== *)
theory Daemon
  imports Handler
begin

text \<open>
  The daemon's address, listener and start: \<open>internal/daemon/daemon.go\<close> and
  \<open>internal/daemon/socket.go\<close>. The system calls of the listener are recorded as a trace; the
  outcomes of the calls are parameters. The end of the daemon is a function of what ends its wait,
  a signal or the server.
\<close>

section \<open>Addresses\<close>

definition DefaultSocketPath :: "host \<Rightarrow> string option" where
  "DefaultSocketPath h =
     (if getenv h ''TEMENOS_SOCKET_PATH'' \<noteq> [] then Some (getenv h ''TEMENOS_SOCKET_PATH'')
      else case os_UserHomeDir h of None \<Rightarrow> None
      | Some home \<Rightarrow> Some (filepath_Join [home, ''.temenos'', ''daemon.sock'']))"

definition listenAddr :: "host \<Rightarrow> string option" where
  "listenAddr h =
     (if getenv h ''TEMENOS_LISTEN_ADDR'' \<noteq> [] then Some (getenv h ''TEMENOS_LISTEN_ADDR'')
      else DefaultSocketPath h)"

definition parseListenAddr :: "string \<Rightarrow> string \<times> string" where
  "parseListenAddr addr =
     (if strings_HasPrefix addr ''/'' \<or> strings_HasPrefix addr ''.'' then (''unix'', addr) else (''tcp'', addr))"

section \<open>The listener\<close>

datatype listen_op =
    Op_Remove string
  | Op_Listen string string bool
  | Op_Chmod string nat bool
  | Op_CloseListener
  | Op_Serve

text \<open>The file mode is octal 600.\<close>

definition mode_0600 :: nat where
  "mode_0600 = 6 * 8 * 8"

text \<open>\<open>listen_ok\<close>, \<open>chmod_ok\<close>: whether \<open>net.Listen\<close> and \<open>os.Chmod\<close> succeed. Result: is it serving?\<close>

definition listenHTTP :: "(string \<Rightarrow> string \<Rightarrow> bool) \<Rightarrow> (string \<Rightarrow> bool) \<Rightarrow> string \<Rightarrow> bool \<times> listen_op list" where
  "listenHTTP listen_ok chmod_ok addr =
     (let (network, la) = parseListenAddr addr;
          rm = (if network = ''unix'' then [Op_Remove la] else [])
      in if \<not> listen_ok network la then (False, rm @ [Op_Listen network la False])
         else if network = ''unix'' then
           (if \<not> chmod_ok la
            then (False, rm @ [Op_Listen network la True, Op_Chmod la mode_0600 False, Op_CloseListener])
            else (True, rm @ [Op_Listen network la True, Op_Chmod la mode_0600 True, Op_Serve]))
         else (True, rm @ [Op_Listen network la True, Op_Serve]))"

section \<open>Start of the daemon\<close>

datatype run_failure =
    NoHomeDirectory
  | MkdirAllFailed string
  | CgroupSetup cg_error
  | ListenFailed string

record started_daemon =
  sd_config :: Config
  sd_sandbox :: Sandbox
  sd_validator :: "tokenCache option"
  sd_jobs :: job_store
  sd_network :: string
  sd_addr :: string

text \<open>What the start reads of its surroundings; the constructor of the platform is \<open>dh_New\<close>.\<close>

record daemon_host =
  dh_host :: host
  dh_mkdir_ok :: "string \<Rightarrow> bool"
  dh_decode :: "string \<Rightarrow> string + Config"
  dh_New :: "Options \<Rightarrow> Sandbox"
  dh_listen_ok :: "string \<Rightarrow> string \<Rightarrow> bool"
  dh_chmod_ok :: "string \<Rightarrow> bool"
  dh_cgroups :: cg_world

definition review_cache_ttl :: int where
  "review_cache_ttl = 5 * 60 * 1000000000"

text \<open>A configuration that does not load is replaced by the zero value.\<close>

definition daemon_config :: "daemon_host \<Rightarrow> Config" where
  "daemon_config D = (case Load (dh_host D) (dh_decode D) [] of Inl e \<Rightarrow> zero_Config | Inr c \<Rightarrow> c)"

definition daemon_options :: "Config \<Rightarrow> go_int \<Rightarrow> Options" where
  "daemon_options cfg memMB =
     \<lparr>op_BwrapPath = [], op_Timeout = DefaultTimeout, AllowUnsandboxed = False,
      op_MemoryLimitMB = memMB, op_KubernetesMode = Enabled (Kubernetes cfg)\<rparr>"

definition daemon_validator :: "Config \<Rightarrow> tokenCache option" where
  "daemon_validator cfg =
     (if Enabled (Kubernetes cfg) \<and> RequireServiceAccount (Kubernetes cfg) \<noteq> []
      then Some (newTokenCache review_cache_ttl) else None)"

text \<open>
  \<open>SetupCgroupV2\<close> of the platform: the one of \<open>cgroup_k8s.go\<close> on Linux, the stub of
  \<open>cgroup_stub.go\<close>, which does nothing and reports no error, elsewhere.
\<close>

definition stub_SetupCgroupV2 :: "cg_state \<Rightarrow> cg_error option \<times> cg_state" where
  "stub_SetupCgroupV2 st = (None, st)"

definition platform_SetupCgroupV2 :: "host \<Rightarrow> cg_world \<Rightarrow> cg_state \<Rightarrow> cg_error option \<times> cg_state" where
  "platform_SetupCgroupV2 h W st = (if goos h = ''linux'' then SetupCgroupV2 W st else stub_SetupCgroupV2 st)"

text \<open>\<open>Run\<close> up to the running server, with the cgroup state and the listener's operations.\<close>

definition daemon_Run :: "daemon_host \<Rightarrow> go_int \<Rightarrow> cg_state \<Rightarrow>
    (run_failure + started_daemon) \<times> cg_state \<times> listen_op list" where
  "daemon_Run D memMB cg =
     (case listenAddr (dh_host D) of None \<Rightarrow> (Inl NoHomeDirectory, cg, [])
      | Some addr \<Rightarrow>
          (let (network, resolved) = parseListenAddr addr in
           if network = ''unix'' \<and> \<not> dh_mkdir_ok D (filepath_Dir resolved)
           then (Inl (MkdirAllFailed (filepath_Dir resolved)), cg, [])
           else
             (case (if 0 < sint memMB then platform_SetupCgroupV2 (dh_host D) (dh_cgroups D) cg else (None, cg)) of
                (Some e, cg') \<Rightarrow> (Inl (CgroupSetup e), cg', [])
              | (None, cg') \<Rightarrow>
                  (let cfg = daemon_config D;
                       sbx = dh_New D (daemon_options cfg memMB);
                       (serving, ops) = listenHTTP (dh_listen_ok D) (dh_chmod_ok D) addr
                   in if \<not> serving then (Inl (ListenFailed addr), cg', ops)
                      else (Inr \<lparr>sd_config = cfg, sd_sandbox = sbx, sd_validator = daemon_validator cfg,
                               sd_jobs = NewBackgroundJobManager, sd_network = network, sd_addr = resolved\<rparr>,
                            cg', ops)))))"

section \<open>What a running daemon guarantees\<close>

lemma daemon_Run_started:
  assumes "daemon_Run D memMB cg = (Inr d, cg', ops)"
  shows "sd_config d = daemon_config D \<and> sd_sandbox d = dh_New D (daemon_options (sd_config d) memMB)
    \<and> sd_validator d = daemon_validator (sd_config d) \<and> sd_jobs d = NewBackgroundJobManager
    \<and> (\<exists>addr. listenAddr (dh_host D) = Some addr \<and> parseListenAddr addr = (sd_network d, sd_addr d)
         \<and> listenHTTP (dh_listen_ok D) (dh_chmod_ok D) addr = (True, ops))
    \<and> (0 < sint memMB \<longrightarrow> goos (dh_host D) = ''linux'' \<longrightarrow> SetupCgroupV2 (dh_cgroups D) cg = (None, cg'))"
  using assms
  by (auto simp: daemon_Run_def platform_SetupCgroupV2_def Let_def split: option.splits prod.splits if_splits)

text \<open>
  Off Linux a requested memory limit neither fails the start nor is set up: the daemon starts as
  if none had been asked for, in the same cgroup state.
\<close>

lemma memory_limit_off_linux:
  assumes "goos (dh_host D) \<noteq> ''linux''"
  shows "fst (daemon_Run D memMB cg) \<noteq> Inl (CgroupSetup e) \<and> fst (snd (daemon_Run D memMB cg)) = cg"
  using assms
  by (auto simp: daemon_Run_def platform_SetupCgroupV2_def stub_SetupCgroupV2_def Let_def
      split: option.split prod.split)

lemma SetupCgroupV2_None:
  assumes "SetupCgroupV2 W st = (None, st')"
  shows "cgroupReady st' \<and> cgroupStatus st' = Some (Inr ()) \<and> initLeafDone st' = Some None"
proof (cases rule: SetupCgroupV2_cases [of W st])
  case (ready st1 st2)
  then show ?thesis
    using assms setupInitLeaf_fields [OF ready(2)] cgroupV2Reason_fields [OF ready(3)] by auto
qed (use assms in auto)

lemma cgroupAvailable_cached: "cgroupStatus st = Some (Inr ()) \<Longrightarrow> cgroupAvailable W st = (True, st)"
  by (simp add: cgroupAvailable_def cgroupV2Reason_def)

lemma parseListenAddr_network: "fst (parseListenAddr addr) = ''unix'' \<or> fst (parseListenAddr addr) = ''tcp''"
  by (simp add: parseListenAddr_def)

lemma listenHTTP_unix:
  assumes "listenHTTP l c addr = (True, ops)" "fst (parseListenAddr addr) = ''unix''"
  shows "ops = [Op_Remove addr, Op_Listen ''unix'' addr True, Op_Chmod addr mode_0600 True, Op_Serve]"
  using assms by (auto simp: listenHTTP_def parseListenAddr_def Let_def split: if_splits)

section \<open>The end of the daemon\<close>

text \<open>
  How \<open>Serve\<close> returned, and what the goroutine of \<open>listenHTTP\<close> makes of it: the error of a
  server that was not closed is sent, then the channel is closed, which reads as no error.
\<close>

datatype serve_end = ServerClosed | ServeError string

definition serve_result :: "serve_end \<Rightarrow> string option" where
  "serve_result r = (case r of ServerClosed \<Rightarrow> None | ServeError e \<Rightarrow> Some e)"

text \<open>What ends the wait of \<open>waitAndShutdown\<close>, and what it does then.\<close>

datatype wait_end = Signalled | Served "string option"

datatype shutdown_op = LogShuttingDown | CallShutdown duration | WarnShutdown string

definition shutdownTimeout :: duration where
  "shutdownTimeout = 10 * seconds_ns"

definition waitAndShutdown :: "(duration \<Rightarrow> string option) \<Rightarrow> wait_end \<Rightarrow> string option \<times> shutdown_op list" where
  "waitAndShutdown shutdown ev =
     (case ev of
        Served (Some e) \<Rightarrow> (Some e, [])
      | _ \<Rightarrow>
          (None,
           (case ev of Signalled \<Rightarrow> [LogShuttingDown] | _ \<Rightarrow> [])
           @ [CallShutdown shutdownTimeout]
           @ (case shutdown shutdownTimeout of None \<Rightarrow> [] | Some w \<Rightarrow> [WarnShutdown w])))"

text \<open>The whole of \<open>Run\<close>: an error, or \<open>None\<close> where it returns nil.\<close>

text \<open>
  \<open>process.go\<close>: the tracker that \<open>Run\<close> creates and whose \<open>KillAll\<close> it defers. It has only its
  mutex: \<open>KillAll\<close> takes and releases it and kills nothing; it blocks where the mutex is held.
\<close>

record ProcessTracker =
  tracker_locked :: bool

definition NewProcessTracker :: ProcessTracker where
  "NewProcessTracker = \<lparr>tracker_locked = False\<rparr>"

definition KillAll :: "ProcessTracker \<Rightarrow> ProcessTracker option" where
  "KillAll t = (if tracker_locked t then None
     else (let held = t\<lparr>tracker_locked := True\<rparr> in Some (held\<lparr>tracker_locked := False\<rparr>)))"

lemma KillAll_returns: "KillAll NewProcessTracker = Some NewProcessTracker"
  by (simp add: KillAll_def NewProcessTracker_def)

datatype daemon_exit = StartFailed run_failure | AdminServerFailed string

definition daemon_main :: "daemon_host \<Rightarrow> go_int \<Rightarrow> cg_state \<Rightarrow> (duration \<Rightarrow> string option) \<Rightarrow> wait_end \<Rightarrow>
    daemon_exit option \<times> listen_op list \<times> shutdown_op list" where
  "daemon_main D memMB cg shutdown ev =
     (case daemon_Run D memMB cg of
        (Inl e, cg', ops) \<Rightarrow> (Some (StartFailed e), ops, [])
      | (Inr d, cg', ops) \<Rightarrow>
          (case waitAndShutdown shutdown ev of
             (Some e, sops) \<Rightarrow> (Some (AdminServerFailed e), ops, sops)
           | (None, sops) \<Rightarrow> (None, ops, sops)))"

lemma listenHTTP_serves: "listenHTTP l c addr = (True, ops) \<Longrightarrow> last ops = Op_Serve"
  by (auto simp: listenHTTP_def Let_def split: prod.splits if_splits)

text \<open>The daemon serves before it shuts down, and ends without an error only after a shutdown.\<close>

lemma daemon_main_ok:
  assumes "daemon_main D memMB cg shutdown ev = (None, ops, sops)"
  shows "last ops = Op_Serve \<and> CallShutdown shutdownTimeout \<in> set sops \<and> (\<forall>e. ev \<noteq> Served (Some e))"
proof -
  obtain d cg' where d: "daemon_Run D memMB cg = (Inr d, cg', ops)"
    and w: "waitAndShutdown shutdown ev = (None, sops)"
    using assms by (auto simp: daemon_main_def split: prod.splits sum.splits option.splits)
  from daemon_Run_started [OF d] obtain addr where
    "listenHTTP (dh_listen_ok D) (dh_chmod_ok D) addr = (True, ops)" by blast
  then have "last ops = Op_Serve" by (rule listenHTTP_serves)
  with w show ?thesis by (auto simp: waitAndShutdown_def split: wait_end.splits option.splits)
qed

end
