(* ===== verification/Client.thy ===== *)
theory Client
  imports Daemon
begin

text \<open>
  The Go client: \<open>client/client.go\<close>. The HTTP exchange is a parameter that yields a
  status, a body and its decoding; the client's part is the address, the URL, and what it makes
  of each status. The lemmas relate it to the daemon: both resolve the same address, and the
  query of a job listing is read back by the daemon as it was meant, for arguments without
  special characters.
\<close>

section \<open>Addresses\<close>

definition client_defaultSocketPath :: "host \<Rightarrow> string option" where
  "client_defaultSocketPath h =
     (if getenv h ''TEMENOS_SOCKET_PATH'' \<noteq> [] then Some (getenv h ''TEMENOS_SOCKET_PATH'')
      else case os_UserHomeDir h of None \<Rightarrow> None
      | Some home \<Rightarrow> Some (filepath_Join [home, ''.temenos'', ''daemon.sock'']))"

definition resolveAddr :: "host \<Rightarrow> string option" where
  "resolveAddr h =
     (if getenv h ''TEMENOS_LISTEN_ADDR'' \<noteq> [] then Some (getenv h ''TEMENOS_LISTEN_ADDR'')
      else client_defaultSocketPath h)"

text \<open>\<open>dial_unix\<close> is the path the transport dials, \<open>None\<close> for the default transport.\<close>

record Client =
  baseURL :: string
  dial_unix :: "string option"

text \<open>The client's own request and its own view of a job, with times as text.\<close>

record client_AllowedPath =
  cap_Path :: string
  cap_ReadOnly :: bool

record client_RunRequest =
  creq_Command :: string
  creq_Env :: "(string, string) gomap"
  creq_AllowedPaths :: "client_AllowedPath list"
  creq_Network :: "bool option"
  creq_Timeout :: go_int
  creq_CallerID :: string
  creq_AuthToken :: string

record client_JobInfo =
  cji_ID :: string
  cji_CallerID :: string
  cji_Command :: string
  cji_Status :: string
  cji_ExitCode :: int
  cji_Stdout :: string
  cji_Stderr :: string
  cji_StartedAt :: string
  cji_CompletedAt :: string

datatype client_error =
    NoHome
  | HTTPSNotSupported
  | MarshalFailed
  | BuildFailed
  | Unreachable
  | HTTPStatus int string
  | DecodeResponse
  | JobNotFound string
  | JobAlreadyCompleted string

definition client_New :: "host \<Rightarrow> string \<Rightarrow> client_error + Client" where
  "client_New h addr0 =
     (case (if addr0 = [] then resolveAddr h else Some addr0) of
        None \<Rightarrow> Inl NoHome
      | Some addr \<Rightarrow>
          if strings_HasPrefix addr ''https://'' then Inl HTTPSNotSupported
          else if strings_HasPrefix addr ''http://'' then
            Inr \<lparr>baseURL = strings_TrimSuffix addr ''/'', dial_unix = None\<rparr>
          else if strings_HasPrefix addr ''/'' \<or> strings_HasPrefix addr ''.'' then
            Inr \<lparr>baseURL = ''http://temenos'', dial_unix = Some addr\<rparr>
          else Inr \<lparr>baseURL = ''http://'' @ addr, dial_unix = None\<rparr>)"

lemma resolveAddr_listenAddr: "resolveAddr h = listenAddr h"
  by (simp add: resolveAddr_def listenAddr_def client_defaultSocketPath_def DefaultSocketPath_def)

section \<open>Exchanges\<close>

text \<open>A reply: status, body text, and the body's decoding (\<open>None\<close> where it fails).\<close>

record 'a client_reply =
  cr_status :: int
  cr_body :: string
  cr_decoded :: "'a option"

text \<open>\<open>url_ok\<close>: whether the request can be built; \<open>send\<close> is \<open>None\<close> where the daemon is unreachable.\<close>

definition postJSON :: "(string \<Rightarrow> bool) \<Rightarrow> (string \<Rightarrow> 'q \<Rightarrow> 'a client_reply option) \<Rightarrow> Client \<Rightarrow> string \<Rightarrow>
    'q option \<Rightarrow> client_error + 'a" where
  "postJSON url_ok send c path req =
     (case req of None \<Rightarrow> Inl MarshalFailed
      | Some q \<Rightarrow>
          if \<not> url_ok (baseURL c @ path) then Inl BuildFailed
          else (case send (baseURL c @ path) q of None \<Rightarrow> Inl Unreachable
            | Some resp \<Rightarrow>
                if cr_status resp \<noteq> 200 then Inl (HTTPStatus (cr_status resp) (strings_TrimSpace (cr_body resp)))
                else (case cr_decoded resp of None \<Rightarrow> Inl DecodeResponse | Some r \<Rightarrow> Inr r)))"

definition client_Run :: "(string \<Rightarrow> bool) \<Rightarrow> (string \<Rightarrow> client_RunRequest \<Rightarrow> 'a client_reply option) \<Rightarrow> Client \<Rightarrow>
    client_RunRequest option \<Rightarrow> client_error + 'a" where
  "client_Run url_ok send c req = postJSON url_ok send c ''/run'' req"

definition client_Health :: "(string \<Rightarrow> bool) \<Rightarrow> (string \<Rightarrow> 'a client_reply option) \<Rightarrow> Client \<Rightarrow> client_error option" where
  "client_Health url_ok send c =
     (if \<not> url_ok (baseURL c @ ''/health'') then Some BuildFailed
      else case send (baseURL c @ ''/health'') of None \<Rightarrow> Some Unreachable
      | Some resp \<Rightarrow> if cr_status resp \<noteq> 200 then Some (HTTPStatus (cr_status resp) []) else None)"

definition list_url :: "Client \<Rightarrow> string \<Rightarrow> string \<Rightarrow> string" where
  "list_url c caller stat =
     (let params = (if caller \<noteq> [] then [''caller_id='' @ caller] else [])
                 @ (if stat \<noteq> [] then [''status='' @ stat] else [])
      in baseURL c @ ''/jobs'' @ (if params \<noteq> [] then ''?'' @ strings_Join params ''&'' else []))"

definition ListJobs :: "(string \<Rightarrow> bool) \<Rightarrow> (string \<Rightarrow> 'a client_reply option) \<Rightarrow> Client \<Rightarrow> string \<Rightarrow> string \<Rightarrow>
    client_error + 'a" where
  "ListJobs url_ok send c caller stat =
     (let url = list_url c caller stat in
      if \<not> url_ok url then Inl BuildFailed
      else case send url of None \<Rightarrow> Inl Unreachable
      | Some resp \<Rightarrow>
          if cr_status resp \<noteq> 200 then Inl (HTTPStatus (cr_status resp) (strings_TrimSpace (cr_body resp)))
          else (case cr_decoded resp of None \<Rightarrow> Inl DecodeResponse | Some r \<Rightarrow> Inr r))"

definition GetJob :: "(string \<Rightarrow> bool) \<Rightarrow> (string \<Rightarrow> 'a client_reply option) \<Rightarrow> Client \<Rightarrow> string \<Rightarrow> client_error + 'a" where
  "GetJob url_ok send c ident =
     (let url = baseURL c @ ''/jobs/'' @ ident in
      if \<not> url_ok url then Inl BuildFailed
      else case send url of None \<Rightarrow> Inl Unreachable
      | Some resp \<Rightarrow>
          if cr_status resp = 404 then Inl (JobNotFound ident)
          else if cr_status resp \<noteq> 200 then Inl (HTTPStatus (cr_status resp) (strings_TrimSpace (cr_body resp)))
          else (case cr_decoded resp of None \<Rightarrow> Inl DecodeResponse | Some r \<Rightarrow> Inr r))"

definition KillJob :: "(string \<Rightarrow> bool) \<Rightarrow> (string \<Rightarrow> 'a client_reply option) \<Rightarrow> Client \<Rightarrow> string \<Rightarrow> client_error + 'a" where
  "KillJob url_ok send c ident =
     (let url = baseURL c @ ''/jobs/'' @ ident in
      if \<not> url_ok url then Inl BuildFailed
      else case send url of None \<Rightarrow> Inl Unreachable
      | Some resp \<Rightarrow>
          if cr_status resp = 404 then Inl (JobNotFound ident)
          else if cr_status resp = 409 then Inl (JobAlreadyCompleted ident)
          else if cr_status resp \<noteq> 200 then Inl (HTTPStatus (cr_status resp) (strings_TrimSpace (cr_body resp)))
          else (case cr_decoded resp of None \<Rightarrow> Inl DecodeResponse | Some r \<Rightarrow> Inr r))"

section \<open>The daemon's reading of the query\<close>

text \<open>
  \<open>r.URL.Query().Get\<close>: the query runs from the first \<open>?\<close> to the fragment, its pairs are
  separated by \<open>&\<close>, a pair with \<open>;\<close> is dropped, \<open>+\<close> is a space and \<open>%XY\<close> a byte; a pair that
  does not unescape is dropped, and the first pair of a name counts.
\<close>

fun unescape :: "string \<Rightarrow> string option" where
  "unescape [] = Some []"
| "unescape (c # s) =
     (if c = CHR ''%'' then
        (case s of a # b # rest \<Rightarrow>
           if is_hex a \<and> is_hex b
           then map_option (\<lambda>t. char_of (16 * hex_val a + hex_val b) # t) (unescape rest)
           else None
         | _ \<Rightarrow> None)
      else map_option (\<lambda>t. (if c = CHR ''+'' then CHR '' '' else c) # t) (unescape s))"

definition raw_query :: "string \<Rightarrow> string" where
  "raw_query url = drop 1 (dropWhile (\<lambda>c. c \<noteq> CHR ''?'') (takeWhile (\<lambda>c. c \<noteq> CHR ''#'') url))"

definition parse_pair :: "string \<Rightarrow> (string \<times> string) option" where
  "parse_pair p =
     (if p = [] \<or> CHR '';'' \<in> set p then None
      else case (unescape (takeWhile (\<lambda>c. c \<noteq> CHR ''='') p),
                 unescape (drop 1 (dropWhile (\<lambda>c. c \<noteq> CHR ''='') p))) of
             (Some k, Some v) \<Rightarrow> Some (k, v) | _ \<Rightarrow> None)"

definition url_query_get :: "string \<Rightarrow> string \<Rightarrow> string" where
  "url_query_get url key =
     (case map_of (List.map_filter parse_pair (strings_Split (CHR ''&'') (raw_query url))) key of
        None \<Rightarrow> [] | Some v \<Rightarrow> v)"

text \<open>Characters that stand for themselves in a query.\<close>

definition plain_char :: "char \<Rightarrow> bool" where
  "plain_char c \<longleftrightarrow> c \<notin> set ''%+&;#?=''"

lemma unescape_plain: "\<forall>c \<in> set s. plain_char c \<Longrightarrow> unescape s = Some s"
  by (induction s) (auto simp: plain_char_def)

lemma unescape_names: "unescape ''caller_id'' = Some ''caller_id''" "unescape ''status'' = Some ''status''"
  by (rule unescape_plain; simp add: plain_char_def)+

lemma parse_pair_plain:
  assumes "\<forall>c \<in> set v. plain_char c" "\<forall>c \<in> set k. plain_char c" "k \<noteq> []"
  shows "parse_pair (k @ CHR ''='' # v) = Some (k, v)"
proof -
  have "takeWhile (\<lambda>c. c \<noteq> CHR ''='') (k @ CHR ''='' # v) = k"
    by (rule takeWhile_append_stop) (use assms in \<open>auto simp: plain_char_def\<close>)
  moreover have "dropWhile (\<lambda>c. c \<noteq> CHR ''='') (k @ CHR ''='' # v) = CHR ''='' # v"
    by (rule dropWhile_append_stop) (use assms in \<open>auto simp: plain_char_def\<close>)
  moreover have "CHR '';'' \<notin> set (k @ CHR ''='' # v)" using assms by (auto simp: plain_char_def)
  ultimately show ?thesis
    using unescape_plain [OF assms(1)] unescape_plain [OF assms(2)] by (simp add: parse_pair_def)
qed

lemma raw_query_append:
  assumes "CHR ''?'' \<notin> set u" "CHR ''#'' \<notin> set (u @ q)"
  shows "raw_query (u @ CHR ''?'' # q) = q" "raw_query u = []"
proof -
  have "takeWhile (\<lambda>c. c \<noteq> CHR ''#'') (u @ CHR ''?'' # q) = u @ CHR ''?'' # q"
    "takeWhile (\<lambda>c. c \<noteq> CHR ''#'') u = u"
    using assms by (auto simp: takeWhile_eq_all_conv)
  moreover have "dropWhile (\<lambda>c. c \<noteq> CHR ''?'') (u @ CHR ''?'' # q) = CHR ''?'' # q"
    by (rule dropWhile_append_stop) (use assms in auto)
  moreover have "dropWhile (\<lambda>c. c \<noteq> CHR ''?'') u = []" using assms by (auto simp: dropWhile_eq_Nil_conv)
  ultimately have "raw_query (u @ CHR ''?'' # q) = drop 1 (CHR ''?'' # q)" "raw_query u = drop 1 []"
    by (simp_all only: raw_query_def)
  then show "raw_query (u @ CHR ''?'' # q) = q" "raw_query u = []" by simp_all
qed

definition plain_text :: "string \<Rightarrow> bool" where
  "plain_text s \<longleftrightarrow> list_all plain_char s"

definition query_params :: "string \<Rightarrow> string \<Rightarrow> (string \<times> string) list" where
  "query_params caller stat =
     (if caller \<noteq> [] then [(''caller_id'', caller)] else []) @ (if stat \<noteq> [] then [(''status'', stat)] else [])"

lemma list_url_params:
  "list_url c caller stat =
     (let ps = map (\<lambda>(k, v). k @ CHR ''='' # v) (query_params caller stat) in
      baseURL c @ ''/jobs'' @ (if ps \<noteq> [] then ''?'' @ strings_Join ps ''&'' else []))"
  by (simp add: list_url_def query_params_def Let_def)

lemma query_params_plain:
  assumes "plain_text caller" "plain_text stat" "(k, v) \<in> set (query_params caller stat)"
  shows "(\<forall>c \<in> set v. plain_char c) \<and> (\<forall>c \<in> set k. plain_char c) \<and> k \<noteq> []"
proof -
  have names: "\<forall>c \<in> set ''caller_id''. plain_char c" "\<forall>c \<in> set ''status''. plain_char c"
    by (simp_all add: plain_char_def)
  have "k = ''caller_id'' \<and> v = caller \<or> k = ''status'' \<and> v = stat"
    using assms(3) unfolding query_params_def by (cases "caller = []"; cases "stat = []") auto
  moreover have "\<forall>c \<in> set caller. plain_char c" "\<forall>c \<in> set stat. plain_char c"
    using assms(1,2) by (simp_all add: plain_text_def list_all_iff)
  ultimately show ?thesis using names by blast
qed

lemma set_Join_amp: "x \<in> set (strings_Join ts ''&'') \<Longrightarrow> x = CHR ''&'' \<or> (\<exists>t \<in> set ts. x \<in> set t)"
  by (induction ts "''&''" rule: strings_Join.induct) auto

lemma list_url_query:
  assumes "plain_text caller" "plain_text stat" "CHR ''?'' \<notin> set (baseURL c)" "CHR ''#'' \<notin> set (baseURL c)"
  shows "url_query_get (list_url c caller stat) key =
    (case map_of (query_params caller stat) key of None \<Rightarrow> [] | Some v \<Rightarrow> v)"
proof -
  let ?ps = "query_params caller stat"
  let ?ts = "map (\<lambda>(k, v). k @ CHR ''='' # v) ?ps"
  let ?u = "baseURL c @ ''/jobs''"
  have plain: "x \<notin> set t" if "t \<in> set ?ts" "x \<in> set ''%+&;#?''" for t x
  proof -
    from that(1) obtain k v where kv: "(k, v) \<in> set ?ps" "t = k @ CHR ''='' # v" by auto
    with query_params_plain [OF assms(1,2) kv(1)] that(2) show ?thesis by (auto simp: plain_char_def)
  qed
  have parse: "List.map_filter parse_pair ?ts = ?ps"
  proof -
    have "parse_pair (k @ CHR ''='' # v) = Some (k, v)" if "(k, v) \<in> set ?ps" for k v
      using query_params_plain [OF assms(1,2) that] parse_pair_plain by blast
    then have "List.map_filter parse_pair (map (\<lambda>(k, v). k @ CHR ''='' # v) ps) = ps" if "set ps \<subseteq> set ?ps" for ps
      using that by (induction ps) (auto simp: List.map_filter_simps)
    then show ?thesis by blast
  qed
  show ?thesis
  proof (cases "?ps = []")
    case True
    have "raw_query ?u = []" by (rule raw_query_append(2) [of _ "[]"]) (use assms in auto)
    then show ?thesis
      using True by (simp add: list_url_params url_query_get_def Let_def parse_pair_def List.map_filter_simps)
  next
    case False
    have no_hash: "CHR ''#'' \<notin> set (strings_Join ?ts ''&'')"
    proof
      assume "CHR ''#'' \<in> set (strings_Join ?ts ''&'')"
      moreover have "CHR ''#'' \<noteq> CHR ''&''" by simp
      ultimately obtain t where "t \<in> set ?ts" "CHR ''#'' \<in> set t" using set_Join_amp by metis
      with plain [of t "CHR ''#''"] show False by simp
    qed
    have url: "list_url c caller stat = ?u @ CHR ''?'' # strings_Join ?ts ''&''"
      using False by (simp add: list_url_params Let_def)
    have "raw_query (list_url c caller stat) = strings_Join ?ts ''&''"
      unfolding url by (rule raw_query_append(1)) (use assms no_hash in auto)
    moreover have "strings_Split (CHR ''&'') (strings_Join ?ts [CHR ''&'']) = ?ts"
      by (rule Split_Join) (use False plain in auto)
    ultimately show ?thesis by (simp only: url_query_get_def parse)
  qed
qed

end
