(* ===== verification/Wire.thy ===== *)
theory Wire
  imports Client JsonDecode
begin

text \<open>
  The JSON bodies of the daemon's interface: the struct tags of \<open>internal/daemon/handler.go\<close>,
  \<open>internal/daemon/jobs.go\<close> and \<open>client/client.go\<close>, with what \<open>encoding/json\<close> documents of
  them. The encoders give the fields in the order of the struct and drop the \<open>omitempty\<close> ones
  that are zero; the decoders are those of \<open>JsonDecode\<close>, and between them lies the text, which
  \<open>Json\<close> writes and reads. The lemmas are the round trips between client and daemon, through the
  text, and the type invariant of a decoded request.
\<close>

section \<open>The daemon's side of a run\<close>

definition path_fields :: "string list" where
  "path_fields = [''path'', ''read_only'', ''metadata_only'']"

definition set_path_field :: "string \<Rightarrow> json \<Rightarrow> AllowedPath \<Rightarrow> AllowedPath option" where
  "set_path_field n v a =
     (if n = ''path'' then map_option (\<lambda>s. a\<lparr>ap_Path := s\<rparr>) (decode_string v (ap_Path a))
      else if n = ''read_only'' then map_option (\<lambda>b. a\<lparr>ap_ReadOnly := b\<rparr>) (decode_bool v (ap_ReadOnly a))
      else if n = ''metadata_only'' then map_option (\<lambda>b. a\<lparr>ap_MetadataOnly := b\<rparr>) (decode_bool v (ap_MetadataOnly a))
      else None)"

definition zero_AllowedPath :: AllowedPath where
  "zero_AllowedPath = \<lparr>ap_Path = [], ap_ReadOnly = False, ap_MetadataOnly = False\<rparr>"

definition decode_AllowedPath :: "json \<Rightarrow> AllowedPath option" where
  "decode_AllowedPath = decode_struct path_fields set_path_field zero_AllowedPath"

definition request_fields :: "string list" where
  "request_fields = [''command'', ''env'', ''allowed_paths'', ''network'', ''timeout'', ''caller_id'', ''auth_token'']"

definition set_request_field :: "string \<Rightarrow> json \<Rightarrow> RunRequest \<Rightarrow> RunRequest option" where
  "set_request_field n v r =
     (if n = ''command'' then map_option (\<lambda>s. r\<lparr>req_Command := s\<rparr>) (decode_string v (req_Command r))
      else if n = ''env'' then map_option (\<lambda>m. r\<lparr>req_Env := m\<rparr>) (decode_map v (req_Env r))
      else if n = ''allowed_paths'' then map_option (\<lambda>a. r\<lparr>req_AllowedPaths := a\<rparr>) (decode_slice decode_AllowedPath v)
      else if n = ''network'' then map_option (\<lambda>b. r\<lparr>req_Network := b\<rparr>) (decode_pbool v)
      else if n = ''timeout'' then map_option (\<lambda>i. r\<lparr>req_Timeout := word_of_int i\<rparr>) (decode_int v (sint (req_Timeout r)))
      else if n = ''caller_id'' then map_option (\<lambda>s. r\<lparr>req_CallerID := s\<rparr>) (decode_string v (req_CallerID r))
      else if n = ''auth_token'' then map_option (\<lambda>s. r\<lparr>req_AuthToken := s\<rparr>) (decode_string v (req_AuthToken r))
      else None)"

definition zero_RunRequest :: RunRequest where
  "zero_RunRequest = \<lparr>req_Command = [], req_Env = [], req_AllowedPaths = [], req_Network = None,
     req_Timeout = 0, req_CallerID = [], req_AuthToken = []\<rparr>"

definition decode_RunRequest :: "json \<Rightarrow> RunRequest option" where
  "decode_RunRequest = decode_struct request_fields set_request_field zero_RunRequest"

definition encode_RunResponse :: "RunResponse \<Rightarrow> json" where
  "encode_RunResponse r = JObj
     ([(''stdout'', JStr (rsp_Stdout r)), (''stderr'', JStr (rsp_Stderr r)), (''exit_code'', JInt (rsp_ExitCode r))]
      @ omit (rsp_StrippedEnvKeys r = []) ''stripped_env_keys'' (JArr (map JStr (rsp_StrippedEnvKeys r)))
      @ omit (rsp_JobID r = []) ''job_id'' (JStr (rsp_JobID r))
      @ omit (rsp_Status r = []) ''status'' (JStr (rsp_Status r)))"

definition encode_HealthResponse :: "HealthResponse \<Rightarrow> json" where
  "encode_HealthResponse h = JObj [(''ok'', JBool (health_OK h)), (''platform'', JStr (health_Platform h)),
     (''version'', JStr (health_Version h))]"

text \<open>\<open>rfc3339\<close> is the rendering of a time; the zero time is the empty string here.\<close>

definition encode_JobInfo :: "(gotime \<Rightarrow> string) \<Rightarrow> JobInfo \<Rightarrow> json" where
  "encode_JobInfo rfc3339 i = JObj
     ([(''id'', JStr (info_ID i))]
      @ omit (info_CallerID i = []) ''caller_id'' (JStr (info_CallerID i))
      @ [(''command'', JStr (info_Command i)), (''status'', JStr (info_Status i))]
      @ omit (info_ExitCode i = 0) ''exit_code'' (JInt (info_ExitCode i))
      @ omit (info_Stdout i = []) ''stdout'' (JStr (info_Stdout i))
      @ omit (info_Stderr i = []) ''stderr'' (JStr (info_Stderr i))
      @ [(''started_at'', JStr (rfc3339 (info_StartedAt i)))]
      @ (case info_CompletedAt i of None \<Rightarrow> []
         | Some t \<Rightarrow> omit (rfc3339 t = []) ''completed_at'' (JStr (rfc3339 t))))"

section \<open>The client's side\<close>

definition encode_client_path :: "client_AllowedPath \<Rightarrow> json" where
  "encode_client_path a = JObj [(''path'', JStr (cap_Path a)), (''read_only'', JBool (cap_ReadOnly a))]"

text \<open>A map is written with its keys in order.\<close>

definition encode_client_RunRequest :: "client_RunRequest \<Rightarrow> json" where
  "encode_client_RunRequest r = JObj
     ([(''command'', JStr (creq_Command r))]
      @ omit (creq_Env r = []) ''env'' (JObj (map (\<lambda>(k, v). (k, JStr v)) (sort_key fst (creq_Env r))))
      @ omit (creq_AllowedPaths r = []) ''allowed_paths'' (JArr (map encode_client_path (creq_AllowedPaths r)))
      @ (case creq_Network r of None \<Rightarrow> [] | Some b \<Rightarrow> [(''network'', JBool b)])
      @ omit (creq_Timeout r = 0) ''timeout'' (JInt (sint (creq_Timeout r)))
      @ omit (creq_CallerID r = []) ''caller_id'' (JStr (creq_CallerID r))
      @ omit (creq_AuthToken r = []) ''auth_token'' (JStr (creq_AuthToken r)))"

definition response_fields :: "string list" where
  "response_fields = [''stdout'', ''stderr'', ''exit_code'', ''stripped_env_keys'', ''job_id'', ''status'']"

definition set_response_field :: "string \<Rightarrow> json \<Rightarrow> RunResponse \<Rightarrow> RunResponse option" where
  "set_response_field n v r =
     (if n = ''stdout'' then map_option (\<lambda>s. r\<lparr>rsp_Stdout := s\<rparr>) (decode_string v (rsp_Stdout r))
      else if n = ''stderr'' then map_option (\<lambda>s. r\<lparr>rsp_Stderr := s\<rparr>) (decode_string v (rsp_Stderr r))
      else if n = ''exit_code'' then map_option (\<lambda>i. r\<lparr>rsp_ExitCode := i\<rparr>) (decode_int v (rsp_ExitCode r))
      else if n = ''stripped_env_keys'' then
        map_option (\<lambda>a. r\<lparr>rsp_StrippedEnvKeys := a\<rparr>) (decode_slice (\<lambda>j. decode_string j []) v)
      else if n = ''job_id'' then map_option (\<lambda>s. r\<lparr>rsp_JobID := s\<rparr>) (decode_string v (rsp_JobID r))
      else if n = ''status'' then map_option (\<lambda>s. r\<lparr>rsp_Status := s\<rparr>) (decode_string v (rsp_Status r))
      else None)"

definition decode_RunResponse :: "json \<Rightarrow> RunResponse option" where
  "decode_RunResponse = decode_struct response_fields set_response_field
     \<lparr>rsp_Stdout = [], rsp_Stderr = [], rsp_ExitCode = 0, rsp_StrippedEnvKeys = [], rsp_JobID = [], rsp_Status = []\<rparr>"

definition job_fields :: "string list" where
  "job_fields = [''id'', ''caller_id'', ''command'', ''status'', ''exit_code'', ''stdout'', ''stderr'',
     ''started_at'', ''completed_at'']"

definition set_job_field :: "string \<Rightarrow> json \<Rightarrow> client_JobInfo \<Rightarrow> client_JobInfo option" where
  "set_job_field n v i =
     (if n = ''id'' then map_option (\<lambda>s. i\<lparr>cji_ID := s\<rparr>) (decode_string v (cji_ID i))
      else if n = ''caller_id'' then map_option (\<lambda>s. i\<lparr>cji_CallerID := s\<rparr>) (decode_string v (cji_CallerID i))
      else if n = ''command'' then map_option (\<lambda>s. i\<lparr>cji_Command := s\<rparr>) (decode_string v (cji_Command i))
      else if n = ''status'' then map_option (\<lambda>s. i\<lparr>cji_Status := s\<rparr>) (decode_string v (cji_Status i))
      else if n = ''exit_code'' then map_option (\<lambda>e. i\<lparr>cji_ExitCode := e\<rparr>) (decode_int v (cji_ExitCode i))
      else if n = ''stdout'' then map_option (\<lambda>s. i\<lparr>cji_Stdout := s\<rparr>) (decode_string v (cji_Stdout i))
      else if n = ''stderr'' then map_option (\<lambda>s. i\<lparr>cji_Stderr := s\<rparr>) (decode_string v (cji_Stderr i))
      else if n = ''started_at'' then map_option (\<lambda>s. i\<lparr>cji_StartedAt := s\<rparr>) (decode_string v (cji_StartedAt i))
      else if n = ''completed_at'' then map_option (\<lambda>s. i\<lparr>cji_CompletedAt := s\<rparr>) (decode_string v (cji_CompletedAt i))
      else None)"

definition decode_JobInfo :: "json \<Rightarrow> client_JobInfo option" where
  "decode_JobInfo = decode_struct job_fields set_job_field
     \<lparr>cji_ID = [], cji_CallerID = [], cji_Command = [], cji_Status = [], cji_ExitCode = 0, cji_Stdout = [],
      cji_Stderr = [], cji_StartedAt = [], cji_CompletedAt = []\<rparr>"

definition decode_JobInfos :: "json \<Rightarrow> client_JobInfo list option" where
  "decode_JobInfos = decode_slice decode_JobInfo"

section \<open>Round trips\<close>

definition response_seen :: "RunResponse \<Rightarrow> RunResponse" where
  "response_seen r = r\<lparr>rsp_Stdout := utf8_coerce (rsp_Stdout r), rsp_Stderr := utf8_coerce (rsp_Stderr r),
     rsp_StrippedEnvKeys := map utf8_coerce (rsp_StrippedEnvKeys r), rsp_JobID := utf8_coerce (rsp_JobID r),
     rsp_Status := utf8_coerce (rsp_Status r)\<rparr>"

interpretation response_codec: json_codec encode_RunResponse decode_RunResponse response_seen
  "\<lambda>r. int_range (rsp_ExitCode r)"
proof
  fix r :: RunResponse
  assume "int_range (rsp_ExitCode r)"
  then show "decode_RunResponse (json_coerce (encode_RunResponse r)) = Some (response_seen r)"
    by (cases r) (simp add: decode_RunResponse_def encode_RunResponse_def response_seen_def response_fields_def
      set_response_field_def omit_def coerce_ascii string_codec.decode_list_encode list_all_iff coerce_Nil)
qed (simp add: encode_RunResponse_def omit_def)

definition job_seen :: "(gotime \<Rightarrow> string) \<Rightarrow> JobInfo \<Rightarrow> client_JobInfo" where
  "job_seen rfc3339 i =
     \<lparr>cji_ID = utf8_coerce (info_ID i), cji_CallerID = utf8_coerce (info_CallerID i),
      cji_Command = utf8_coerce (info_Command i), cji_Status = utf8_coerce (info_Status i),
      cji_ExitCode = info_ExitCode i, cji_Stdout = utf8_coerce (info_Stdout i),
      cji_Stderr = utf8_coerce (info_Stderr i), cji_StartedAt = utf8_coerce (rfc3339 (info_StartedAt i)),
      cji_CompletedAt = (case info_CompletedAt i of None \<Rightarrow> [] | Some t \<Rightarrow> utf8_coerce (rfc3339 t))\<rparr>"

interpretation job_codec: json_codec "encode_JobInfo rfc3339" decode_JobInfo "job_seen rfc3339"
  "\<lambda>i. int_range (info_ExitCode i)" for rfc3339
proof
  fix i :: JobInfo
  assume "int_range (info_ExitCode i)"
  then show "decode_JobInfo (json_coerce (encode_JobInfo rfc3339 i)) = Some (job_seen rfc3339 i)"
    by (cases i; cases "info_CompletedAt i") (simp_all add: decode_JobInfo_def encode_JobInfo_def job_seen_def
      job_fields_def set_job_field_def omit_def coerce_ascii coerce_Nil)
next
  fix i :: JobInfo
  show "json_fits 8 (encode_JobInfo rfc3339 i)"
    by (cases "info_CompletedAt i") (auto simp: encode_JobInfo_def omit_def)
qed

section \<open>Requests\<close>

definition request_seen :: "client_RunRequest \<Rightarrow> RunRequest" where
  "request_seen r =
     \<lparr>req_Command = utf8_coerce (creq_Command r),
      req_Env = map (\<lambda>(k, v). (k, utf8_coerce v)) (sort_key fst (creq_Env r)),
      req_AllowedPaths = map (\<lambda>a. \<lparr>ap_Path = utf8_coerce (cap_Path a), ap_ReadOnly = cap_ReadOnly a,
                                   ap_MetadataOnly = False\<rparr>) (creq_AllowedPaths r),
      req_Network = creq_Network r, req_Timeout = creq_Timeout r,
      req_CallerID = utf8_coerce (creq_CallerID r), req_AuthToken = utf8_coerce (creq_AuthToken r)\<rparr>"

lemma decode_entries_fresh:
  assumes "distinct (map fst kvs)" "\<forall>kv \<in> set kvs. valid_utf8 (fst kv)" "fst ` set m \<inter> fst ` set kvs = {}"
  shows "decode_entries (map (\<lambda>(k, v). (utf8_coerce k, JStr (utf8_coerce v))) kvs) m = Some (m @ map (\<lambda>(k, v). (k, utf8_coerce v)) kvs)"
  using assms
proof (induction kvs arbitrary: m)
  case (Cons kv kvs)
  obtain k v where kv: "kv = (k, v)" by (cases kv)
  have "AList.update k (utf8_coerce v) m = m @ [(k, utf8_coerce v)]"
    using Cons.prems(3) kv by (intro update_fresh) auto
  moreover have "fst ` set (m @ [(k, utf8_coerce v)]) \<inter> fst ` set kvs = {}"
    using Cons.prems kv by auto
  ultimately show ?case
    using Cons.IH [of "m @ [(k, utf8_coerce v)]"] Cons.prems kv by (simp add: coerce_valid)
qed simp

definition path_seen :: "client_AllowedPath \<Rightarrow> AllowedPath" where
  "path_seen a = \<lparr>ap_Path = utf8_coerce (cap_Path a), ap_ReadOnly = cap_ReadOnly a, ap_MetadataOnly = False\<rparr>"

interpretation path_codec: json_codec encode_client_path decode_AllowedPath path_seen "\<lambda>a. True"
  by unfold_locales (simp_all add: decode_AllowedPath_def encode_client_path_def path_fields_def set_path_field_def
      zero_AllowedPath_def path_seen_def coerce_ascii)

lemma int_range_sint: "int_range (sint (w :: go_int))"
  using sint_range_size [of w] by (simp add: int_range_def word_size)

lemma decode_env:
  assumes "gomap_ok (creq_Env r)" "\<forall>kv \<in> set (creq_Env r). valid_utf8 (fst kv)"
  shows "decode_entries (map (\<lambda>(k, v). (utf8_coerce k, JStr (utf8_coerce v))) (sort_key fst (creq_Env r))) []
    = Some (map (\<lambda>(k, v). (k, utf8_coerce v)) (sort_key fst (creq_Env r)))"
proof -
  have "distinct (map fst (sort_key fst (creq_Env r)))"
    using assms(1) by (metis distinct_map distinct_sort gomap_ok_def set_sort)
  with decode_entries_fresh [of "sort_key fst (creq_Env r)" "[]"] assms(2) show ?thesis by simp
qed

lemma sort_key_Nil_iff: "sort_key f xs = [] \<longleftrightarrow> xs = []"
  by (metis length_0_conv length_sort)

definition request_fit :: "client_RunRequest \<Rightarrow> bool" where
  "request_fit r \<longleftrightarrow> gomap_ok (creq_Env r) \<and> list_all (\<lambda>kv. valid_utf8 (fst kv)) (creq_Env r)"

lemma client_paths_seen:
  "decode_list decode_AllowedPath (map (json_coerce \<circ> encode_client_path) as)
   = Some (map (\<lambda>a. \<lparr>ap_Path = utf8_coerce (cap_Path a), ap_ReadOnly = cap_ReadOnly a, ap_MetadataOnly = False\<rparr>) as)"
  using path_codec.decode_list_encode [of as] by (simp add: list_all_iff path_seen_def)

lemma coerce_entry:
  "(\<lambda>kv. (utf8_coerce (fst kv), json_coerce (snd kv))) \<circ> (\<lambda>(k, v). (k, JStr v)) = (\<lambda>(k, v). (utf8_coerce k, JStr (utf8_coerce v)))"
  by auto

interpretation request_codec: json_codec encode_client_RunRequest decode_RunRequest request_seen request_fit
proof
  fix r
  assume "request_fit r"
  then show "decode_RunRequest (json_coerce (encode_client_RunRequest r)) = Some (request_seen r)"
    using decode_env [of r]
    by (cases r; cases "creq_Network r")
      (simp_all add: decode_RunRequest_def encode_client_RunRequest_def request_seen_def request_fields_def
        request_fit_def list_all_iff set_request_field_def zero_RunRequest_def omit_def client_paths_seen
        int_range_sint coerce_Nil coerce_ascii coerce_entry)
qed (auto simp: encode_client_RunRequest_def encode_client_path_def omit_def split: option.split)

text \<open>
  C28. What the client sends is what the daemon works on: for every request whose environment
  names are text, the bytes that the client posts are read, by the scanner of JSON and under the
  daemon's own struct tags, as the client's request field for field, with the omitted fields
  zero, the strings as valid UTF-8, the environment in the order of its names, and no path
  metadata-only.
\<close>

theorem request_roundtrip:
  assumes "gomap_ok (creq_Env r)" and "\<forall>kv \<in> set (creq_Env r). valid_utf8 (fst kv)"
  shows "decode_text decode_RunRequest (json_text (encode_client_RunRequest r)) = Some (request_seen r)"
  by (rule request_codec.decode_marshal) (use assms in \<open>simp add: request_fit_def list_all_iff\<close>)

lemma request_roundtrip_witness:
  "\<exists>r. decode_text decode_RunRequest (json_text (encode_client_RunRequest
       \<lparr>creq_Command = ''ls'', creq_Env = [(''B'', ''1''), (''A'', ''2'')],
        creq_AllowedPaths = [\<lparr>cap_Path = ''/w'', cap_ReadOnly = True\<rparr>], creq_Network = Some False, creq_Timeout = 5,
        creq_CallerID = ''me'', creq_AuthToken = []\<rparr>)) = Some r \<and> req_Network r = Some False"
proof -
  have "valid_utf8 ''A''" "valid_utf8 ''B''" by (rule ascii_valid; simp)+
  with request_roundtrip [of "\<lparr>creq_Command = ''ls'', creq_Env = [(''B'', ''1''), (''A'', ''2'')],
       creq_AllowedPaths = [\<lparr>cap_Path = ''/w'', cap_ReadOnly = True\<rparr>], creq_Network = Some False, creq_Timeout = 5,
       creq_CallerID = ''me'', creq_AuthToken = []\<rparr>"]
  show ?thesis by (simp add: gomap_ok_def request_seen_def)
qed

section \<open>Type of a decoded request\<close>

definition env_typed :: "(string, string) gomap \<Rightarrow> bool" where
  "env_typed m \<longleftrightarrow> gomap_ok m \<and> list_all (\<lambda>kv. valid_utf8 (fst kv) \<and> valid_utf8 (snd kv)) m"

definition request_typed :: "RunRequest \<Rightarrow> bool" where
  "request_typed r \<longleftrightarrow> valid_utf8 (req_Command r) \<and> env_typed (req_Env r)
     \<and> list_all (\<lambda>a. valid_utf8 (ap_Path a)) (req_AllowedPaths r)
     \<and> valid_utf8 (req_CallerID r) \<and> valid_utf8 (req_AuthToken r)"

lemma env_typed_update:
  "env_typed m \<Longrightarrow> valid_utf8 k \<Longrightarrow> valid_utf8 v \<Longrightarrow> env_typed (AList.update k v m)"
proof -
  have "list_all P m \<Longrightarrow> P (k, v) \<Longrightarrow> list_all P (AList.update k v m)" for P :: "string \<times> string \<Rightarrow> bool"
    by (induction m) auto
  then show "env_typed m \<Longrightarrow> valid_utf8 k \<Longrightarrow> valid_utf8 v \<Longrightarrow> env_typed (AList.update k v m)"
    by (simp add: env_typed_def gomap_ok_update)
qed

lemma decode_map_typed:
  assumes "decode_map j m = Some m'" "env_typed m" "json_valid j"
  shows "env_typed m'"
proof (cases "(j, m)" rule: decode_map.cases)
  case (2 kvs m0)
  have "env_typed m'" if "decode_entries kvs m = Some m'" "env_typed m"
      "\<forall>kv \<in> set kvs. valid_utf8 (fst kv) \<and> json_valid (snd kv)" for kvs :: members and m m'
    using that
  proof (induction kvs m rule: decode_entries.induct)
    case (2 k v kvs m)
    then obtain s where s: "decode_string v [] = Some s" by (auto split: option.splits)
    have "env_typed (AList.update k s m)"
      using 2 s decode_string_typed [OF s] by (intro env_typed_update) auto
    with 2 s show ?case by auto
  qed auto
  with 2 assms show ?thesis by auto
qed (use assms in \<open>auto simp: env_typed_def gomap_ok_def\<close>)

lemma decode_AllowedPath_typed: "decode_AllowedPath j = Some a \<Longrightarrow> json_valid j \<Longrightarrow> valid_utf8 (ap_Path a)"
  unfolding decode_AllowedPath_def
proof (erule decode_struct_inv)
  fix n v r r'
  assume "valid_utf8 (ap_Path r)" "json_valid v" "set_path_field n v r = Some r'"
  then show "valid_utf8 (ap_Path r')"
    using decode_string_typed [of v "ap_Path r"] by (auto simp: set_path_field_def split: if_splits)
qed (simp_all add: zero_AllowedPath_def)

lemma decode_RunRequest_typed:
  assumes "json_valid j" and "decode_RunRequest j = Some r"
  shows "request_typed r"
  using assms(2) unfolding decode_RunRequest_def
proof (rule decode_struct_inv)
  show "request_typed zero_RunRequest"
    by (simp add: request_typed_def zero_RunRequest_def env_typed_def gomap_ok_def)
  fix n v r r'
  assume r: "request_typed r" "json_valid v" "set_request_field n v r = Some r'"
  then show "request_typed r'"
    using decode_string_typed [of v _ _] decode_map_typed [of v "req_Env r"]
      decode_slice_typed [of decode_AllowedPath v _ "\<lambda>a. valid_utf8 (ap_Path a)"] decode_AllowedPath_typed
    by (auto simp: request_typed_def set_request_field_def split: if_splits)
qed (rule assms(1))

end
