(* ===== verification/Http.thy ===== *)
theory Http
  imports Wire
begin

text \<open>
  The daemon's HTTP surface: the router and \<open>writeJSON\<close> of \<open>internal/daemon/socket.go\<close> around
  the handlers of \<open>Handler\<close>, with the bodies of \<open>Wire\<close>, and the client's calls through it. The
  router library is a parameter with its documented matching. The theorems are end to end: what
  a call of the client returns, in terms of the daemon's job store and of its run function.
\<close>

section \<open>Responses on the wire\<close>

record wire_response =
  wr_status :: nat
  wr_type :: string
  wr_body :: string

definition writeJSON :: "nat \<Rightarrow> json \<Rightarrow> wire_response" where
  "writeJSON code v = \<lparr>wr_status = code, wr_type = ''application/json'', wr_body = json_text v @ nl\<rparr>"

text \<open>\<open>http.Error\<close>: plain text with a newline.\<close>

definition http_Error :: "nat \<Rightarrow> string \<Rightarrow> wire_response" where
  "http_Error code msg =
     \<lparr>wr_status = code, wr_type = ''text/plain; charset=utf-8'', wr_body = msg @ nl\<rparr>"

definition error_json :: "string \<Rightarrow> json" where
  "error_json msg = JObj [(''error'', JStr msg)]"

definition respond :: "('a \<Rightarrow> json) \<Rightarrow> 'a http_response \<Rightarrow> wire_response" where
  "respond enc resp = (case http_body resp of
     PlainError msg \<Rightarrow> http_Error (http_status resp) msg
   | JsonError msg \<Rightarrow> writeJSON (http_status resp) (error_json msg)
   | Json v \<Rightarrow> writeJSON (http_status resp) (enc v))"

section \<open>The router\<close>

datatype route = R_run | R_health | R_job_list | R_job_get | R_job_kill

definition newRouter :: "bool \<Rightarrow> (string \<times> string \<times> route) list" where
  "newRouter have_jobs =
     [(''POST'', ''/run'', R_run), (''GET'', ''/health'', R_health)]
     @ (if have_jobs then
          [(''GET'', ''/jobs'', R_job_list), (''GET'', ''/jobs/{id}'', R_job_get),
           (''DELETE'', ''/jobs/{id}'', R_job_kill)]
        else [])"

text \<open>
  chi's matching of a pattern against a path, a parameter: the value of the placeholder, the
  empty string where there is none. As documented, a pattern without placeholders matches
  itself, and \<open>{id}\<close> matches a path segment.
\<close>

type_synonym chi_matcher = "string \<Rightarrow> string \<Rightarrow> string option"

definition chi_documented :: "chi_matcher \<Rightarrow> bool" where
  "chi_documented M \<longleftrightarrow>
     (\<forall>pat p. CHR 0x7B \<notin> set pat \<longrightarrow> M pat p = (if p = pat then Some [] else None))
   \<and> (\<forall>i. i \<noteq> [] \<and> slash \<notin> set i \<longrightarrow> M ''/jobs/{id}'' (''/jobs/'' @ i) = Some i)
   \<and> (\<forall>p i. M ''/jobs/{id}'' p = Some i \<longrightarrow> p = ''/jobs/'' @ i \<and> slash \<notin> set i)"

definition sample_chi :: chi_matcher where
  "sample_chi pat p =
     (if pat = ''/jobs/{id}'' then
        (let i = strings_TrimPrefix p ''/jobs/'' in
         if strings_HasPrefix p ''/jobs/'' \<and> i \<noteq> [] \<and> slash \<notin> set i then Some i else None)
      else if p = pat then Some [] else None)"

lemma sample_chi_documented: "chi_documented sample_chi"
proof -
  have trim: "strings_TrimPrefix (''/jobs/'' @ i) ''/jobs/'' = i" for i by (rule TrimPrefix_append)
  have "sample_chi pat p = (if p = pat then Some [] else None)" if "CHR 0x7B \<notin> set pat" for pat p
    using that by (auto simp: sample_chi_def)
  moreover have "sample_chi ''/jobs/{id}'' (''/jobs/'' @ i) = Some i" if "i \<noteq> []" "slash \<notin> set i" for i
    using that unfolding sample_chi_def trim Let_def by simp
  moreover have "p = ''/jobs/'' @ i \<and> slash \<notin> set i" if r: "sample_chi ''/jobs/{id}'' p = Some i" for p i
  proof -
    from r obtain q where "p = ''/jobs/'' @ q" unfolding sample_chi_def HasPrefix_iff Let_def
      by (metis option.distinct(1))
    with r trim [of q] show ?thesis unfolding sample_chi_def Let_def by (simp split: if_splits)
  qed
  ultimately show ?thesis unfolding chi_documented_def by blast
qed

datatype routed = Routed route string | NoMethod | NoRoute

fun find_route :: "chi_matcher \<Rightarrow> (string \<times> string \<times> route) list \<Rightarrow> string \<Rightarrow> string \<Rightarrow> routed" where
  "find_route M [] meth p = NoRoute"
| "find_route M ((m, pat, h) # rs) meth p =
     (case M pat p of
        None \<Rightarrow> find_route M rs meth p
      | Some i \<Rightarrow> if m = meth then Routed h i
                  else (case find_route M rs meth p of NoRoute \<Rightarrow> NoMethod | r \<Rightarrow> r))"

section \<open>Serving one request\<close>

text \<open>The path of an absolute URL, with its escapes read; \<open>None\<close> where an escape is malformed.\<close>

fun path_unescape :: "string \<Rightarrow> string option" where
  "path_unescape [] = Some []"
| "path_unescape (c # s) =
     (if c = CHR ''%'' then
        (case s of a # b # rest \<Rightarrow>
           if is_hex a \<and> is_hex b
           then map_option (\<lambda>t. char_of (16 * hex_val a + hex_val b) # t) (path_unescape rest) else None
         | _ \<Rightarrow> None)
      else map_option ((#) c) (path_unescape s))"

definition url_path :: "string \<Rightarrow> string option" where
  "url_path url = path_unescape (takeWhile (\<lambda>c. c \<noteq> CHR ''?'' \<and> c \<noteq> CHR ''#'')
     (dropWhile (\<lambda>c. c \<noteq> slash) (strings_TrimPrefix url ''http://'')))"

text \<open>
  What surrounds the handlers: the matcher, the renderings of errors, quoted strings and times,
  the version, and the message of the error of decoding a body.
\<close>

record daemon_app =
  app_chi :: chi_matcher
  app_host :: host
  app_version :: string
  app_render :: "run_error \<Rightarrow> string"
  app_quote :: "string \<Rightarrow> string"
  app_rfc3339 :: "gotime \<Rightarrow> string"
  app_decode_error :: "string \<Rightarrow> string"

type_synonym run_function = "RunRequest \<Rightarrow> job_store \<Rightarrow> (run_error + RunResponse) \<times> job_store"

text \<open>
  \<open>http.MaxBytesReader\<close> lets 1 MiB of the body through and then fails; the decoder takes the first
  value of what it gets, and the error of the reader only where that value is not complete.
\<close>

definition max_body :: nat where
  "max_body = 2 ^ 20"

definition decode_run_body :: "daemon_app \<Rightarrow> string \<Rightarrow> string + RunRequest" where
  "decode_run_body A body =
     (case json_read (length body \<le> max_body) (take max_body body) of
        Read j \<Rightarrow> (case decode_RunRequest j of None \<Rightarrow> Inl (app_decode_error A body) | Some r \<Rightarrow> Inr r)
      | Syntax_error \<Rightarrow> Inl (app_decode_error A body)
      | Cut_short \<Rightarrow> if length body \<le> max_body then Inl (app_decode_error A body)
                     else Inl ''http: request body too large'')"

definition handle_route :: "daemon_app \<Rightarrow> run_function \<Rightarrow> gotime \<Rightarrow> route \<Rightarrow> string \<Rightarrow> string \<Rightarrow> string \<Rightarrow> job_store \<Rightarrow>
    wire_response \<times> job_store" where
  "handle_route A run now h url i body st =
     (case h of
        R_run \<Rightarrow>
          (let decoded = decode_run_body A body in
           (respond encode_RunResponse (handleHTTPValidating (app_render A) (\<lambda>r. fst (run r st)) decoded),
            case decoded of Inl e \<Rightarrow> st | Inr r \<Rightarrow> snd (run r st)))
      | R_health \<Rightarrow> (writeJSON 200 (encode_HealthResponse (handleHealth (app_host A) (app_version A))), st)
      | R_job_list \<Rightarrow>
          (respond (\<lambda>js. JArr (map (encode_JobInfo (app_rfc3339 A)) js))
             (handleHTTPJobList (app_quote A) now (url_query_get url ''status'') (url_query_get url ''caller_id'') st), st)
      | R_job_get \<Rightarrow>
          (let (resp, st') = handleHTTPJobGet now i st in (respond (encode_JobInfo (app_rfc3339 A)) resp, st'))
      | R_job_kill \<Rightarrow>
          (let (resp, st') = handleHTTPJobKill now i st in (respond (encode_JobInfo (app_rfc3339 A)) resp, st')))"

text \<open>
  The line of a request has three words: the method, the path with its query, and the version. The
  client escapes the path, but sends the query of the URL as it is; a space in it makes the rest
  of the query part of the third word, which is no version then, and the server answers 400
  before any handler runs, as it does for a malformed escape in the path.
\<close>

definition bad_request :: wire_response where
  "bad_request = \<lparr>wr_status = 400, wr_type = ''text/plain; charset=utf-8'', wr_body = ''400 Bad Request''\<rparr>"

definition serve :: "daemon_app \<Rightarrow> run_function \<Rightarrow> gotime \<Rightarrow> string \<Rightarrow> string \<Rightarrow> string \<Rightarrow> job_store \<Rightarrow>
    wire_response \<times> job_store" where
  "serve A run now meth url body st =
     (if CHR '' '' \<in> set (raw_query url) then (bad_request, st)
      else case url_path url of
        None \<Rightarrow> (bad_request, st)
      | Some p \<Rightarrow>
          (case find_route (app_chi A) (newRouter True) meth p of
             NoRoute \<Rightarrow> (http_Error 404 ''404 page not found'', st)
           | NoMethod \<Rightarrow> (\<lparr>wr_status = 405, wr_type = [], wr_body = []\<rparr>, st)
           | Routed h i \<Rightarrow> handle_route A run now h url i body st))"

text \<open>What the client reads of a response.\<close>

definition reply_of :: "(json \<Rightarrow> 'a option) \<Rightarrow> wire_response \<Rightarrow> 'a client_reply" where
  "reply_of dec w =
     \<lparr>cr_status = int (wr_status w), cr_body = wr_body w, cr_decoded = decode_text dec (wr_body w)\<rparr>"

section \<open>Paths and routes\<close>

definition path_plain :: "string \<Rightarrow> bool" where
  "path_plain s \<longleftrightarrow> list_all (\<lambda>c. c \<noteq> CHR ''%'' \<and> c \<noteq> CHR ''?'' \<and> c \<noteq> CHR ''#'') s"

definition base_plain :: "Client \<Rightarrow> bool" where
  "base_plain c \<longleftrightarrow> strings_HasPrefix (baseURL c) ''http://''
     \<and> list_all (\<lambda>x. x \<noteq> slash \<and> x \<noteq> CHR ''?'' \<and> x \<noteq> CHR ''#'') (strings_TrimPrefix (baseURL c) ''http://'')"

lemma path_unescape_plain: "path_plain s \<Longrightarrow> path_unescape s = Some s"
  by (induction s) (simp_all add: path_plain_def)

lemma url_path_base:
  assumes "base_plain c" "path_plain (slash # p)" "q = [] \<or> hd q \<in> {CHR ''?'', CHR ''#''}"
  shows "url_path (baseURL c @ slash # p @ q) = Some (slash # p)"
proof -
  obtain h where b: "baseURL c = ''http://'' @ h"
    using assms(1) by (auto simp: base_plain_def HasPrefix_iff)
  then have h: "list_all (\<lambda>x. x \<noteq> slash \<and> x \<noteq> CHR ''?'' \<and> x \<noteq> CHR ''#'') h"
    using assms(1) by (simp only: base_plain_def TrimPrefix_append)
  have "strings_TrimPrefix (baseURL c @ slash # p @ q) ''http://'' = h @ slash # p @ q"
    by (simp only: b append_assoc TrimPrefix_append)
  moreover have "dropWhile (\<lambda>c. c \<noteq> slash) (h @ slash # p @ q) = slash # p @ q"
    using h by (intro dropWhile_append_stop) (auto simp: list_all_iff)
  moreover have "takeWhile (\<lambda>c. c \<noteq> CHR ''?'' \<and> c \<noteq> CHR ''#'') ((slash # p) @ q) = slash # p"
  proof -
    have "\<And>x. x \<in> set (slash # p) \<Longrightarrow> x \<noteq> CHR ''?'' \<and> x \<noteq> CHR ''#''"
      using assms(2) by (auto simp: path_plain_def list_all_iff)
    then have "takeWhile (\<lambda>c. c \<noteq> CHR ''?'' \<and> c \<noteq> CHR ''#'') ((slash # p) @ q)
        = (slash # p) @ takeWhile (\<lambda>c. c \<noteq> CHR ''?'' \<and> c \<noteq> CHR ''#'') q"
      by (rule takeWhile_append2)
    moreover have "takeWhile (\<lambda>c. c \<noteq> CHR ''?'' \<and> c \<noteq> CHR ''#'') q = []"
      using assms(3) by (cases q) auto
    ultimately show ?thesis by simp
  qed
  ultimately show ?thesis
    using path_unescape_plain [OF assms(2)] by (simp only: url_path_def append_Cons)
qed

lemma chi_static: "chi_documented M \<Longrightarrow> CHR 0x7B \<notin> set pat \<Longrightarrow> M pat p = (if p = pat then Some [] else None)"
  by (simp add: chi_documented_def)

lemma chi_id: "chi_documented M \<Longrightarrow> i \<noteq> [] \<Longrightarrow> slash \<notin> set i \<Longrightarrow> M ''/jobs/{id}'' (''/jobs/'' @ i) = Some i"
  unfolding chi_documented_def by blast

text \<open>The route table, in one place: every method and path that the daemon serves.\<close>

lemma find_route_cases:
  assumes "chi_documented M"
  shows "find_route M (newRouter True) ''POST'' ''/run'' = Routed R_run []"
    and "find_route M (newRouter True) ''GET'' ''/health'' = Routed R_health []"
    and "find_route M (newRouter True) ''GET'' ''/jobs'' = Routed R_job_list []"
    and "i \<noteq> [] \<Longrightarrow> slash \<notin> set i \<Longrightarrow> find_route M (newRouter True) ''GET'' (''/jobs/'' @ i) = Routed R_job_get i"
    and "i \<noteq> [] \<Longrightarrow> slash \<notin> set i \<Longrightarrow> find_route M (newRouter True) ''DELETE'' (''/jobs/'' @ i) = Routed R_job_kill i"
proof -
  have static: "CHR 0x7B \<notin> set ''/run''" "CHR 0x7B \<notin> set ''/health''" "CHR 0x7B \<notin> set ''/jobs''" by simp_all
  have m: "M ''/run'' p = (if p = ''/run'' then Some [] else None)"
    "M ''/health'' p = (if p = ''/health'' then Some [] else None)"
    "M ''/jobs'' p = (if p = ''/jobs'' then Some [] else None)" for p
    by (fact chi_static [OF assms static(1)] chi_static [OF assms static(2)] chi_static [OF assms static(3)])+
  note router = newRouter_def if_True append.simps find_route.simps m
  show "find_route M (newRouter True) ''POST'' ''/run'' = Routed R_run []"
    "find_route M (newRouter True) ''GET'' ''/health'' = Routed R_health []"
    "find_route M (newRouter True) ''GET'' ''/jobs'' = Routed R_job_list []"
    unfolding router by simp_all
  assume i: "i \<noteq> []" "slash \<notin> set i"
  define p where "p = ''/jobs/'' @ i"
  have none: "M ''/run'' p = None" "M ''/health'' p = None" "M ''/jobs'' p = None"
    using i(1) by (simp_all only: m) (simp_all add: p_def)
  have hit: "M ''/jobs/{id}'' p = Some i" unfolding p_def by (rule chi_id [OF assms i])
  show "find_route M (newRouter True) ''GET'' (''/jobs/'' @ i) = Routed R_job_get i"
    "find_route M (newRouter True) ''DELETE'' (''/jobs/'' @ i) = Routed R_job_kill i"
    unfolding p_def [symmetric] by (simp_all add: newRouter_def none hit)
qed

text \<open>What follows the path: nothing, a query or a fragment.\<close>

definition url_tail :: "string \<Rightarrow> bool" where
  "url_tail q \<longleftrightarrow> q = [] \<or> hd q \<in> {CHR ''?'', CHR ''#''}"

lemma raw_query_prefix:
  assumes "CHR ''?'' \<notin> set u" "CHR ''#'' \<notin> set u"
  shows "raw_query (u @ q) = raw_query q"
proof -
  have "takeWhile (\<lambda>c. c \<noteq> CHR ''#'') (u @ q) = u @ takeWhile (\<lambda>c. c \<noteq> CHR ''#'') q"
    using assms(2) by (intro takeWhile_append2) auto
  moreover have "dropWhile (\<lambda>c. c \<noteq> CHR ''?'') (u @ x) = dropWhile (\<lambda>c. c \<noteq> CHR ''?'') x" for x
    using assms(1) by (intro dropWhile_append2) auto
  ultimately show ?thesis by (simp only: raw_query_def)
qed

lemma base_no_query:
  assumes "base_plain c"
  shows "CHR ''?'' \<notin> set (baseURL c)" "CHR ''#'' \<notin> set (baseURL c)"
proof -
  obtain h where b: "baseURL c = ''http://'' @ h" using assms by (auto simp: base_plain_def HasPrefix_iff)
  then have "list_all (\<lambda>x. x \<noteq> slash \<and> x \<noteq> CHR ''?'' \<and> x \<noteq> CHR ''#'') h"
    using assms by (simp only: base_plain_def TrimPrefix_append)
  then show "CHR ''?'' \<notin> set (baseURL c)" "CHR ''#'' \<notin> set (baseURL c)" by (auto simp: b list_all_iff)
qed

lemma raw_query_path:
  assumes "base_plain c" "path_plain p"
  shows "raw_query (baseURL c @ p @ q) = raw_query q"
proof -
  have "CHR ''?'' \<notin> set (baseURL c @ p)" "CHR ''#'' \<notin> set (baseURL c @ p)"
    using base_no_query [OF assms(1)] assms(2) by (auto simp: path_plain_def list_all_iff)
  from raw_query_prefix [OF this] show ?thesis by simp
qed

lemma raw_query_Nil [simp]: "raw_query [] = []"
  by (simp add: raw_query_def)

lemma serve_routed:
  assumes "base_plain c" "path_plain (slash # p)" "url_tail q" "CHR '' '' \<notin> set (raw_query q)"
    and "find_route (app_chi A) (newRouter True) meth (slash # p) = Routed h i"
  shows "serve A run now meth (baseURL c @ slash # p @ q) body st
    = handle_route A run now h (baseURL c @ slash # p @ q) i body st"
  using url_path_base [OF assms(1,2) assms(3) [unfolded url_tail_def]] raw_query_path [OF assms(1,2), of q] assms(4,5)
  by (simp add: serve_def)

lemma url_tail_Nil [simp]: "url_tail []"
  by (simp add: url_tail_def)

section \<open>A run, end to end\<close>

definition error_status :: "run_error \<Rightarrow> nat" where
  "error_status e = (case e of RunError code msg \<Rightarrow> code | PathValidation p \<Rightarrow> 400 | _ \<Rightarrow> 500)"

text \<open>Results of a run function that HTTP can carry: the exit code is an \<open>int\<close>, an error is not 200.\<close>

definition run_result_ok :: "run_error + RunResponse \<Rightarrow> bool" where
  "run_result_ok res = (case res of Inr rsp \<Rightarrow> int_range (rsp_ExitCode rsp) | Inl e \<Rightarrow> error_status e \<noteq> 200)"

lemma respond_run:
  "respond encode_RunResponse (handleHTTPValidating render f (Inr req)) =
    (case f req of
       Inl e \<Rightarrow> writeJSON (error_status e) (error_json (error_text render e))
     | Inr rsp \<Rightarrow> writeJSON 200 (encode_RunResponse rsp))"
  by (simp add: respond_def handleHTTPValidating_def error_status_def error_text_def split: sum.split run_error.split)

text \<open>The daemon as the transport of a client's call: the body is what the client wrote.\<close>

definition run_transport :: "daemon_app \<Rightarrow> run_function \<Rightarrow> gotime \<Rightarrow> job_store \<Rightarrow> string \<Rightarrow>
    client_RunRequest \<Rightarrow> RunResponse client_reply option" where
  "run_transport A run now st url q =
     Some (reply_of decode_RunResponse
       (fst (serve A run now ''POST'' url (json_text (encode_client_RunRequest q)) st)))"

definition get_transport :: "daemon_app \<Rightarrow> run_function \<Rightarrow> gotime \<Rightarrow> (json \<Rightarrow> 'a option) \<Rightarrow> string \<Rightarrow>
    job_store \<Rightarrow> string \<Rightarrow> 'a client_reply option" where
  "get_transport A run now dec meth st url = Some (reply_of dec (fst (serve A run now meth url [] st)))"

text \<open>A body within the limit is decoded whole; the trimmed text of an error is the text itself.\<close>

lemma decode_run_body_small:
  assumes "length body \<le> max_body" "decode_text decode_RunRequest body = Some r"
  shows "decode_run_body A body = Inr r"
  using assms by (simp add: decode_run_body_def decode_text_def split: json_result.splits)

lemma decode_run_body_long:
  assumes "2 ^ 20 < length (json_text (encode_client_RunRequest q))"
  shows "decode_run_body A (json_text (encode_client_RunRequest q)) = Inl ''http: request body too large''"
proof -
  obtain kvs where kvs: "encode_client_RunRequest q = JObj kvs" "kvs \<noteq> []" by (simp add: encode_client_RunRequest_def)
  have "json_read False (take max_body (json_text (JObj kvs))) = Cut_short"
    by (rule json_read_cut [of 8])
      (use kvs assms request_codec.encode_fits [of q] in \<open>simp_all add: max_depth_def max_body_def\<close>)
  with assms kvs(1) show ?thesis by (simp add: decode_run_body_def max_body_def)
qed

lemma decode_run_body_Inr: "decode_run_body A body = Inr r \<Longrightarrow> request_typed r"
  by (auto simp: decode_run_body_def split: json_result.splits option.splits if_splits
      intro: decode_RunRequest_typed dest: json_read_valid)

lemma brace_no_space: "w \<in> set space_seqs \<Longrightarrow> w \<noteq> [] \<and> hd w \<noteq> CHR 0x7B \<and> last w \<noteq> CHR 0x7D"
  by (auto simp: space_seqs_def ascii_spaces_def unicode_spaces_def char_of_eq_iff)

lemma TrimSpace_object: "strings_TrimSpace (CHR 0x7B # t @ [CHR 0x7D] @ nl) = CHR 0x7B # t @ [CHR 0x7D]"
proof -
  let ?s = "CHR 0x7B # t @ [CHR 0x7D] @ nl" and ?r = "CHR 0x7D # rev t @ [CHR 0x7B]"
  have left: "trim_left_seqs space_seqs n ?s = ?s" for n
    by (rule trim_left_seqs_id) (auto simp: HasPrefix_iff Cons_eq_append_conv dest!: brace_no_space)
  have "v \<noteq> [] \<and> hd v \<noteq> CHR 0x7D" if "v \<in> set (map rev space_seqs)" for v
    using that brace_no_space by (auto simp: hd_rev)
  then have right: "trim_left_seqs (map rev space_seqs) n ?r = ?r" for n
    by (intro trim_left_seqs_id) (fastforce simp: HasPrefix_iff Cons_eq_append_conv simp del: set_map list.set_map)
  have "find (strings_HasPrefix (CHR 0x0A # ?r)) (map rev space_seqs) = Some [CHR 0x0A]"
    by (simp add: space_seqs_def ascii_spaces_def strings_HasPrefix_def)
  then have line: "trim_left_seqs (map rev space_seqs) (Suc n) (CHR 0x0A # ?r) = ?r" for n
    using right by simp
  have r: "rev ?s = CHR 0x0A # ?r" "length ?s = Suc (length ?r)" by simp_all
  show ?thesis unfolding strings_TrimSpace_def Let_def left r line by simp
qed

lemma TrimSpace_error: "strings_TrimSpace (json_text (error_json msg) @ nl) = json_text (error_json msg)"
proof -
  obtain t where "json_text (error_json msg) = CHR 0x7B # t @ [CHR 0x7D]" by (simp add: error_json_def)
  with TrimSpace_object [of t] show ?thesis by simp
qed

lemma client_run_call:
  assumes "chi_documented (app_chi A)" and "base_plain c"
    and "gomap_ok (creq_Env q)" and "\<forall>kv \<in> set (creq_Env q). valid_utf8 (fst kv)"
    and "length (json_text (encode_client_RunRequest q)) \<le> 2 ^ 20" and "run_result_ok (fst (run (request_seen q) st))"
  shows "client_Run (\<lambda>u. True) (run_transport A run now st) c (Some q) =
    (case fst (run (request_seen q) st) of
       Inr rsp \<Rightarrow> Inr (response_seen rsp)
     | Inl e \<Rightarrow> Inl (HTTPStatus (int (error_status e)) (json_text (error_json (error_text (app_render A) e)))))"
proof -
  let ?body = "json_text (encode_client_RunRequest q)"
  have "serve A run now ''POST'' (baseURL c @ ''/run'') ?body st
      = handle_route A run now R_run (baseURL c @ ''/run'') [] ?body st"
    using serve_routed [OF assms(2), of "''run''" "[]" A "''POST''" R_run "[]"] find_route_cases(1) [OF assms(1)]
    by (simp add: path_plain_def)
  moreover have "decode_run_body A ?body = Inr (request_seen q)"
    using assms(3-5) request_codec.decode_marshal [of q]
    by (intro decode_run_body_small) (simp_all add: max_body_def request_fit_def list_all_iff)
  ultimately have w: "fst (serve A run now ''POST'' (baseURL c @ ''/run'') ?body st) =
      (case fst (run (request_seen q) st) of
         Inl e \<Rightarrow> writeJSON (error_status e) (error_json (error_text (app_render A) e))
       | Inr rsp \<Rightarrow> writeJSON 200 (encode_RunResponse rsp))"
    by (simp add: handle_route_def respond_run)
  show ?thesis
  proof (cases "fst (run (request_seen q) st)")
    case (Inl e)
    with assms(6) have "error_status e \<noteq> 200" by (simp add: run_result_ok_def)
    with Inl w show ?thesis
      by (simp add: client_Run_def postJSON_def run_transport_def reply_of_def writeJSON_def TrimSpace_error)
  next
    case (Inr rsp)
    with assms(6) w show ?thesis
      by (simp add: client_Run_def postJSON_def run_transport_def reply_of_def writeJSON_def response_codec.decode_line
          run_result_ok_def)
  qed
qed

text \<open>
  C6. A run through client and daemon: the caller gets exactly what the daemon's run function
  answers to the request that the caller built, the response with its strings as valid UTF-8,
  or an error with the status and the message of the daemon's error. Between them lie the
  client's URL and the bytes of its JSON, the router, the limit and the scanner of the body, the
  status mapping, the bytes of the answer and the client's reading of them; none of them loses or
  changes anything else. A request of more than 1 MiB is answered 400 with the reason, and runs
  nothing.
\<close>

theorem client_run_end_to_end:
  assumes "chi_documented (app_chi A)" and "base_plain c"
    and "gomap_ok (creq_Env q)" and "\<forall>kv \<in> set (creq_Env q). valid_utf8 (fst kv)"
    and "run_result_ok (fst (run (request_seen q) st))"
  shows "(length (json_text (encode_client_RunRequest q)) \<le> 2 ^ 20 \<longrightarrow>
      client_Run (\<lambda>u. True) (run_transport A run now st) c (Some q) =
        (case fst (run (request_seen q) st) of
           Inr rsp \<Rightarrow> Inr (response_seen rsp)
         | Inl e \<Rightarrow> Inl (HTTPStatus (int (error_status e)) (json_text (error_json (error_text (app_render A) e))))))
    \<and> (2 ^ 20 < length (json_text (encode_client_RunRequest q)) \<longrightarrow>
      serve A run now ''POST'' (baseURL c @ ''/run'') (json_text (encode_client_RunRequest q)) st
        = (http_Error 400 ''http: request body too large'', st))"
proof (intro conjI impI)
  show "client_Run (\<lambda>u. True) (run_transport A run now st) c (Some q) =
      (case fst (run (request_seen q) st) of
         Inr rsp \<Rightarrow> Inr (response_seen rsp)
       | Inl e \<Rightarrow> Inl (HTTPStatus (int (error_status e)) (json_text (error_json (error_text (app_render A) e)))))"
    if "length (json_text (encode_client_RunRequest q)) \<le> 2 ^ 20"
    by (rule client_run_call [where run = run and st = st, OF assms(1-4) that assms(5)])
  assume "2 ^ 20 < length (json_text (encode_client_RunRequest q))"
  from decode_run_body_long [OF this, of A] show "serve A run now ''POST'' (baseURL c @ ''/run'')
      (json_text (encode_client_RunRequest q)) st = (http_Error 400 ''http: request body too large'', st)"
    using serve_routed [OF assms(2), of "''run''" "[]" A "''POST''" R_run "[]"] find_route_cases(1) [OF assms(1)]
    by (simp add: path_plain_def handle_route_def handleHTTPValidating_def respond_def)
qed

section \<open>Jobs, end to end\<close>

definition id_plain :: "string \<Rightarrow> bool" where
  "id_plain i \<longleftrightarrow> i \<noteq> [] \<and> path_plain i \<and> slash \<notin> set i"

lemma serve_job:
  assumes "chi_documented (app_chi A)" "base_plain c" "id_plain i" "url_tail q" "CHR '' '' \<notin> set (raw_query q)"
  shows "serve A run now ''GET'' (baseURL c @ ''/jobs/'' @ i @ q) body st
      = handle_route A run now R_job_get (baseURL c @ ''/jobs/'' @ i @ q) i body st"
    and "serve A run now ''DELETE'' (baseURL c @ ''/jobs/'' @ i @ q) body st
      = handle_route A run now R_job_kill (baseURL c @ ''/jobs/'' @ i @ q) i body st"
proof -
  have p: "path_plain (slash # ''jobs/'' @ i)" "slash # ''jobs/'' @ i = ''/jobs/'' @ i"
    using assms(3) by (simp_all add: id_plain_def path_plain_def)
  have i: "i \<noteq> []" "slash \<notin> set i" using assms(3) by (simp_all add: id_plain_def)
  note r = find_route_cases(4,5) [OF assms(1) i, folded p(2)]
  show "serve A run now ''GET'' (baseURL c @ ''/jobs/'' @ i @ q) body st
      = handle_route A run now R_job_get (baseURL c @ ''/jobs/'' @ i @ q) i body st"
    "serve A run now ''DELETE'' (baseURL c @ ''/jobs/'' @ i @ q) body st
      = handle_route A run now R_job_kill (baseURL c @ ''/jobs/'' @ i @ q) i body st"
    using serve_routed [OF assms(2) p(1) assms(4,5) r(1)] serve_routed [OF assms(2) p(1) assms(4,5) r(2)]
    by simp_all
qed

lemma snapshot_ExitCode: "info_ExitCode (fst (snapshot now b j)) = exitCode j"
  by (simp add: snapshot_def Let_def split: prod.split)

text \<open>
  The client does not escape the id either: a query or a fragment after it is none of the
  daemon's concern, which finds the job of the id in front of it.
\<close>

lemma job_calls:
  assumes "chi_documented (app_chi A)" and "base_plain c" and "id_plain i"
    and "url_tail q" and "CHR '' '' \<notin> set (raw_query q)"
    and "case Manager_Get i st of None \<Rightarrow> True | Some r \<Rightarrow> r < length (heap st) \<and> int_range (exitCode (heap st ! r))"
  shows "GetJob url_ok (get_transport A run now decode_JobInfo ''GET'' st) c (i @ q) =
      (if \<not> url_ok (baseURL c @ ''/jobs/'' @ i @ q) then Inl BuildFailed
       else case Manager_Get i st of None \<Rightarrow> Inl (JobNotFound (i @ q))
       | Some r \<Rightarrow> Inr (job_seen (app_rfc3339 A) (fst (snapshot now True (heap st ! r)))))
    \<and> KillJob url_ok (get_transport A run now decode_JobInfo ''DELETE'' st) c (i @ q) =
      (if \<not> url_ok (baseURL c @ ''/jobs/'' @ i @ q) then Inl BuildFailed
       else case Manager_Get i st of None \<Rightarrow> Inl (JobNotFound (i @ q))
       | Some r \<Rightarrow> if job_done (heap st ! r) then Inl (JobAlreadyCompleted (i @ q))
           else Inr (job_seen (app_rfc3339 A) (fst (snapshot now True ((heap st ! r)\<lparr>ctx_cancelled := True\<rparr>)))))"
proof (cases "Manager_Get i st")
  case None
  then show ?thesis
    by (simp add: GetJob_def KillJob_def get_transport_def serve_job [OF assms(1-5), simplified] handle_route_def
        handleHTTPJobGet_def handleHTTPJobKill_def respond_def writeJSON_def reply_of_def Let_def)
next
  case (Some r)
  then have r: "r < length (heap st)" "int_range (exitCode (heap st ! r))" using assms(6) by simp_all
  have get: "fst (handle_route A run now R_job_get u i [] st)
      = writeJSON 200 (encode_JobInfo (app_rfc3339 A) (fst (snapshot now True (heap st ! r))))" for u
    using Some by (simp add: handle_route_def handleHTTPJobGet_def respond_def)
  have kill: "fst (handle_route A run now R_job_kill u i [] st) =
      (if job_done (heap st ! r) then writeJSON 409 (error_json ''job already completed'')
       else writeJSON 200 (encode_JobInfo (app_rfc3339 A)
              (fst (snapshot now True ((heap st ! r)\<lparr>ctx_cancelled := True\<rparr>)))))" for u
    using Some r by (simp add: handle_route_def handleHTTPJobKill_def IsDone_def Manager_Kill_def Manager_Get_def
        modify_job_def respond_def Let_def)
  show ?thesis
    using Some r
    by (simp add: GetJob_def KillJob_def get_transport_def serve_job [OF assms(1-5), simplified] get kill
        writeJSON_def reply_of_def job_codec.decode_line snapshot_ExitCode)
qed

text \<open>
  C18. The client's job calls through the daemon: for a plain id (no percent sign, question mark,
  hash or slash), \<open>GetJob\<close> gives the job's state with its output as the daemon holds it, or that
  there is no such job; \<open>KillJob\<close> says that the job is not there, or that it is already completed,
  or gives the state of the job with its context cancelled, in exactly the cases in which the
  registry and the job say so. Where the URL library refuses the URL (\<open>url_ok\<close>), as it does for
  control bytes, no request is made.
\<close>

theorem client_jobs_end_to_end:
  assumes "chi_documented (app_chi A)" and "base_plain c" and "id_plain i"
    and "case Manager_Get i st of None \<Rightarrow> True | Some r \<Rightarrow> r < length (heap st) \<and> int_range (exitCode (heap st ! r))"
  shows "GetJob url_ok (get_transport A run now decode_JobInfo ''GET'' st) c i =
      (if \<not> url_ok (baseURL c @ ''/jobs/'' @ i) then Inl BuildFailed
       else case Manager_Get i st of None \<Rightarrow> Inl (JobNotFound i)
       | Some r \<Rightarrow> Inr (job_seen (app_rfc3339 A) (fst (snapshot now True (heap st ! r)))))
    \<and> KillJob url_ok (get_transport A run now decode_JobInfo ''DELETE'' st) c i =
      (if \<not> url_ok (baseURL c @ ''/jobs/'' @ i) then Inl BuildFailed
       else case Manager_Get i st of None \<Rightarrow> Inl (JobNotFound i)
       | Some r \<Rightarrow> if job_done (heap st ! r) then Inl (JobAlreadyCompleted i)
           else Inr (job_seen (app_rfc3339 A) (fst (snapshot now True ((heap st ! r)\<lparr>ctx_cancelled := True\<rparr>)))))"
  using job_calls [where q = "[]", unfolded append_Nil2, OF assms(1-3) url_tail_Nil _ assms(4)] by simp

text \<open>The listing: its URL is the base, the path \<open>/jobs\<close> and a query that is empty or starts with \<open>?\<close>.\<close>

lemma list_url_tail:
  "\<exists>q. list_url c caller stat = baseURL c @ slash # ''jobs'' @ q \<and> url_tail q
     \<and> (plain_text caller \<longrightarrow> plain_text stat \<longrightarrow> CHR '' '' \<notin> set stat \<longrightarrow>
          (CHR '' '' \<in> set (raw_query q) \<longleftrightarrow> CHR '' '' \<in> set caller))"
proof -
  define q where "q = (if caller \<noteq> [] \<or> stat \<noteq> []
      then CHR ''?'' # strings_Join (map (\<lambda>(k, v). k @ CHR ''='' # v) (query_params caller stat)) ''&'' else [])"
  have "list_url c caller stat = baseURL c @ slash # ''jobs'' @ q"
    by (simp add: list_url_params q_def Let_def query_params_def)
  moreover have "url_tail q" by (simp add: q_def url_tail_def)
  moreover have "CHR '' '' \<in> set (raw_query q) \<longleftrightarrow> CHR '' '' \<in> set caller"
    if "plain_text caller" "plain_text stat" "CHR '' '' \<notin> set stat"
  proof -
    have "CHR ''#'' \<notin> set caller" "CHR ''#'' \<notin> set stat"
      using that(1,2) by (auto simp: plain_text_def plain_char_def list_all_iff)
    then have "takeWhile (\<lambda>c. c \<noteq> CHR ''#'') q = q"
      by (auto simp: q_def query_params_def takeWhile_eq_all_conv)
    then have "raw_query q = drop 1 q" by (simp add: raw_query_def q_def)
    then show ?thesis using that(3) by (simp add: q_def query_params_def)
  qed
  ultimately show ?thesis by blast
qed

lemma serve_list:
  assumes "chi_documented (app_chi A)" "base_plain c" "plain_text caller" "plain_text stat" "CHR '' '' \<notin> set stat"
  shows "serve A run now ''GET'' (list_url c caller stat) body st
    = (if CHR '' '' \<in> set caller then (bad_request, st)
       else handle_route A run now R_job_list (list_url c caller stat) [] body st)"
proof -
  obtain q where q: "list_url c caller stat = baseURL c @ slash # ''jobs'' @ q" "url_tail q"
    "CHR '' '' \<in> set (raw_query q) \<longleftrightarrow> CHR '' '' \<in> set caller"
    using list_url_tail [of c caller stat] assms(3-5) by blast
  have p: "path_plain (slash # ''jobs'')" by (simp add: path_plain_def)
  have "find_route (app_chi A) (newRouter True) ''GET'' (slash # ''jobs'') = Routed R_job_list []"
    using find_route_cases(3) [OF assms(1)] by simp
  from serve_routed [OF assms(2) p q(2) _ this] raw_query_path [OF assms(2) p, of q] q(1,3) show ?thesis
    by (simp add: serve_def)
qed

lemma TrimSpace_bad_request: "strings_TrimSpace ''400 Bad Request'' = ''400 Bad Request''"
  by (rule TrimSpace_id) code_simp

lemma job_list_call:
  assumes "chi_documented (app_chi A)" and "base_plain c"
    and "plain_text caller" and "stat \<in> {'''', ''running'', ''completed'', ''killed''}"
    and "\<forall>(i, r) \<in> set (jobs st). int_range (exitCode (heap st ! r))"
  shows "ListJobs url_ok (get_transport A run now decode_JobInfos ''GET'' st) c caller stat =
    (if \<not> url_ok (list_url c caller stat) then Inl BuildFailed
     else if CHR '' '' \<in> set caller then Inl (HTTPStatus 400 ''400 Bad Request'')
     else Inr (map (\<lambda>(i, r). job_seen (app_rfc3339 A) (fst (snapshot now False (heap st ! r))))
       (filter (\<lambda>(i, r). (stat = [] \<or> status_text (status (heap st ! r)) = stat)
          \<and> (caller = [] \<or> callerID (heap st ! r) = caller)) (jobs st))))"
proof -
  let ?js = "map (\<lambda>(i, r). fst (snapshot now False (heap st ! r)))
      (filter (\<lambda>(i, r). (stat = [] \<or> status_text (status (heap st ! r)) = stat)
         \<and> (caller = [] \<or> callerID (heap st ! r) = caller)) (jobs st))"
  have p: "plain_text stat" "CHR '' '' \<notin> set stat" using assms(4) by (auto simp: plain_text_def plain_char_def)
  have "url_query_get (list_url c caller stat) ''status'' = stat"
    "url_query_get (list_url c caller stat) ''caller_id'' = caller"
    by (simp_all add: list_url_query [OF assms(3) p(1) base_no_query [OF assms(2)]] query_params_def)
  moreover have "normalizeJobStatus stat = Some stat" using assms(4) by (auto simp: normalizeJobStatus_def)
  ultimately have w: "fst (serve A run now ''GET'' (list_url c caller stat) [] st)
      = (if CHR '' '' \<in> set caller then bad_request else writeJSON 200 (JArr (map (encode_JobInfo (app_rfc3339 A)) ?js)))"
    by (simp add: serve_list [OF assms(1-3) p] handle_route_def handleHTTPJobList_def Manager_List_def list_loop_eq
        respond_def)
  have "list_all (\<lambda>i. int_range (info_ExitCode i)) ?js"
    using assms(5) by (auto simp: list_all_iff snapshot_ExitCode)
  from job_codec.decode_slice_line [OF this, of "app_rfc3339 A"] w TrimSpace_bad_request show ?thesis
    by (simp add: ListJobs_def get_transport_def reply_of_def writeJSON_def bad_request_def decode_JobInfos_def Let_def
        split_beta comp_def)
qed

text \<open>
  C35. What a job listing answers, end to end, for one of the statuses the daemon knows and a caller
  id without the characters that are special in a query (percent, plus, ampersand, semicolon,
  hash, question mark, equals): where the id has no space, the client gets exactly the registered
  jobs that match, in the order of the registry, each as the daemon holds it but without its
  output; an id with a space, which the client does not escape, breaks the request line, and the
  call fails with 400; and where the URL library refuses the URL (\<open>url_ok\<close>), as it does for control
  bytes, no request is made.
\<close>

theorem job_listing:
  assumes "chi_documented (app_chi A)" and "base_plain c"
    and "plain_text caller" and "stat \<in> {'''', ''running'', ''completed'', ''killed''}"
    and "\<forall>(i, r) \<in> set (jobs st). int_range (exitCode (heap st ! r))"
  shows "ListJobs url_ok (get_transport A run now decode_JobInfos ''GET'' st) c caller stat =
    (if \<not> url_ok (list_url c caller stat) then Inl BuildFailed
     else if CHR '' '' \<in> set caller then Inl (HTTPStatus 400 ''400 Bad Request'')
     else Inr (map (\<lambda>(i, r). job_seen (app_rfc3339 A) (fst (snapshot now False (heap st ! r))))
       (filter (\<lambda>(i, r). (stat = [] \<or> status_text (status (heap st ! r)) = stat)
          \<and> (caller = [] \<or> callerID (heap st ! r) = caller)) (jobs st))))"
  by (rule job_list_call [OF assms])

section \<open>Samples\<close>

definition sample_client :: Client where
  "sample_client = \<lparr>baseURL = ''http://temenos'', dial_unix = Some ''/home/u/.temenos/daemon.sock''\<rparr>"

definition sample_app :: daemon_app where
  "sample_app = \<lparr>app_chi = sample_chi,
     app_host = \<lparr>getenv = (\<lambda>k. []), user_home = None, stat_path = (\<lambda>p. Stat_not_exist), goos = ''linux'', temp_dir = ''/tmp''\<rparr>,
     app_version = ''dev'', app_render = (\<lambda>e. ''error''), app_quote = (\<lambda>s. s), app_rfc3339 = (\<lambda>t. ''2026-01-01T00:00:00Z''),
     app_decode_error = (\<lambda>j. ''bad'')\<rparr>"

definition sample_answer :: run_function where
  "sample_answer req st = (Inr \<lparr>rsp_Stdout = req_Command req, rsp_Stderr = [], rsp_ExitCode = 3,
     rsp_StrippedEnvKeys = map fst (req_Env req), rsp_JobID = [], rsp_Status = []\<rparr>, st)"

lemma sample_client_plain: "base_plain sample_client"
proof -
  have "strings_HasPrefix (''http://'' @ ''temenos'') ''http://''" by (rule HasPrefix_append)
  moreover have "strings_TrimPrefix (''http://'' @ ''temenos'') ''http://'' = ''temenos''" by (rule TrimPrefix_append)
  ultimately show ?thesis by (simp add: base_plain_def sample_client_def)
qed

lemma ascii_B: "valid_utf8 ''B''"
  by (rule ascii_valid) simp

definition sample_client_request :: client_RunRequest where
  "sample_client_request = \<lparr>creq_Command = ''ls'', creq_Env = [(''B'', ''1'')], creq_AllowedPaths = [], creq_Network = None,
     creq_Timeout = 0, creq_CallerID = [], creq_AuthToken = []\<rparr>"

lemma sample_client_request_length: "length (json_text (encode_client_RunRequest sample_client_request)) \<le> 2 ^ 20"
  by (simp add: sample_client_request_def encode_client_RunRequest_def omit_def json_string_def escape_json_def
      escape_json_rune_def rune_ok_def runes_ascii Let_def)

lemma client_run_end_to_end_witness:
  "\<exists>rsp. client_Run (\<lambda>u. True) (run_transport sample_app sample_answer 0 \<lparr>heap = [], jobs = [], seq = 0\<rparr>)
      sample_client (Some sample_client_request) = Inr rsp \<and> rsp_ExitCode rsp = 3"
proof -
  have "gomap_ok (creq_Env sample_client_request)" "\<forall>kv \<in> set (creq_Env sample_client_request). valid_utf8 (fst kv)"
    "run_result_ok (fst (sample_answer (request_seen sample_client_request) \<lparr>heap = [], jobs = [], seq = 0\<rparr>))"
    "app_chi sample_app = sample_chi"
    by (simp_all add: sample_client_request_def gomap_ok_def ascii_B sample_answer_def run_result_ok_def int_range_def
        sample_app_def)
  with client_run_end_to_end [of sample_app sample_client sample_client_request sample_answer
      "\<lparr>heap = [], jobs = [], seq = 0\<rparr>" 0] sample_client_plain sample_chi_documented sample_client_request_length
  show ?thesis by (simp add: sample_answer_def response_seen_def)
qed

text \<open>A URL library that refuses control bytes.\<close>

definition no_control_bytes :: "string \<Rightarrow> bool" where
  "no_control_bytes u \<longleftrightarrow> list_all (\<lambda>x. 0x20 \<le> (of_char x :: nat) \<and> of_char x \<noteq> (0x7F :: nat)) u"

lemma client_jobs_end_to_end_witness:
  "KillJob no_control_bytes (get_transport sample_app sample_answer 0 decode_JobInfo ''DELETE''
      (sample_store sample_done_job)) sample_client ''000001'' = Inl (JobAlreadyCompleted ''000001'')"
  using client_jobs_end_to_end [of sample_app sample_client "''000001''" "sample_store sample_done_job"
      no_control_bytes sample_answer 0] sample_client_plain sample_chi_documented
  by (simp add: sample_app_def sample_store_def Manager_Get_def id_plain_def path_plain_def sample_done_job_def
      int_range_def no_control_bytes_def sample_client_def)

lemma job_listing_witness:
  "(\<exists>j. ListJobs no_control_bytes (get_transport sample_app sample_answer 9 decode_JobInfos ''GET''
      (sample_store sample_done_job)) sample_client ''me'' ''killed'' = Inr [j])
   \<and> ListJobs no_control_bytes (get_transport sample_app sample_answer 9 decode_JobInfos ''GET''
      (sample_store sample_done_job)) sample_client ''agent one'' ''killed'' = Inl (HTTPStatus 400 ''400 Bad Request'')"
proof -
  have st: "\<forall>(i, r) \<in> set (jobs (sample_store sample_done_job)). int_range (exitCode (heap (sample_store sample_done_job) ! r))"
    by (simp add: sample_store_def sample_done_job_def int_range_def)
  have chi: "chi_documented (app_chi sample_app)" using sample_chi_documented by (simp add: sample_app_def)
  have p: "plain_text ''me''" "plain_text ''agent one''" by (simp_all add: plain_text_def plain_char_def)
  have u: "no_control_bytes (list_url sample_client ''me'' ''killed'')"
    "no_control_bytes (list_url sample_client ''agent one'' ''killed'')"
    by (simp_all add: no_control_bytes_def list_url_def sample_client_def Let_def)
  note list = job_listing [OF chi sample_client_plain _ _ st, of _ "''killed''" no_control_bytes sample_answer 9]
  show ?thesis
    using list [OF p(1)] list [OF p(2)] u
    by (simp add: sample_store_def sample_done_job_def sample_written_job_def sample_job_def newBackgroundJob_def)
qed

end
