(* ===== verification/Background.thy ===== *)
theory Background
  imports Races Http
begin

text \<open>
  A run that went to the background, as its caller sees it afterwards: the id it was given and
  what \<open>GetJob\<close> says under this id at any later time, whatever the rest of the daemon did meanwhile.
\<close>

section \<open>Ids in a URL\<close>

lemma digits_base_hex: "list_all is_hex acc \<Longrightarrow> list_all is_hex (digits_base 16 n acc)"
proof (induction "16 :: nat" n acc rule: digits_base.induct)
  case (1 n acc)
  have "is_hex (digit_char (n mod 16))" by (rule is_hex_digit) simp
  with 1 show ?case by (subst digits_base.simps) (simp del: mod_less)
qed

lemma fmt_06x_hex: "list_all is_hex (fmt_06x n)"
proof -
  have "is_hex (CHR ''0'')" "list_all is_hex (digits_base 16 n [])"
    using digits_base_hex [of "[]" n] by (simp_all add: is_hex_def)
  then show ?thesis by (auto simp: fmt_06x_def Let_def list.pred_set)
qed

lemma is_hex_plain:
  "is_hex x \<Longrightarrow> x \<noteq> CHR ''%'' \<and> x \<noteq> CHR ''?'' \<and> x \<noteq> CHR ''#'' \<and> x \<noteq> slash \<and> of_char x < (0x80 :: nat)"
  unfolding is_hex_def set_simps by (elim insertE emptyE) simp_all

lemma id_plain_fmt_06x: "id_plain (fmt_06x n)"
proof -
  have "slash \<notin> set (fmt_06x n)" using fmt_06x_hex [of n] is_hex_plain by (auto simp only: list.pred_set)
  moreover have "path_plain (fmt_06x n)"
    unfolding path_plain_def by (rule list.pred_mono_strong [OF fmt_06x_hex]) (use is_hex_plain in blast)
  ultimately show ?thesis by (simp add: id_plain_def)
qed

lemma coerce_fmt_06x: "utf8_coerce (fmt_06x n) = fmt_06x n"
  by (rule coerce_ascii, rule list.pred_mono_strong [OF fmt_06x_hex]) (use is_hex_plain in blast)

lemma coerce_status_text: "utf8_coerce (status_text x) = status_text x"
  by (cases x) (simp_all add: coerce_ascii)

section \<open>Reading a job by its id\<close>

text \<open>What a client that asks for a job gets, by the state of the job and the executions so far.\<close>

definition job_answer :: "job_event list \<Rightarrow> job_sys \<Rightarrow> nat \<Rightarrow> client_JobInfo \<Rightarrow> bool" where
  "job_answer es s r info \<longleftrightarrow>
     cji_ID info = job_id (job_at s r) \<and> cji_Command info = utf8_coerce (job_command (job_at s r))
     \<and> cji_Status info = status_text (status (job_at s r))
     \<and> (if status (job_at s r) = JobStatusRunning then cji_Stdout info = [] \<and> cji_Stderr info = []
        else (case execs es r of
            [(err, out, errout, code)] \<Rightarrow> cji_Stdout info = utf8_coerce (job_truncate out)
              \<and> cji_Stderr info = utf8_coerce (job_truncate (stderr_text err errout)) \<and> cji_ExitCode info = code
          | _ \<Rightarrow> False))"

lemma job_seen_answer:
  assumes "job_reach es s" "r < job_count s" "job_id (job_at s r) = fmt_06x k"
  shows "job_answer es s r (job_seen f (fst (snapshot now True (job_at s r))))"
proof (cases "status (job_at s r) = JobStatusRunning")
  case True
  with assms(3) show ?thesis
    by (simp add: job_answer_def job_seen_def snapshot_running coerce_fmt_06x coerce_Nil coerce_status_text [of JobStatusRunning, simplified]) (simp add: snapshot_def Let_def)
next
  case False
  from job_result_of_command [OF assms(1,2) this] obtain err out errout code where
    "execs es r = [(err, out, errout, code)]" "job_stdout (job_at s r) = out"
    "job_stderr (job_at s r) = stderr_text err errout" "exitCode (job_at s r) = code" by blast
  with False assms(3) show ?thesis
    using snapshot_done [OF False, of now]
    by (simp add: job_answer_def job_seen_def coerce_fmt_06x coerce_status_text) (simp add: snapshot_def Let_def)
qed

text \<open>An entry that was there once is read later as what its job has become, or was read long ago.\<close>

lemma get_later:
  assumes "chi_documented (app_chi A)" "base_plain c" "int_range (exitCode (job_at s' r))"
    and "job_reach es s" "job_run fs s s'" "registrations (es @ fs) < 2 ^ 64" "no_remove fs"
    and "Manager_Get i (js_store s) = Some r"
  shows "(\<exists>info. GetJob (\<lambda>u. True) (get_transport A run now decode_JobInfo ''GET'' (js_store s')) c i = Inr info
      \<and> job_answer (es @ fs) s' r info)
    \<or> GetJob (\<lambda>u. True) (get_transport A run now decode_JobInfo ''GET'' (js_store s')) c i = Inl (JobNotFound i)
      \<and> read_long_ago s' r"
proof -
  have "registry_inv (js_store s)"
    using registry_ok_reach [OF assms(4)] assms(6) by (simp add: registrations_def registry_ok_def)
  from registry_entry [OF this assms(8)] obtain k where
    k: "r < job_count s" "job_id (job_at s r) = i" "i = fmt_06x k" by (auto simp: job_count_def job_at_def)
  have later: "r < job_count s'" "job_id (job_at s' r) = fmt_06x k"
    using job_run_after [OF assms(5) jobs_ok_reach [OF assms(4)] k(1)] k(2,3) by (auto simp: job_after_def)
  have "case Manager_Get i (js_store s') of None \<Rightarrow> True
      | Some q \<Rightarrow> q < length (heap (js_store s')) \<and> int_range (exitCode (heap (js_store s') ! q))"
    using id_entry_run [OF assms(5,4,6,7,8)] later(1) assms(3) by (auto simp: job_count_def job_at_def)
  note call = job_calls [where q = "[]" and url_ok = "\<lambda>u. True" and run = run and now = now, unfolded append_Nil2,
      OF assms(1,2) id_plain_fmt_06x [of k, folded k(3)] url_tail_Nil _ this, THEN conjunct1]
  from id_entry_run [OF assms(5,4,6,7,8)] show ?thesis
  proof (elim disjE conjE)
    assume "Manager_Get i (js_store s') = Some r"
    with call job_seen_answer [OF job_reach_run [OF assms(4,5)] later] show ?thesis by (simp add: job_at_def)
  qed (use call in simp)
qed

section \<open>From the threshold on\<close>

text \<open>
  A run at its threshold, and any time later: refused and its job cancelled, since the registry is
  full of jobs that may not be dropped; or answered with a new id, under which the caller then
  reads what has become of this job.
\<close>

lemma background_job_polled:
  assumes "job_reach es s" "r < job_count s" "job_id (job_at s r) = []"
    and "poll_round stripped r Poll_threshold (js_clock s) (js_store s) = (Some resp, st')"
    and "handleRun_end r resp st' = (resp', st2)"
    and "job_run fs (s\<lparr>js_store := st2\<rparr>) s'" "no_remove fs" "registrations (es @ E_register r # fs) < 2 ^ 64"
    and "chi_documented (app_chi A)" "base_plain c" "int_range (exitCode (job_at s' r))"
  shows "(resp' = Inl JobLimitReached \<and> ctx_cancelled (heap st2 ! r)
      \<and> maxBackgroundJobs \<le> length (jobs (gcLocked (js_clock s) (js_store s))))
    \<or> (\<exists>k. resp' = Inr \<lparr>rsp_Stdout = [], rsp_Stderr = [], rsp_ExitCode = 0, rsp_StrippedEnvKeys = [],
          rsp_JobID = fmt_06x k, rsp_Status = ''background''\<rparr>
      \<and> Manager_Get (fmt_06x k) (js_store s) = None \<and> Manager_Get (fmt_06x k) st2 = Some r
      \<and> ((\<exists>info. GetJob (\<lambda>u. True) (get_transport A run now decode_JobInfo ''GET'' (js_store s')) c (fmt_06x k) = Inr info
            \<and> job_answer (es @ fs) s' r info)
         \<or> GetJob (\<lambda>u. True) (get_transport A run now decode_JobInfo ''GET'' (js_store s')) c (fmt_06x k)
              = Inl (JobNotFound (fmt_06x k)) \<and> read_long_ago s' r))"
proof -
  have n: "registrations es < 2 ^ 64 - 1"
    using assms(8) by (simp add: registrations_def is_register_def)
  have "registry_ok (registrations es) s" using registry_ok_reach [OF assms(1)] n by simp
  note now = poll_threshold_response [OF this n assms(2-4)]
  obtain ok st1 where a: "Manager_Add (js_clock s) r (js_store s) = (ok, st1)" by fastforce
  show ?thesis
  proof (cases ok)
    case False
    with a assms(4,5) now have "resp = Inl JobLimitReached"
      "st2 = modify_job r (ctx_cancelled_update (\<lambda>_. True)) st'" "resp' = resp"
      by (auto simp: poll_round_def handleRun_end_def)
    moreover have "length (heap st') = length (heap (js_store s))"
      using a False assms(4) Manager_Add_full [of "js_clock s" r "js_store s" st1] by (auto simp: poll_round_def)
    ultimately show ?thesis using now assms(2) by (simp add: heap_modify_job job_count_def)
  next
    case True
    with a assms(4) have st': "st' = st1" "resp = Inr \<lparr>rsp_Stdout = [], rsp_Stderr = [], rsp_ExitCode = 0,
        rsp_StrippedEnvKeys = [], rsp_JobID = job_id (heap st' ! r), rsp_Status = ''background''\<rparr>"
      by (auto simp: poll_round_def)
    let ?i = "job_id (heap st' ! r)" and ?s1 = "s\<lparr>js_store := st'\<rparr>"
    have get: "Manager_Get ?i (js_store s) = None" "Manager_Get ?i (js_store ?s1) = Some r" using now st'(2) by auto
    have same: "resp' = resp" "st2 = st'" using assms(5) st'(2) now by (auto simp: handleRun_end_def)
    then have run: "job_run fs ?s1 s'" using assms(6) by simp
    have "job_step (E_register r) s ?s1"
      using job_step.register [OF assms(2,3)] a st'(1) by (simp add: with_store_eq)
    then have reach: "job_reach (es @ [E_register r]) ?s1" by (rule job_reach_step [OF assms(1)])
    have reg: "registrations ((es @ [E_register r]) @ fs) < 2 ^ 64" using assms(8) by simp
    have "registrations (es @ [E_register r]) < 2 ^ 64"
      using assms(8) by (simp add: registrations_def split: if_splits)
    then have "registry_inv (js_store ?s1)"
      using registry_ok_reach [OF reach] by (simp only: registry_ok_def)
    from registry_entry [OF this get(2)] obtain k where k: "?i = fmt_06x k" by auto
    have "execs ((es @ [E_register r]) @ fs) r = execs (es @ fs) r" by (simp add: execs_def)
    then have "job_answer ((es @ [E_register r]) @ fs) s' r info = job_answer (es @ fs) s' r info" for info
      by (simp add: job_answer_def)
    with get_later [OF assms(9-11) reach run reg assms(7) get(2), of run now] get st'(2) k same show ?thesis by auto
  qed
qed

end
