(* ===== verification/Launchd.thy ===== *)
theory Launchd
  imports GoUtf8 Daemon
begin

text \<open>
  The launchd service of the daemon: \<open>internal/daemon/launchd.go\<close>. Every command is a function
  of the world and of the operations done so far: \<open>launchctl\<close>, the file system and the search
  of the executable answer, each answer may depend on the whole history, and the operations
  are recorded with their answers. The property list is built as the code builds it, and a
  reader of its XML says what launchd sees in it.
\<close>

section \<open>The world of a service command\<close>

text \<open>
  What a child process gives: no error, a binary that is not found (\<open>exec.ErrNotFound\<close>), or
  any other error, with the trimmed combined output.
\<close>

datatype cmd_error = ErrNotFound string | CmdError string

datatype remove_result = Removed | RemoveNotExist | RemoveFailed string

datatype svc_op =
    MkdirAll string nat "string option"
  | StatFile string bool
  | RunCommand "string list" "cmd_error option" string
  | WriteFile string string nat "string option"
  | RemoveFile string remove_result
  | WarnLog string string
  | PrintOut string

record svc_world =
  sw_host :: host
  sw_uid :: nat
  sw_LookPath :: "string \<Rightarrow> string option"
  sw_mkdir :: "svc_op list \<Rightarrow> string \<Rightarrow> string option"
  sw_stat :: "svc_op list \<Rightarrow> string \<Rightarrow> bool"
  sw_command :: "svc_op list \<Rightarrow> string list \<Rightarrow> cmd_error option \<times> string"
  sw_write :: "svc_op list \<Rightarrow> string \<Rightarrow> string \<Rightarrow> string option"
  sw_remove :: "svc_op list \<Rightarrow> string \<Rightarrow> remove_result"

datatype svc_error =
    BinaryNotInPath
  | HomeUnknown
  | FileError string
  | RemovePlistFailed string string
  | LaunchctlNotFound string
  | LaunchctlListFailed string
  | LaunchctlFailed string cmd_error string
  | NotInstalled

type_synonym svc_result = "(svc_error + unit) \<times> svc_op list"

definition daemonPlistLabel :: string where
  "daemonPlistLabel = ''io.guion.temenos.daemon''"

definition plist_path :: "string \<Rightarrow> string" where
  "plist_path home = filepath_Join [home, ''Library'', ''LaunchAgents'', daemonPlistLabel @ ''.plist'']"

definition gui_domain :: "svc_world \<Rightarrow> string" where
  "gui_domain W = ''gui/'' @ fmt_d (sw_uid W)"

definition gui_target :: "svc_world \<Rightarrow> string" where
  "gui_target W = ''gui/'' @ fmt_d (sw_uid W) @ ''/'' @ daemonPlistLabel"

text \<open>\<open>exec.Command(...).CombinedOutput()\<close> with the operation that records it.\<close>

definition run_command :: "svc_world \<Rightarrow> string list \<Rightarrow> svc_op list \<Rightarrow> cmd_error option \<times> string \<times> svc_op list" where
  "run_command W args tr =
     (let (err, out) = sw_command W tr args in (err, out, tr @ [RunCommand args err out]))"

section \<open>The property list\<close>

text \<open>\<open>xml.EscapeText\<close>: one rune at a time; it cannot fail on a \<open>strings.Builder\<close>.\<close>

definition isInCharacterRange :: "nat \<Rightarrow> bool" where
  "isInCharacterRange r \<longleftrightarrow> r = 0x09 \<or> r = 0x0A \<or> r = 0x0D \<or> (0x20 \<le> r \<and> r \<le> 0xD7FF)
     \<or> (0xE000 \<le> r \<and> r \<le> 0xFFFD) \<or> (0x10000 \<le> r \<and> r \<le> 0x10FFFF)"

definition escape_rune :: "nat \<times> string \<Rightarrow> string" where
  "escape_rune rb =
     (if fst rb = 0x22 then ''&#34;''
      else if fst rb = 0x27 then ''&#39;''
      else if fst rb = 0x26 then ''&amp;''
      else if fst rb = 0x3C then ''&lt;''
      else if fst rb = 0x3E then ''&gt;''
      else if fst rb = 0x09 then ''&#x9;''
      else if fst rb = 0x0A then ''&#xA;''
      else if fst rb = 0x0D then ''&#xD;''
      else if \<not> isInCharacterRange (fst rb) \<or> \<not> rune_ok rb then utf8_error
      else snd rb)"

definition xmlEscape :: "string \<Rightarrow> string" where
  "xmlEscape s = concat (map escape_rune (runes s))"

definition plist_text :: "string \<Rightarrow> string \<Rightarrow> string \<Rightarrow> string" where
  "plist_text home temenosBin dataDir =
     ''<?xml version=\"1.0\" encoding=\"UTF-8\"?>'' @ nl @
     ''<!DOCTYPE plist PUBLIC \"-//Apple//DTD PLIST 1.0//EN\" \"http://www.apple.com/DTDs/PropertyList-1.0.dtd\">'' @ nl @
     ''<plist version=\"1.0\">'' @ nl @
     ''<dict>'' @ nl @
     ''    <key>Label</key>'' @ nl @
     ''    <string>'' @ daemonPlistLabel @ ''</string>'' @ nl @ nl @
     ''    <key>ProgramArguments</key>'' @ nl @
     ''    <array>'' @ nl @
     ''        <string>'' @ xmlEscape temenosBin @ ''</string>'' @ nl @
     ''        <string>daemon</string>'' @ nl @
     ''    </array>'' @ nl @ nl @
     ''    <key>RunAtLoad</key>'' @ nl @
     ''    <true/>'' @ nl @ nl @
     ''    <key>KeepAlive</key>'' @ nl @
     ''    <true/>'' @ nl @ nl @
     ''    <key>StandardOutPath</key>'' @ nl @
     ''    <string>'' @ dataDir @ ''/temenos.stdout.log</string>'' @ nl @ nl @
     ''    <key>StandardErrorPath</key>'' @ nl @
     ''    <string>'' @ dataDir @ ''/temenos.stderr.log</string>'' @ nl @ nl @
     ''    <key>EnvironmentVariables</key>'' @ nl @
     ''    <dict>'' @ nl @
     ''        <key>PATH</key>'' @ nl @
     ''        <string>/usr/local/bin:/usr/bin:/bin:/opt/homebrew/bin:'' @ home @ ''/.local/bin:'' @ home
       @ ''/go/bin:'' @ home @ ''/.cargo/bin</string>'' @ nl @
     ''    </dict>'' @ nl @
     ''</dict>'' @ nl @
     ''</plist>'' @ nl"

section \<open>Commands\<close>

text \<open>Both bootouts tolerate an output that mentions \<open>No such process\<close> or \<open>3:\<close>.\<close>

definition bootout_absent :: "string \<Rightarrow> bool" where
  "bootout_absent out \<longleftrightarrow> strings_Contains out ''No such process'' \<or> strings_Contains out ''3:''"

definition installDaemonPlist :: "svc_world \<Rightarrow> string \<Rightarrow> string \<Rightarrow> string \<Rightarrow> svc_op list \<Rightarrow> svc_result" where
  "installDaemonPlist W home temenosBin dataDir tr =
     (let plistPath = plist_path home;
          (err, out, tr1) = run_command W [''launchctl'', ''bootout'', gui_target W] tr;
          outStr = strings_TrimSpace out;
          tr2 = (if err \<noteq> None \<and> \<not> bootout_absent outStr
                 then tr1 @ [WarnLog ''pre-install bootout failed'' outStr] else tr1);
          plist = plist_text home temenosBin dataDir;
          werr = sw_write W tr2 plistPath plist;
          tr3 = tr2 @ [WriteFile plistPath plist mode_0600 werr]
      in case werr of Some e \<Rightarrow> (Inl (FileError e), tr3)
         | None \<Rightarrow>
           (let (err2, out2, tr4) = run_command W [''launchctl'', ''bootstrap'', gui_domain W, plistPath] tr3
            in case err2 of Some e \<Rightarrow> (Inl (LaunchctlFailed ''bootstrap'' e (strings_TrimSpace out2)), tr4)
               | None \<Rightarrow> (Inr (), tr4 @
                   [PrintOut (''Daemon plist installed: '' @ plistPath @ nl),
                    PrintOut (''Logs: '' @ dataDir @ ''/temenos.stdout.log'' @ nl)])))"

text \<open>The directory mode is octal 755.\<close>

definition mode_0755 :: nat where
  "mode_0755 = 7 * 8 * 8 + 5 * 8 + 5"

definition Install :: "svc_world \<Rightarrow> svc_op list \<Rightarrow> svc_result" where
  "Install W tr =
     (case sw_LookPath W ''temenos'' of None \<Rightarrow> (Inl BinaryNotInPath, tr)
      | Some temenosBin \<Rightarrow>
        (case os_UserHomeDir (sw_host W) of None \<Rightarrow> (Inl HomeUnknown, tr)
         | Some home \<Rightarrow>
           (let dataDir = filepath_Join [home, ''.temenos''];
                merr = sw_mkdir W tr dataDir;
                tr1 = tr @ [MkdirAll dataDir mode_0755 merr]
            in case merr of Some e \<Rightarrow> (Inl (FileError e), tr1)
               | None \<Rightarrow> installDaemonPlist W home temenosBin dataDir tr1)))"

text \<open>The end of \<open>Uninstall\<close>: the socket is removed, whatever the result, and nothing else.\<close>

definition uninstall_socket :: "svc_world \<Rightarrow> svc_op list \<Rightarrow> svc_result" where
  "uninstall_socket W tr =
     (let tr1 = (case DefaultSocketPath (sw_host W) of None \<Rightarrow> tr
                 | Some sockPath \<Rightarrow> tr @ [RemoveFile sockPath (sw_remove W tr sockPath)])
      in (Inr (), tr1 @ [PrintOut (''Daemon uninstalled. Logs preserved.'' @ nl)]))"

definition Uninstall :: "svc_world \<Rightarrow> svc_op list \<Rightarrow> svc_result" where
  "Uninstall W tr =
     (case os_UserHomeDir (sw_host W) of None \<Rightarrow> (Inl HomeUnknown, tr)
      | Some home \<Rightarrow>
        (let plistPath = plist_path home;
             there = sw_stat W tr plistPath;
             tr0 = tr @ [StatFile plistPath there]
         in if \<not> there then uninstall_socket W (tr0 @ [PrintOut (''Daemon plist: not installed'' @ nl)])
            else
              (let (err, out, tr1) = run_command W [''launchctl'', ''bootout'', gui_target W] tr0;
                   outStr = strings_TrimSpace out;
                   tr2 = (if err \<noteq> None \<and> \<not> bootout_absent outStr
                          then tr1 @ [WarnLog ''launchctl bootout failed during uninstall'' outStr] else tr1);
                   r = sw_remove W tr2 plistPath;
                   tr3 = tr2 @ [RemoveFile plistPath r]
               in case r of RemoveFailed e \<Rightarrow> (Inl (RemovePlistFailed plistPath e), tr3)
                  | _ \<Rightarrow> uninstall_socket W
                      (tr3 @ [PrintOut (''Removed daemon plist: '' @ plistPath @ nl)]))))"

definition launchd_Status :: "svc_world \<Rightarrow> svc_op list \<Rightarrow> svc_result" where
  "launchd_Status W tr =
     (let (err, out, tr1) = run_command W [''launchctl'', ''list'', daemonPlistLabel] tr;
          outStr = strings_TrimSpace out
      in case err of
           Some (ErrNotFound e) \<Rightarrow> (Inl (LaunchctlNotFound e), tr1)
         | Some (CmdError e) \<Rightarrow>
             (if strings_Contains outStr ''Could not find service'' \<or> strings_Contains outStr ''113:''
              then (Inr (), tr1 @ [PrintOut (''Daemon not running (label: '' @ daemonPlistLabel @ '', uid: ''
                      @ fmt_d (sw_uid W) @ '')'' @ nl)])
              else (Inl (LaunchctlListFailed outStr), tr1))
         | None \<Rightarrow> (Inr (), tr1 @ [PrintOut (''Daemon running:'' @ nl @ outStr @ nl)]))"

definition launchd_Start :: "svc_world \<Rightarrow> svc_op list \<Rightarrow> svc_result" where
  "launchd_Start W tr =
     (case os_UserHomeDir (sw_host W) of None \<Rightarrow> (Inl HomeUnknown, tr)
      | Some home \<Rightarrow>
        (let plistPath = plist_path home;
             there = sw_stat W tr plistPath;
             tr0 = tr @ [StatFile plistPath there]
         in if \<not> there then (Inl NotInstalled, tr0)
            else
              (let (err, out, tr1) = run_command W [''launchctl'', ''bootstrap'', gui_domain W, plistPath] tr0;
                   outStr = strings_TrimSpace out
               in case err of
                    Some e \<Rightarrow>
                      (if strings_Contains outStr ''already bootstrapped'' \<or> strings_Contains outStr ''36:''
                       then (Inr (), tr1 @ [PrintOut (''Daemon already running'' @ nl)])
                       else (Inl (LaunchctlFailed ''bootstrap'' e outStr), tr1))
                  | None \<Rightarrow> (Inr (), tr1 @ [PrintOut (''Daemon started'' @ nl)]))))"

definition launchd_Stop :: "svc_world \<Rightarrow> svc_op list \<Rightarrow> svc_result" where
  "launchd_Stop W tr =
     (let (err, out, tr1) = run_command W [''launchctl'', ''bootout'', gui_target W] tr;
          outStr = strings_TrimSpace out
      in case err of
           Some e \<Rightarrow>
             (if bootout_absent outStr then (Inr (), tr1 @ [PrintOut (''Daemon not running'' @ nl)])
              else (Inl (LaunchctlFailed ''bootout'' e outStr), tr1))
         | None \<Rightarrow> (Inr (), tr1 @ [PrintOut (''Daemon stopped'' @ nl)]))"

definition launchd_Restart :: "svc_world \<Rightarrow> svc_op list \<Rightarrow> svc_result" where
  "launchd_Restart W tr =
     (let (err, out, tr1) = run_command W [''launchctl'', ''kickstart'', ''-k'', gui_target W] tr
      in case err of Some e \<Rightarrow> (Inl (LaunchctlFailed ''kickstart -k'' e (strings_TrimSpace out)), tr1)
         | None \<Rightarrow> (Inr (), tr1))"

section \<open>Reading a property list\<close>

text \<open>
  A reader of XML as far as property lists need it: tags and text, character references, and
  the sequence of texts with the elements they stand in. It fails on unbalanced elements,
  unknown references and text outside \<open>key\<close> and \<open>string\<close>.
\<close>

datatype xml_token = XTag string | XText string

function xml_tokens :: "string \<Rightarrow> xml_token list" where
  "xml_tokens [] = []"
| "xml_tokens (c # s) =
     (if c = CHR ''<''
      then XTag (takeWhile (\<lambda>d. d \<noteq> CHR ''>'') s) # xml_tokens (tl (dropWhile (\<lambda>d. d \<noteq> CHR ''>'') s))
      else XText (c # takeWhile (\<lambda>d. d \<noteq> CHR ''<'') s) # xml_tokens (dropWhile (\<lambda>d. d \<noteq> CHR ''<'') s))"
  by pat_completeness auto
termination
  by (relation "measure length")
    (auto simp: less_Suc_eq_le intro: le_trans [OF diff_le_self length_dropWhile_le] length_dropWhile_le)

definition xml_entities :: "(string \<times> char) list" where
  "xml_entities = [(''#34'', CHR 0x22), (''#39'', CHR 0x27), (''amp'', CHR 0x26), (''lt'', CHR 0x3C),
     (''gt'', CHR 0x3E), (''#x9'', CHR 0x09), (''#xA'', CHR 0x0A), (''#xD'', CHR 0x0D)]"

function xml_unescape :: "string \<Rightarrow> string option" where
  "xml_unescape [] = Some []"
| "xml_unescape (c # s) =
     (if c \<noteq> CHR ''&'' then map_option ((#) c) (xml_unescape s)
      else (case map_of xml_entities (takeWhile (\<lambda>d. d \<noteq> CHR '';'') s) of None \<Rightarrow> None
            | Some d \<Rightarrow> map_option ((#) d) (xml_unescape (tl (dropWhile (\<lambda>d. d \<noteq> CHR '';'') s)))))"
  by pat_completeness auto
termination
  by (relation "measure length")
    (auto simp: less_Suc_eq_le intro: le_trans [OF diff_le_self length_dropWhile_le])

definition xml_space :: "string \<Rightarrow> bool" where
  "xml_space x = list_all (\<lambda>c. c \<in> set [CHR '' '', CHR 0x0A, CHR 0x09, CHR 0x0D]) x"

fun xml_leaves :: "string list \<Rightarrow> xml_token list \<Rightarrow> (string list \<times> string) list option" where
  "xml_leaves st [] = (if st = [] then Some [] else None)"
| "xml_leaves st (XText x # ts) =
     (if st \<noteq> [] \<and> (hd st = ''key'' \<or> hd st = ''string'')
      then (case xml_unescape x of None \<Rightarrow> None | Some y \<Rightarrow> map_option ((#) (st, y)) (xml_leaves st ts))
      else if xml_space x then xml_leaves st ts else None)"
| "xml_leaves st (XTag t # ts) =
     (if strings_HasPrefix t ''?'' \<or> strings_HasPrefix t ''!'' then (if st = [] then xml_leaves st ts else None)
      else if strings_HasPrefix t ''/'' then (if st \<noteq> [] \<and> hd st = tl t then xml_leaves (tl st) ts else None)
      else if strings_HasSuffix t ''/'' then map_option ((#) (butlast t # st, [])) (xml_leaves st ts)
      else xml_leaves (takeWhile (\<lambda>c. c \<noteq> CHR '' '') t # st) ts)"

text \<open>The inverse of the tokenizer, on token sequences that it can return.\<close>

fun xml_render :: "xml_token list \<Rightarrow> string" where
  "xml_render [] = []"
| "xml_render (XTag t # ts) = ''<'' @ t @ ''>'' @ xml_render ts"
| "xml_render (XText x # ts) = x @ xml_render ts"

fun xml_tokens_ok :: "xml_token list \<Rightarrow> bool" where
  "xml_tokens_ok [] = True"
| "xml_tokens_ok (XTag t # ts) = (CHR ''>'' \<notin> set t \<and> xml_tokens_ok ts)"
| "xml_tokens_ok (XText x # ts) =
     (x \<noteq> [] \<and> CHR ''<'' \<notin> set x \<and> (case ts of XText _ # _ \<Rightarrow> False | _ \<Rightarrow> True) \<and> xml_tokens_ok ts)"

lemma xml_tokens_tag: "CHR ''>'' \<notin> set t \<Longrightarrow> xml_tokens (CHR ''<'' # t @ CHR ''>'' # r) = XTag t # xml_tokens r"
  using takeWhile_append_stop [of t "\<lambda>d. d \<noteq> CHR ''>''" "CHR ''>''" r]
    dropWhile_append_stop [of t "\<lambda>d. d \<noteq> CHR ''>''" "CHR ''>''" r]
  by fastforce

lemma xml_tokens_text:
  assumes "x \<noteq> []" "CHR ''<'' \<notin> set x" "r = [] \<or> hd r = CHR ''<''"
  shows "xml_tokens (x @ r) = XText x # xml_tokens r"
proof -
  obtain c y where x: "x = c # y" using assms(1) by (cases x) auto
  have "takeWhile (\<lambda>d. d \<noteq> CHR ''<'') (y @ r) = y" "dropWhile (\<lambda>d. d \<noteq> CHR ''<'') (y @ r) = r"
    using assms(2,3) x by (cases r; auto simp: takeWhile_append dropWhile_append)+
  moreover have "c \<noteq> CHR ''<''" using assms(2) x by auto
  ultimately show ?thesis by (simp only: x append.simps xml_tokens.simps(2) if_False)
qed

lemma xml_tokens_render: "xml_tokens_ok ts \<Longrightarrow> xml_tokens (xml_render ts) = ts"
proof (induction ts rule: xml_tokens_ok.induct)
  case (3 x ts)
  have "xml_render ts = [] \<or> hd (xml_render ts) = CHR ''<''"
    using "3.prems" by (cases ts rule: xml_render.cases) auto
  with 3 show ?case by (simp add: xml_tokens_text)
qed (simp_all add: xml_tokens_tag del: xml_tokens.simps(2))

section \<open>Escaping\<close>

text \<open>What escaping keeps of a string: every rune that XML can hold; the rest is replaced.\<close>

definition xml_clean :: "string \<Rightarrow> string" where
  "xml_clean s = concat (map (\<lambda>rb. if isInCharacterRange (fst rb) \<and> rune_ok rb then snd rb else utf8_error) (runes s))"

definition xml_plain :: "string \<Rightarrow> bool" where
  "xml_plain s \<longleftrightarrow> CHR ''<'' \<notin> set s \<and> CHR ''&'' \<notin> set s"

lemma xml_clean_id:
  "valid_utf8 s \<Longrightarrow> (\<And>rb. rb \<in> set (runes s) \<Longrightarrow> isInCharacterRange (fst rb)) \<Longrightarrow> xml_clean s = s"
proof -
  assume a: "valid_utf8 s" "\<And>rb. rb \<in> set (runes s) \<Longrightarrow> isInCharacterRange (fst rb)"
  then have "map (\<lambda>rb. if isInCharacterRange (fst rb) \<and> rune_ok rb then snd rb else utf8_error) (runes s)
      = map snd (runes s)"
    by (simp add: valid_utf8_def list_all_iff)
  then show ?thesis by (simp only: xml_clean_def concat_runes)
qed

lemma xml_unescape_plain: "CHR ''&'' \<notin> set x \<Longrightarrow> xml_unescape (x @ t) = map_option ((@) x) (xml_unescape t)"
  by (induction x; cases "xml_unescape t") auto

lemma xml_unescape_plain': "CHR ''&'' \<notin> set x \<Longrightarrow> xml_unescape x = Some x"
  using xml_unescape_plain [of x "[]"] by simp

lemma utf8_error_plain: "CHR ''&'' \<notin> set utf8_error \<and> CHR ''<'' \<notin> set utf8_error"
  by (simp add: utf8_error_def)

text \<open>The bytes of a rune that is not one of the escaped ones.\<close>

lemma rune_bytes_plain:
  assumes "(r, bs) \<in> set (runes s)" "r \<noteq> 0x26" "r \<noteq> 0x3C"
  shows "CHR ''&'' \<notin> set bs \<and> CHR ''<'' \<notin> set bs"
  using runes_bytes [OF assms(1)]
proof
  assume a: "r < 0x80 \<and> bs = [char_of r]"
  then have r: "of_char (char_of r) = r" by simp
  have "char_of r \<noteq> CHR ''&''"
  proof
    assume "char_of r = CHR ''&''"
    with r assms(2) show False by simp
  qed
  moreover have "char_of r \<noteq> CHR ''<''"
  proof
    assume "char_of r = CHR ''<''"
    with r assms(3) show False by simp
  qed
  ultimately show ?thesis using a by auto
qed auto

definition xml_specials :: "char list" where
  "xml_specials = [CHR 0x22, CHR 0x27, CHR 0x26, CHR 0x3C, CHR 0x3E, CHR 0x09, CHR 0x0A, CHR 0x0D]"

lemma escape_special:
  assumes "rb \<in> set (runes s)" "fst rb \<in> of_char ` set xml_specials"
  shows "xml_unescape (escape_rune rb @ t) = map_option ((@) (snd rb)) (xml_unescape t)
    \<and> isInCharacterRange (fst rb) \<and> rune_ok rb \<and> CHR ''<'' \<notin> set (escape_rune rb)"
proof -
  obtain c where c: "c \<in> set xml_specials" "fst rb = of_char c" using assms(2) by blast
  have "(of_char c :: nat) < 0x80" using c(1) unfolding xml_specials_def by auto
  with c(2) have rb: "rb = (of_char c, [c])" using runes_bytes [of "fst rb" "snd rb" s] assms(1) by (cases rb) auto
  have one: "map_option ((@) [d]) u = map_option ((#) d) u" for d u by (cases u) simp_all
  show ?thesis using c(1) unfolding rb xml_specials_def snd_conv one
    by (simp, elim disjE) (simp_all add: escape_rune_def xml_entities_def isInCharacterRange_def rune_ok_def)
qed

lemma escape_rune_other:
  assumes "fst rb \<notin> of_char ` set xml_specials"
  shows "escape_rune rb = (if isInCharacterRange (fst rb) \<and> rune_ok rb then snd rb else utf8_error)"
  using assms by (simp add: escape_rune_def xml_specials_def)

lemma escape_rune_unescape:
  assumes "rb \<in> set (runes s)"
  shows "xml_unescape (escape_rune rb @ t)
      = map_option ((@) (if isInCharacterRange (fst rb) \<and> rune_ok rb then snd rb else utf8_error)) (xml_unescape t)
    \<and> CHR ''<'' \<notin> set (escape_rune rb)"
proof (cases "fst rb \<in> of_char ` set xml_specials")
  case True
  with escape_special [OF assms True, of t] show ?thesis by simp
next
  case False
  then have "fst rb \<noteq> 0x26" "fst rb \<noteq> 0x3C" by (auto simp: xml_specials_def)
  then have "CHR ''&'' \<notin> set (snd rb) \<and> CHR ''<'' \<notin> set (snd rb)"
    using rune_bytes_plain [of "fst rb" "snd rb" s] assms by simp
  then show ?thesis
    unfolding escape_rune_other [OF False] using utf8_error_plain by (simp add: xml_unescape_plain)
qed

lemma xmlEscape_plain: "CHR ''<'' \<notin> set (xmlEscape s)"
  using escape_rune_unescape by (auto simp: xmlEscape_def)

lemma unescape_escape_runes:
  "set rbs \<subseteq> set (runes s) \<Longrightarrow>
     xml_unescape (concat (map escape_rune rbs))
     = Some (concat (map (\<lambda>rb. if isInCharacterRange (fst rb) \<and> rune_ok rb then snd rb else utf8_error) rbs))"
proof (induction rbs)
  case (Cons rb rbs)
  then have "rb \<in> set (runes s)" "set rbs \<subseteq> set (runes s)" by auto
  with Cons.IH escape_rune_unescape [of rb s "concat (map escape_rune rbs)"] show ?case by simp
qed simp

lemma unescape_xmlEscape: "xml_unescape (xmlEscape s) = Some (xml_clean s)"
  unfolding xmlEscape_def xml_clean_def by (rule unescape_escape_runes [OF order_refl])

lemma xmlEscape_Nil_iff: "xmlEscape s = [] \<longleftrightarrow> s = []"
proof
  assume e: "xmlEscape s = []"
  have "escape_rune rb \<noteq> []" if "rb \<in> set (runes s)" for rb
    using that runes_nonempty [of "fst rb" "snd rb" s] by (auto simp: escape_rune_def utf8_error_def)
  with e have "runes s = []" by (cases "runes s") (simp_all add: xmlEscape_def)
  then show "s = []" using concat_runes [of s] by simp
qed (simp add: xmlEscape_def)

section \<open>What launchd reads in the property list\<close>

definition plist_search_path :: "string \<Rightarrow> string" where
  "plist_search_path home = ''/usr/local/bin:/usr/bin:/bin:/opt/homebrew/bin:'' @ home @ ''/.local/bin:'' @ home
     @ ''/go/bin:'' @ home @ ''/.cargo/bin''"

text \<open>Every key and value of the service, with the elements it stands in, innermost first.\<close>

definition plist_settings :: "string \<Rightarrow> string \<Rightarrow> string \<Rightarrow> (string list \<times> string) list" where
  "plist_settings home bin dataDir =
     (let d = [''dict'', ''plist'']; env = ''dict'' # d in
      [(''key'' # d, ''Label''), (''string'' # d, daemonPlistLabel),
       (''key'' # d, ''ProgramArguments''), (''string'' # ''array'' # d, bin), (''string'' # ''array'' # d, ''daemon''),
       (''key'' # d, ''RunAtLoad''), (''true'' # d, []),
       (''key'' # d, ''KeepAlive''), (''true'' # d, []),
       (''key'' # d, ''StandardOutPath''), (''string'' # d, dataDir @ ''/temenos.stdout.log''),
       (''key'' # d, ''StandardErrorPath''), (''string'' # d, dataDir @ ''/temenos.stderr.log''),
       (''key'' # d, ''EnvironmentVariables''),
       (''key'' # env, ''PATH''), (''string'' # env, plist_search_path home)])"

abbreviation (input) gap :: "nat \<Rightarrow> xml_token" where
  "gap n \<equiv> XText (nl @ replicate n (CHR '' ''))"

abbreviation (input) elem :: "string \<Rightarrow> string \<Rightarrow> xml_token list" where
  "elem e x \<equiv> [XTag e, XText x, XTag (CHR ''/'' # e)]"

definition plist_tokens :: "string \<Rightarrow> string \<Rightarrow> string \<Rightarrow> xml_token list" where
  "plist_tokens home bin dataDir =
     [XTag ''?xml version=\"1.0\" encoding=\"UTF-8\"?'', gap 0,
      XTag ''!DOCTYPE plist PUBLIC \"-//Apple//DTD PLIST 1.0//EN\" \"http://www.apple.com/DTDs/PropertyList-1.0.dtd\"'',
      gap 0, XTag ''plist version=\"1.0\"'', gap 0, XTag ''dict'', gap 4]
     @ elem ''key'' ''Label'' @ [gap 4] @ elem ''string'' daemonPlistLabel @ [XText (nl @ nl @ ''    '')]
     @ elem ''key'' ''ProgramArguments'' @ [gap 4, XTag ''array'', gap 8]
     @ elem ''string'' bin @ [gap 8] @ elem ''string'' ''daemon'' @ [gap 4, XTag ''/array'', XText (nl @ nl @ ''    '')]
     @ elem ''key'' ''RunAtLoad'' @ [gap 4, XTag ''true/'', XText (nl @ nl @ ''    '')]
     @ elem ''key'' ''KeepAlive'' @ [gap 4, XTag ''true/'', XText (nl @ nl @ ''    '')]
     @ elem ''key'' ''StandardOutPath'' @ [gap 4] @ elem ''string'' (dataDir @ ''/temenos.stdout.log'')
     @ [XText (nl @ nl @ ''    '')]
     @ elem ''key'' ''StandardErrorPath'' @ [gap 4] @ elem ''string'' (dataDir @ ''/temenos.stderr.log'')
     @ [XText (nl @ nl @ ''    '')]
     @ elem ''key'' ''EnvironmentVariables'' @ [gap 4, XTag ''dict'', gap 8]
     @ elem ''key'' ''PATH'' @ [gap 8] @ elem ''string'' (plist_search_path home)
     @ [gap 4, XTag ''/dict'', gap 0, XTag ''/dict'', gap 0, XTag ''/plist'', gap 0]"

lemma plist_text_render: "plist_text home bin dataDir = xml_render (plist_tokens home (xmlEscape bin) dataDir)"
  by (simp add: plist_text_def plist_tokens_def plist_search_path_def numeral_eq_Suc)

lemma plist_tokens_ok:
  assumes "xml_plain home" "xml_plain dataDir" "bin \<noteq> []" "CHR ''<'' \<notin> set bin"
  shows "xml_tokens_ok (plist_tokens home bin dataDir)"
  using assms by (simp add: plist_tokens_def plist_search_path_def daemonPlistLabel_def xml_plain_def)

lemma plist_leaves:
  assumes "xml_plain home" "xml_plain dataDir" "xml_unescape bin = Some bin'"
  shows "xml_leaves [] (plist_tokens home bin dataDir) = Some (plist_settings home bin' dataDir)"
proof -
  have u: "xml_unescape (dataDir @ ''/temenos.stdout.log'') = Some (dataDir @ ''/temenos.stdout.log'')"
    "xml_unescape (dataDir @ ''/temenos.stderr.log'') = Some (dataDir @ ''/temenos.stderr.log'')"
    "xml_unescape (plist_search_path home) = Some (plist_search_path home)"
    using assms by (simp_all add: xml_unescape_plain' xml_plain_def plist_search_path_def)
  have gap: "list_all P (replicate n x) \<longleftrightarrow> n = 0 \<or> P x" for P n and x :: char
    by (induction n) auto
  show ?thesis
    using assms(3) u by (simp add: gap plist_tokens_def plist_settings_def daemonPlistLabel_def xml_space_def
        strings_HasSuffix_def Let_def)
qed

text \<open>
  C36. The property list that \<open>daemon install\<close> writes says what the code means it to say: read
  back as XML, it holds exactly the label, the program with its single argument \<open>daemon\<close>,
  the two flags, the two log files and the search path, each under its key, whatever bytes the
  path of the binary has. (The home and the data directory must be free of \<open><\<close> and \<open>&\<close>, since
  the code escapes the binary's path only.)
\<close>

theorem plist_reads_back:
  assumes "temenosBin \<noteq> []" and "xml_plain home" and "xml_plain dataDir"
  shows "xml_leaves [] (xml_tokens (plist_text home temenosBin dataDir))
    = Some (plist_settings home (xml_clean temenosBin) dataDir)"
proof -
  have "xml_tokens_ok (plist_tokens home (xmlEscape temenosBin) dataDir)"
    using assms plist_tokens_ok xmlEscape_plain xmlEscape_Nil_iff by metis
  then show ?thesis
    using plist_leaves [OF assms(2,3) unescape_xmlEscape] by (simp only: plist_text_render xml_tokens_render)
qed

lemma plist_reads_back_witness:
  "xml_leaves [] (xml_tokens (plist_text ''/Users/ann'' ''/opt/a<b>&c/temenos'' ''/Users/ann/.temenos''))
     = Some (plist_settings ''/Users/ann'' (xml_clean ''/opt/a<b>&c/temenos'') ''/Users/ann/.temenos'')"
  by (rule plist_reads_back) (simp_all add: xml_plain_def)

text \<open>Without the condition on the home directory the list is not even well formed.\<close>

lemma plist_home_unescaped:
  "xml_leaves [] (xml_tokens (plist_text ''/Users/a&b'' ''/bin/temenos'' ''/Users/a&b/.temenos'')) = None"
proof -
  have "xml_unescape ''/Users/a&b/.temenos/temenos.stdout.log'' = None"
    by (simp add: xml_entities_def)
  moreover have "xml_tokens_ok (plist_tokens ''/Users/a&b'' (xmlEscape ''/bin/temenos'') ''/Users/a&b/.temenos'')"
    by (simp add: plist_tokens_def plist_search_path_def daemonPlistLabel_def xmlEscape_plain xmlEscape_Nil_iff)
  moreover have gap: "list_all P (replicate n x) \<longleftrightarrow> n = 0 \<or> P x" for P n and x :: char
    by (induction n) auto
  ultimately show ?thesis
    using unescape_xmlEscape [of "''/bin/temenos''"]
    by (simp only: plist_text_render xml_tokens_render)
      (simp add: plist_tokens_def daemonPlistLabel_def xml_space_def strings_HasSuffix_def)
qed

section \<open>What the commands do to the machine\<close>

datatype service_command = SvcInstall | SvcUninstall | SvcStatus | SvcStart | SvcStop | SvcRestart

text \<open>The \<open>daemon\<close> subcommands of \<open>internal/cli/daemon.go\<close>.\<close>

definition run_service_command :: "service_command \<Rightarrow> svc_world \<Rightarrow> svc_op list \<Rightarrow> svc_result" where
  "run_service_command cmd = (case cmd of
     SvcInstall \<Rightarrow> Install | SvcUninstall \<Rightarrow> Uninstall | SvcStatus \<Rightarrow> launchd_Status
   | SvcStart \<Rightarrow> launchd_Start | SvcStop \<Rightarrow> launchd_Stop | SvcRestart \<Rightarrow> launchd_Restart)"

text \<open>Messages to the terminal and the log are left aside.\<close>

fun is_message :: "svc_op \<Rightarrow> bool" where
  "is_message (WarnLog m e) = True"
| "is_message (PrintOut m) = True"
| "is_message op = False"

definition effects :: "svc_op list \<Rightarrow> svc_op list" where
  "effects tr = filter (\<lambda>op. \<not> is_message op) tr"

lemma effects_simps [simp]:
  "effects [] = []" "effects (tr @ tr') = effects tr @ effects tr'"
  "effects (MkdirAll p m e # tr) = MkdirAll p m e # effects tr"
  "effects (StatFile p b # tr) = StatFile p b # effects tr"
  "effects (RunCommand a x out # tr) = RunCommand a x out # effects tr"
  "effects (WriteFile p c m e # tr) = WriteFile p c m e # effects tr"
  "effects (RemoveFile p r # tr) = RemoveFile p r # effects tr"
  "effects (WarnLog w out # tr) = effects tr" "effects (PrintOut w # tr) = effects tr"
  by (simp_all add: effects_def)

lemma run_command_eq:
  "run_command W args tr = (fst (sw_command W tr args), snd (sw_command W tr args),
     tr @ [RunCommand args (fst (sw_command W tr args)) (snd (sw_command W tr args))])"
  by (simp add: run_command_def split_beta)

text \<open>The operations that a service command may do, by the paths of the user it runs as.\<close>

fun service_op_ok :: "svc_world \<Rightarrow> svc_op \<Rightarrow> bool" where
  "service_op_ok W (MkdirAll p m e) =
     (case os_UserHomeDir (sw_host W) of None \<Rightarrow> False
      | Some home \<Rightarrow> p = filepath_Join [home, ''.temenos''] \<and> m = mode_0755)"
| "service_op_ok W (StatFile p b) =
     (case os_UserHomeDir (sw_host W) of None \<Rightarrow> False | Some home \<Rightarrow> p = plist_path home)"
| "service_op_ok W (WriteFile p c m e) =
     (case os_UserHomeDir (sw_host W) of None \<Rightarrow> False | Some home \<Rightarrow> p = plist_path home \<and> m = mode_0600)"
| "service_op_ok W (RemoveFile p r) =
     (case os_UserHomeDir (sw_host W) of None \<Rightarrow> False
      | Some home \<Rightarrow> p = plist_path home \<or> DefaultSocketPath (sw_host W) = Some p)"
| "service_op_ok W (RunCommand args e out) =
     (case args of c # verb # rest \<Rightarrow> c = ''launchctl''
        \<and> (if verb = ''list'' then rest = [daemonPlistLabel]
           else if verb = ''bootout'' then rest = [gui_target W]
           else if verb = ''kickstart'' then rest = [''-k'', gui_target W]
           else verb = ''bootstrap'' \<and> (case os_UserHomeDir (sw_host W) of None \<Rightarrow> False
                                       | Some home \<Rightarrow> rest = [gui_domain W, plist_path home]))
      | _ \<Rightarrow> False)"
| "service_op_ok W (WarnLog m e) = True"
| "service_op_ok W (PrintOut m) = True"

lemma service_command_confined:
  assumes "list_all (service_op_ok W) tr"
  shows "list_all (service_op_ok W) (snd (run_service_command cmd W tr))"
proof -
  have inst: "list_all (service_op_ok W) (snd (installDaemonPlist W home bin d tr))"
    if "os_UserHomeDir (sw_host W) = Some home" "list_all (service_op_ok W) tr" for home bin d tr
    using that by (simp add: installDaemonPlist_def run_command_eq Let_def split: option.split)
  have sock: "list_all (service_op_ok W) (snd (uninstall_socket W tr))"
    if "os_UserHomeDir (sw_host W) = Some home" "list_all (service_op_ok W) tr" for home tr
    using that by (simp add: uninstall_socket_def Let_def split: option.split)
  show ?thesis
    using assms
    by (cases cmd; simp add: run_service_command_def Install_def Uninstall_def launchd_Status_def launchd_Start_def
        launchd_Stop_def launchd_Restart_def run_command_eq Let_def inst sock
        split: option.split cmd_error.split remove_result.split)
qed

lemma installDaemonPlist_effects:
  assumes "installDaemonPlist W home bin dataDir tr0 = (Inr (), tr)"
  shows "\<exists>e out out'. effects tr = effects tr0 @
    [RunCommand [''launchctl'', ''bootout'', gui_target W] e out,
     WriteFile (plist_path home) (plist_text home bin dataDir) mode_0600 None,
     RunCommand [''launchctl'', ''bootstrap'', gui_domain W, plist_path home] None out']"
proof -
  let ?boot = "[''launchctl'', ''bootout'', gui_target W]"
  obtain e out where c: "sw_command W tr0 ?boot = (e, out)" by (cases "sw_command W tr0 ?boot")
  define tr2 where "tr2 = (if e \<noteq> None \<and> \<not> bootout_absent (strings_TrimSpace out)
      then (tr0 @ [RunCommand ?boot e out]) @ [WarnLog ''pre-install bootout failed'' (strings_TrimSpace out)]
      else tr0 @ [RunCommand ?boot e out])"
  have e2: "effects tr2 = effects tr0 @ [RunCommand ?boot e out]" by (simp add: tr2_def)
  have u: "installDaemonPlist W home bin dataDir tr0 =
      (case sw_write W tr2 (plist_path home) (plist_text home bin dataDir) of
         Some x \<Rightarrow> (Inl (FileError x),
            tr2 @ [WriteFile (plist_path home) (plist_text home bin dataDir) mode_0600 (Some x)])
       | None \<Rightarrow>
          (let (err2, out2, tr4) = run_command W [''launchctl'', ''bootstrap'', gui_domain W, plist_path home]
                 (tr2 @ [WriteFile (plist_path home) (plist_text home bin dataDir) mode_0600 None])
           in case err2 of Some y \<Rightarrow> (Inl (LaunchctlFailed ''bootstrap'' y (strings_TrimSpace out2)), tr4)
              | None \<Rightarrow> (Inr (), tr4 @
                   [PrintOut (''Daemon plist installed: '' @ plist_path home @ nl),
                    PrintOut (''Logs: '' @ dataDir @ ''/temenos.stdout.log'' @ nl)])))"
    unfolding tr2_def
    by (simp add: installDaemonPlist_def run_command_def c Let_def split del: if_split split: option.split)
  have w: "sw_write W tr2 (plist_path home) (plist_text home bin dataDir) = None"
    using assms u by (simp split: option.splits)
  obtain e4 o4 tr4 where r: "run_command W [''launchctl'', ''bootstrap'', gui_domain W, plist_path home]
      (tr2 @ [WriteFile (plist_path home) (plist_text home bin dataDir) mode_0600 None]) = (e4, o4, tr4)"
    by (metis prod_cases3)
  have "e4 = None \<and> tr = tr4 @ [PrintOut (''Daemon plist installed: '' @ plist_path home @ nl),
                    PrintOut (''Logs: '' @ dataDir @ ''/temenos.stdout.log'' @ nl)]"
    using assms unfolding u w option.case r Let_def prod.case by (cases e4) simp_all
  with r e2 show ?thesis by (auto simp: run_command_eq)
qed

text \<open>
  C37. An installation that succeeds has done exactly these things, in this order: it made
  \<open>~/.temenos\<close>, booted the old service out, wrote the property list for the binary found on the
  search path with mode 0600, and only then bootstrapped the service from that file, which
  launchctl accepted.
\<close>

theorem install_order:
  assumes "Install W [] = (Inr (), tr)"
  shows "\<exists>bin home dataDir e out out'.
      sw_LookPath W ''temenos'' = Some bin \<and> os_UserHomeDir (sw_host W) = Some home
      \<and> dataDir = filepath_Join [home, ''.temenos'']
      \<and> effects tr =
          [MkdirAll dataDir mode_0755 None,
           RunCommand [''launchctl'', ''bootout'', gui_target W] e out,
           WriteFile (plist_path home) (plist_text home bin dataDir) mode_0600 None,
           RunCommand [''launchctl'', ''bootstrap'', gui_domain W, plist_path home] None out']"
proof -
  from assms obtain bin home where b: "sw_LookPath W ''temenos'' = Some bin" "os_UserHomeDir (sw_host W) = Some home"
    by (simp add: Install_def split: option.splits)
  define dataDir where "dataDir = filepath_Join [home, ''.temenos'']"
  have m: "sw_mkdir W [] dataDir = None"
    "installDaemonPlist W home bin dataDir [MkdirAll dataDir mode_0755 None] = (Inr (), tr)"
    using assms b by (simp_all add: Install_def Let_def dataDir_def del: filepath_Join.simps split: option.splits)
  with b installDaemonPlist_effects [OF m(2)] dataDir_def show ?thesis by auto
qed

definition sample_svc :: svc_world where
  "sample_svc = \<lparr>sw_host = \<lparr>getenv = (\<lambda>k. if k = ''HOME'' then ''/Users/ann'' else []), user_home = Some ''/Users/ann'',
       stat_path = (\<lambda>p. Stat_not_exist), goos = ''darwin'', temp_dir = ''/tmp''\<rparr>,
     sw_uid = 501, sw_LookPath = (\<lambda>n. Some ''/usr/local/bin/temenos''), sw_mkdir = (\<lambda>tr p. None), sw_stat = (\<lambda>tr p. True),
     sw_command = (\<lambda>tr args. if args ! 1 = ''bootout'' then (Some (CmdError ''exit status 13''), ''Boot-out failed: 13: Permission denied'' @ nl)
                             else (None, [])),
     sw_write = (\<lambda>tr p c. None), sw_remove = (\<lambda>tr p. RemoveNotExist)\<rparr>"

lemma install_order_witness:
  "\<exists>bin home dataDir e out out'.
      sw_LookPath sample_svc ''temenos'' = Some bin \<and> os_UserHomeDir (sw_host sample_svc) = Some home
      \<and> dataDir = filepath_Join [home, ''.temenos'']
      \<and> effects (snd (Install sample_svc [])) =
          [MkdirAll dataDir mode_0755 None,
           RunCommand [''launchctl'', ''bootout'', gui_target sample_svc] e out,
           WriteFile (plist_path home) (plist_text home bin dataDir) mode_0600 None,
           RunCommand [''launchctl'', ''bootstrap'', gui_domain sample_svc, plist_path home] None out']"
proof (rule install_order)
  show "Install sample_svc [] = (Inr (), snd (Install sample_svc []))"
    by (simp add: Install_def installDaemonPlist_def run_command_def Let_def sample_svc_def os_UserHomeDir_def)
qed

text \<open>
  No service command touches anything but the service: the directories made are
  \<open>~/.temenos\<close>, the only file written or looked for is the user's property list of the daemon, with
  mode 0600, the only files removed are that list and the daemon's socket, and the only programs
  started are \<open>launchctl\<close> calls on this service, each with the fixed arguments of its verb.
\<close>

theorem service_confined:
  "list_all (service_op_ok W) (snd (run_service_command cmd W []))"
  by (rule service_command_confined) simp

lemma uninstall_socket_effects:
  assumes "uninstall_socket W tr = (res, tr')"
  shows "\<exists>rest. effects tr' = effects tr @ rest \<and> length rest \<le> 1"
  using assms by (auto simp: uninstall_socket_def Let_def split: option.splits)

text \<open>A successful removal: the service is booted out before its list is removed.\<close>

lemma uninstall_order:
  assumes "Uninstall W [] = (Inr (), tr)" "os_UserHomeDir (sw_host W) = Some home" "sw_stat W [] (plist_path home)"
  shows "\<exists>e out r rest. effects tr =
      [StatFile (plist_path home) True, RunCommand [''launchctl'', ''bootout'', gui_target W] e out,
       RemoveFile (plist_path home) r] @ rest
    \<and> (r = Removed \<or> r = RemoveNotExist) \<and> length rest \<le> 1"
proof -
  let ?tr0 = "[StatFile (plist_path home) True]"
  let ?boot = "[''launchctl'', ''bootout'', gui_target W]"
  obtain e out where c: "sw_command W ?tr0 ?boot = (e, out)" by (cases "sw_command W ?tr0 ?boot")
  define tr2 where "tr2 = (if e \<noteq> None \<and> \<not> bootout_absent (strings_TrimSpace out)
      then (?tr0 @ [RunCommand ?boot e out]) @ [WarnLog ''launchctl bootout failed during uninstall'' (strings_TrimSpace out)]
      else ?tr0 @ [RunCommand ?boot e out])"
  have e2: "effects tr2 = ?tr0 @ [RunCommand ?boot e out]" by (simp add: tr2_def)
  define r where "r = sw_remove W tr2 (plist_path home)"
  have u: "Uninstall W [] = (case r of RemoveFailed x \<Rightarrow> (Inl (RemovePlistFailed (plist_path home) x), tr2 @ [RemoveFile (plist_path home) r])
      | _ \<Rightarrow> uninstall_socket W ((tr2 @ [RemoveFile (plist_path home) r])
          @ [PrintOut (''Removed daemon plist: '' @ plist_path home @ nl)]))"
    by (cases e; cases "bootout_absent (strings_TrimSpace out)")
      (simp_all add: Uninstall_def run_command_def assms(2,3) c Let_def r_def tr2_def
        cong del: remove_result.case_cong_weak)
  have r: "r = Removed \<or> r = RemoveNotExist" using assms(1) u by (cases r) auto
  then have "uninstall_socket W ((tr2 @ [RemoveFile (plist_path home) r])
      @ [PrintOut (''Removed daemon plist: '' @ plist_path home @ nl)]) = (Inr (), tr)"
    using assms(1) u by (elim disjE) simp_all
  from uninstall_socket_effects [OF this] obtain rest where "effects tr = effects tr2 @ [RemoveFile (plist_path home) r] @ rest" "length rest \<le> 1"
    by auto
  with e2 r show ?thesis by auto
qed

text \<open>The daemon goes on running, and \<open>daemon stop\<close> says that it was not.\<close>

lemma stop_hides_permission_error:
  "\<exists>tr. launchd_Stop sample_svc [] = (Inr (), tr) \<and> PrintOut (''Daemon not running'' @ nl) \<in> set tr"
  by (simp add: launchd_Stop_def run_command_def Let_def sample_svc_def)
    (code_simp)

end
