(* ===== verification/Status.thy ===== *)
theory Status
  imports Cgroup
begin

text \<open>
  The diagnostics behind \<open>temenos doctor\<close>: \<open>sandbox/status.go\<close> and the variants of
  \<open>sandbox/cgroup_stub.go\<close> for other platforms. The probes read the cgroup file system of
  the theory \<open>Cgroup\<close>; the text of a read error is a parameter.
\<close>

section \<open>Definitions\<close>

record Check =
  Name :: string
  OK :: bool
  Detail :: string
  Remediation :: string

record Status =
  Ready :: bool
  Checks :: "Check list"

definition initLeafRemediation :: string where
  "initLeafRemediation = ''init-leaf migration requires a cgroup v2 environment; check daemon startup logs''"

definition memoryDelRemediation :: string where
  "memoryDelRemediation = ''memory controller not delegated to pod cgroup; ''
     @ ''set runtimeClassName: cgroup-writable on the pod ''
     @ ''(or equivalent containerd cgroup_writable config)''"

definition procOne :: string where
  "procOne = ''/proc/1/cgroup''"

text \<open>\<open>oserr\<close> renders the error of reading a path. \<open>Inl\<close> carries \<open>err.Error()\<close>.\<close>

definition readProc1CgroupPath :: "(string \<Rightarrow> string) \<Rightarrow> cg_host \<Rightarrow> string + string" where
  "readProc1CgroupPath oserr H =
     (case cg_read H procOne of
        None \<Rightarrow> Inl (''cannot read /proc/1/cgroup: '' @ oserr procOne)
      | Some dat \<Rightarrow>
          let line = strings_TrimSpace dat in
          if \<not> strings_HasPrefix line ''0::'' then Inl (''unexpected /proc/1/cgroup format: '' @ line)
          else Inr (strings_TrimPrefix line ''0::''))"

fun all_ok :: "Check list \<Rightarrow> bool \<Rightarrow> bool" where
  "all_ok [] ready = ready"
| "all_ok (c # cs) ready = all_ok cs (if \<not> OK c then False else ready)"

definition NewStatus :: "Check list \<Rightarrow> Status" where
  "NewStatus checks = \<lparr>Ready = all_ok checks True, Checks = checks\<rparr>"

definition checkK8sPodImpl :: "cg_host \<Rightarrow> Check" where
  "checkK8sPodImpl H =
     (if inK8sPod H
      then \<lparr>Name = ''k8s_pod'', OK = True, Detail = ''KUBERNETES_SERVICE_HOST set'', Remediation = []\<rparr>
      else \<lparr>Name = ''k8s_pod'', OK = False, Detail = [],
             Remediation = ''temenos requires running inside a Kubernetes pod with cgroup v2''\<rparr>)"

definition checkCgroupV2MountedImpl :: "cg_host \<Rightarrow> Check" where
  "checkCgroupV2MountedImpl H =
     (if cg_stat H ''/sys/fs/cgroup/cgroup.controllers''
      then \<lparr>Name = ''cgroup_v2'', OK = True, Detail = cgroupRoot, Remediation = []\<rparr>
      else \<lparr>Name = ''cgroup_v2'', OK = False, Detail = [],
             Remediation = ''mount cgroup v2 (systemd.unified_cgroup_hierarchy=1 or kernel cmdline equivalent)''\<rparr>)"

definition not_in_pod :: string where
  "not_in_pod = ''not running in a Kubernetes pod (KUBERNETES_SERVICE_HOST not set)''"

definition checkInitLeafImpl :: "(string \<Rightarrow> string) \<Rightarrow> cg_host \<Rightarrow> Check" where
  "checkInitLeafImpl oserr H =
     (if \<not> OK (checkK8sPodImpl H)
      then \<lparr>Name = ''init_leaf'', OK = False, Detail = not_in_pod, Remediation = initLeafRemediation\<rparr>
      else case readProc1CgroupPath oserr H of
        Inl e \<Rightarrow> \<lparr>Name = ''init_leaf'', OK = False, Detail = e, Remediation = initLeafRemediation\<rparr>
      | Inr path \<Rightarrow>
          if strings_HasSuffix path ''/init'' \<or> path = ''/init''
          then \<lparr>Name = ''init_leaf'', OK = True, Detail = ''PID 1 cgroup: '' @ path, Remediation = []\<rparr>
          else \<lparr>Name = ''init_leaf'', OK = False,
                 Detail = ''PID 1 cgroup: '' @ path @ '' (does not end in /init)'',
                 Remediation = initLeafRemediation\<rparr>)"

definition checkMemoryDelegatedImpl :: "(string \<Rightarrow> string) \<Rightarrow> cg_host \<Rightarrow> Check" where
  "checkMemoryDelegatedImpl oserr H =
     (let bad = (\<lambda>d. \<lparr>Name = ''memory_delegated'', OK = False, Detail = d, Remediation = memoryDelRemediation\<rparr>) in
      if \<not> OK (checkK8sPodImpl H) then bad not_in_pod
      else case readProc1CgroupPath oserr H of
        Inl e \<Rightarrow> bad e
      | Inr path \<Rightarrow>
          (let parent = strings_TrimSuffix path ''/init'';
               subtreeCtrlPath = cgroupRoot @ parent @ ''/cgroup.subtree_control''
           in case cg_read H subtreeCtrlPath of
                None \<Rightarrow> bad (''cannot read '' @ subtreeCtrlPath @ '': '' @ oserr subtreeCtrlPath)
              | Some content \<Rightarrow>
                  if strings_Contains content ''memory''
                  then \<lparr>Name = ''memory_delegated'', OK = True,
                         Detail = ''memory in cgroup.subtree_control at '' @ subtreeCtrlPath, Remediation = []\<rparr>
                  else bad (''memory not in cgroup.subtree_control at '' @ subtreeCtrlPath)))"

definition CurrentStatus :: "(string \<Rightarrow> string) \<Rightarrow> cg_host \<Rightarrow> Status" where
  "CurrentStatus oserr H =
     (let checks = [checkK8sPodImpl H, checkCgroupV2MountedImpl H, checkInitLeafImpl oserr H,
                    checkMemoryDelegatedImpl oserr H]
      in \<lparr>Ready = all_ok checks True, Checks = checks\<rparr>)"

definition stub_CurrentStatus :: Status where
  "stub_CurrentStatus = \<lparr>Ready = False, Checks = [\<lparr>Name = ''platform'', OK = False, Detail = ''non-Linux'',
     Remediation = ''temenos cgroup v2 sandbox requires Linux''\<rparr>]\<rparr>"

text \<open>The rest of the stub: what the calls of the other platforms give.\<close>

definition stub_setupInitLeaf :: "string + unit" where
  "stub_setupInitLeaf = Inl ''setupInitLeaf: requires Linux''"

definition stub_cgroupAvailable :: bool where
  "stub_cgroupAvailable = False"

definition stub_inK8sPod :: bool where
  "stub_inK8sPod = False"

definition stub_NewStatus :: "Check list \<Rightarrow> Status" where
  "stub_NewStatus checks = \<lparr>Ready = all_ok checks True, Checks = checks\<rparr>"

definition stub_Status_String :: "Status \<Rightarrow> string" where
  "stub_Status_String s = ''temenos doctor: not available on this platform''"

text \<open>The check mark, the cross and the arrow in UTF-8.\<close>

definition check_mark :: string where "check_mark = [CHR 0xE2, CHR 0x9C, CHR 0x93]"
definition cross_mark :: string where "cross_mark = [CHR 0xE2, CHR 0x9C, CHR 0x97]"
definition arrow_mark :: string where "arrow_mark = [CHR 0xE2, CHR 0x86, CHR 0x92]"

fun check_lines :: "Check list \<Rightarrow> string" where
  "check_lines [] = []"
| "check_lines (c # cs) =
     (if OK c then check_mark @ '' '' @ Name c @ '': '' @ Detail c @ nl
      else cross_mark @ '' '' @ Name c @ '': '' @ Detail c @ nl
        @ (if Remediation c \<noteq> [] then ''  '' @ arrow_mark @ '' '' @ Remediation c @ nl else []))
     @ check_lines cs"

definition Status_String :: "Status \<Rightarrow> string" where
  "Status_String s = check_lines (Checks s) @ (if Ready s then ''ready: yes'' else ''ready: no'')"

section \<open>Readiness\<close>

lemma all_ok_iff: "all_ok cs b \<longleftrightarrow> b \<and> (\<forall>c \<in> set cs. OK c)"
  by (induction cs arbitrary: b) auto

text \<open>
  The memory controller is delegated where the parent of PID 1's leaf has it in its
  \<open>cgroup.subtree_control\<close>, which is where \<open>runInitLeafAt\<close> writes it.
\<close>

definition memory_delegated :: "cg_host \<Rightarrow> string \<Rightarrow> bool" where
  "memory_delegated H path \<longleftrightarrow>
     (\<exists>content. cg_read H (cgroupRoot @ strings_TrimSuffix path ''/init'' @ ''/cgroup.subtree_control'') = Some content
        \<and> strings_Contains content ''memory'')"

lemma stub_status: "stub_NewStatus (Checks stub_CurrentStatus) = stub_CurrentStatus \<and> \<not> Ready stub_CurrentStatus"
  by (simp add: stub_NewStatus_def stub_CurrentStatus_def)

lemma checkInitLeaf_OK:
  "OK (checkInitLeafImpl oserr H) \<longleftrightarrow>
     inK8sPod H \<and> (\<exists>path. readProc1CgroupPath oserr H = Inr path \<and> strings_HasSuffix path ''/init'')"
  by (auto simp: checkInitLeafImpl_def checkK8sPodImpl_def strings_HasSuffix_def split: sum.split)

lemma checkMemoryDelegated_OK:
  "OK (checkMemoryDelegatedImpl oserr H) \<longleftrightarrow>
     inK8sPod H \<and> (\<exists>path. readProc1CgroupPath oserr H = Inr path \<and> memory_delegated H path)"
  by (auto simp: checkMemoryDelegatedImpl_def checkK8sPodImpl_def memory_delegated_def Let_def
      split: sum.split option.split)

lemma CurrentStatus_Ready:
  "Ready (CurrentStatus oserr H) \<longleftrightarrow>
     inK8sPod H \<and> cg_stat H ''/sys/fs/cgroup/cgroup.controllers''
     \<and> (\<exists>path. readProc1CgroupPath oserr H = Inr path \<and> strings_HasSuffix path ''/init'' \<and> memory_delegated H path)"
proof -
  have "OK (checkK8sPodImpl H) \<longleftrightarrow> inK8sPod H"
    "OK (checkCgroupV2MountedImpl H) \<longleftrightarrow> cg_stat H ''/sys/fs/cgroup/cgroup.controllers''"
    by (simp_all add: checkK8sPodImpl_def checkCgroupV2MountedImpl_def)
  then show ?thesis
    by (auto simp: CurrentStatus_def all_ok_iff checkInitLeaf_OK checkMemoryDelegated_OK)
qed

end
