(* ===== verification/Cli.thy ===== *)
theory Cli
  imports Http Launchd Status
begin

text \<open>
  The command line: the \<open>job\<close>, \<open>doctor\<close> and \<open>daemon\<close> commands of \<open>internal/cli\<close> and the
  exit status of \<open>main\<close>, put together in the command tree. Matching the arguments to a command
  and its flags is the library's; a command is a function of its flags, of the client's calls or of the platform's diagnostics, and yields what it prints and
  its error. \<open>tabwriter\<close> is a parameter.
\<close>

section \<open>Commands\<close>

text \<open>What a command leaves: its standard output and its error, \<open>None\<close> where it returns nil.\<close>

record 'e outcome =
  stdout_text :: string
  failure :: "'e option"

definition printed :: "string \<Rightarrow> 'e outcome" where
  "printed t = \<lparr>stdout_text = t, failure = None\<rparr>"

definition fails :: "'e \<Rightarrow> 'e outcome" where
  "fails e = \<lparr>stdout_text = [], failure = Some e\<rparr>"

section \<open>The job subcommands\<close>

text \<open>The command column of \<open>job list\<close>.\<close>

definition list_column :: "string \<Rightarrow> string" where
  "list_column cmd = (if length cmd > 40 then take 37 cmd @ ''...'' else cmd)"

abbreviation (input) tab :: string where "tab \<equiv> [CHR 0x09]"

definition job_header :: string where
  "job_header = ''ID'' @ tab @ ''COMMAND'' @ tab @ ''STATUS'' @ tab @ ''STARTED''"

definition job_row :: "client_JobInfo \<Rightarrow> string" where
  "job_row j = cji_ID j @ tab @ list_column (cji_Command j) @ tab @ cji_Status j @ tab @ cji_StartedAt j"

text \<open>What is written to the \<open>tabwriter\<close>.\<close>

definition job_table :: "client_JobInfo list \<Rightarrow> string" where
  "job_table js = job_header @ nl @ concat (map (\<lambda>j. job_row j @ nl) js)"

text \<open>\<open>connect\<close> is \<open>client.New\<close> with the empty address; \<open>list\<close> is \<open>c.ListJobs\<close>.\<close>

definition jobListCmd :: "client_error + Client \<Rightarrow> (Client \<Rightarrow> string \<Rightarrow> string \<Rightarrow> client_error + client_JobInfo list) \<Rightarrow>
    (string \<Rightarrow> string) \<Rightarrow> string \<Rightarrow> string \<Rightarrow> client_error outcome" where
  "jobListCmd connect list tabwriter stat caller =
     (case connect of Inl e \<Rightarrow> fails e
      | Inr c \<Rightarrow>
          (case list c caller stat of Inl e \<Rightarrow> fails e
           | Inr js \<Rightarrow> if js = [] then printed (''no jobs found'' @ nl) else printed (tabwriter (job_table js))))"

definition job_log :: "client_JobInfo \<Rightarrow> string" where
  "job_log job =
     (if cji_Stdout job \<noteq> [] then ''[stdout]'' @ nl @ cji_Stdout job @ nl else [])
     @ (if cji_Stderr job \<noteq> [] then ''[stderr]'' @ nl @ cji_Stderr job @ nl else [])
     @ (if cji_Status job = ''completed'' \<or> cji_Status job = ''killed''
        then ''(exit code: '' @ fmt_int (cji_ExitCode job) @ '', status: '' @ cji_Status job @ '')'' @ nl
        else ''(status: '' @ cji_Status job @ '')'' @ nl)"

definition jobLogCmd :: "client_error + Client \<Rightarrow> (Client \<Rightarrow> string \<Rightarrow> client_error + client_JobInfo) \<Rightarrow> string \<Rightarrow>
    client_error outcome" where
  "jobLogCmd connect get ident =
     (case connect of Inl e \<Rightarrow> fails e
      | Inr c \<Rightarrow> (case get c ident of Inl e \<Rightarrow> fails e | Inr job \<Rightarrow> printed (job_log job)))"

definition jobKillCmd :: "client_error + Client \<Rightarrow> (Client \<Rightarrow> string \<Rightarrow> client_error + client_JobInfo) \<Rightarrow> string \<Rightarrow>
    client_error outcome" where
  "jobKillCmd connect kill ident =
     (case connect of Inl e \<Rightarrow> fails e
      | Inr c \<Rightarrow>
          (case kill c ident of Inl e \<Rightarrow> fails e
           | Inr job \<Rightarrow> printed (''killed job '' @ cji_ID job @ '' ('' @ cji_Command job @ '')'' @ nl)))"

section \<open>Diagnostics\<close>

definition encode_Check :: "Check \<Rightarrow> json" where
  "encode_Check c = JObj
     ([(''name'', JStr (Name c)), (''ok'', JBool (OK c))]
      @ omit (Detail c = []) ''detail'' (JStr (Detail c))
      @ omit (Remediation c = []) ''remediation'' (JStr (Remediation c)))"

definition encode_Status :: "Status \<Rightarrow> json" where
  "encode_Status s = JObj [(''ready'', JBool (Ready s)), (''checks'', JArr (map encode_Check (Checks s)))]"

datatype doctor_error = DoctorWriteFailed string | SandboxNotReady

text \<open>\<open>write\<close> is the outcome of writing to the command's output.\<close>

definition doctorCmd :: "(Status \<Rightarrow> string) \<Rightarrow> (string \<Rightarrow> string option) \<Rightarrow> bool \<Rightarrow> Status \<Rightarrow>
    doctor_error outcome" where
  "doctorCmd show write as_json s =
     (let t = (if as_json then json_indented 0 (encode_Status s) else show s) @ nl in
      case write t of Some e \<Rightarrow> fails (DoctorWriteFailed e)
      | None \<Rightarrow> \<lparr>stdout_text = t, failure = (if \<not> Ready s then Some SandboxNotReady else None)\<rparr>)"

text \<open>The diagnostics and their text, by platform.\<close>

definition platform_Status :: "string \<Rightarrow> (string \<Rightarrow> string) \<Rightarrow> cg_host \<Rightarrow> Status" where
  "platform_Status os oserr H = (if os = ''linux'' then CurrentStatus oserr H else stub_CurrentStatus)"

definition platform_Status_String :: "string \<Rightarrow> Status \<Rightarrow> string" where
  "platform_Status_String os = (if os = ''linux'' then Status_String else stub_Status_String)"

section \<open>The daemon\<close>

text \<open>
  \<open>temenos daemon\<close>, with the value of \<open>--cgroupv2-memory-limit\<close>, and what ends its wait. The
  subcommands that manage the service are \<open>run_service_command\<close>.
\<close>

definition daemonCmd :: "daemon_host \<Rightarrow> go_int \<Rightarrow> cg_state \<Rightarrow> (duration \<Rightarrow> string option) \<Rightarrow> wait_end \<Rightarrow>
    daemon_exit outcome" where
  "daemonCmd D memMB cg shutdown ev = \<lparr>stdout_text = [], failure = fst (daemon_main D memMB cg shutdown ev)\<rparr>"

section \<open>The process\<close>

text \<open>\<open>main\<close>: the error goes to standard error and the exit status is 1.\<close>

definition main_exit :: "('e \<Rightarrow> string) \<Rightarrow> 'e outcome \<Rightarrow> nat \<times> string" where
  "main_exit render r = (case failure r of None \<Rightarrow> (0, []) | Some e \<Rightarrow> (1, render e @ nl))"

section \<open>The command tree\<close>

text \<open>
  The commands as \<open>internal/cli\<close> registers them with the command-line library: a use line, an
  action, local and persistent flags with their defaults, the number of arguments where it is
  fixed, and subcommands. \<open>rootCmd\<close> is what the \<open>init\<close> functions leave, which run in the order
  of the file names.
\<close>

datatype action = A_none | A_daemon | A_service service_command | A_doctor | A_job_list | A_job_log | A_job_kill

record flag =
  fl_name :: string
  fl_short :: string
  fl_default :: string

datatype command_tree =
  Command (cmd_use: string) (cmd_action: action) (cmd_flags: "flag list") (cmd_persistent: "flag list")
    (cmd_exact: "nat option") (cmd_subs: "command_tree list")

fun AddCommand :: "command_tree \<Rightarrow> command_tree \<Rightarrow> command_tree" where
  "AddCommand (Command u a fs ps n subs) c = Command u a fs ps n (subs @ [c])"

definition service_subcommand :: "string \<Rightarrow> service_command \<Rightarrow> command_tree" where
  "service_subcommand u svc = Command u (A_service svc) [] [] None []"

definition cli_daemonCmd :: command_tree where
  "cli_daemonCmd = foldl AddCommand
     (Command ''daemon'' A_daemon []
        [\<lparr>fl_name = ''cgroupv2-memory-limit'', fl_short = ''m'', fl_default = ''0''\<rparr>] None [])
     [service_subcommand ''install'' SvcInstall, service_subcommand ''uninstall'' SvcUninstall,
      service_subcommand ''status'' SvcStatus, service_subcommand ''start'' SvcStart,
      service_subcommand ''stop'' SvcStop, service_subcommand ''restart'' SvcRestart]"

definition cli_doctorCmd :: command_tree where
  "cli_doctorCmd = Command ''doctor'' A_doctor
     [\<lparr>fl_name = ''json'', fl_short = [], fl_default = ''false''\<rparr>] [] None []"

definition cli_jobCmd :: command_tree where
  "cli_jobCmd = foldl AddCommand (Command ''job'' A_none [] [] None [])
     [Command ''list'' A_job_list
        [\<lparr>fl_name = ''status'', fl_short = ''s'', fl_default = ''running''\<rparr>,
         \<lparr>fl_name = ''caller-id'', fl_short = ''c'', fl_default = []\<rparr>] [] None [],
      Command ''log <id>'' A_job_log [] [] (Some 1) [],
      Command ''kill <id>'' A_job_kill [] [] (Some 1) []]"

definition rootCmd :: command_tree where
  "rootCmd = foldl AddCommand (Command ''temenos'' A_none [] [] None []) [cli_daemonCmd, cli_doctorCmd, cli_jobCmd]"

text \<open>The name of a command is the first word of its use line; a path of names leads to a command.\<close>

definition cmd_name :: "command_tree \<Rightarrow> string" where
  "cmd_name c = takeWhile (\<lambda>x. x \<noteq> CHR '' '') (cmd_use c)"

fun find_command :: "command_tree \<Rightarrow> string list \<Rightarrow> command_tree option" where
  "find_command c [] = Some c"
| "find_command c (w # ws) =
     (case List.find (\<lambda>s. cmd_name s = w) (cmd_subs c) of None \<Rightarrow> None | Some s \<Rightarrow> find_command s ws)"

fun flag_default :: "flag list \<Rightarrow> string \<Rightarrow> string" where
  "flag_default [] n = []"
| "flag_default (f # fs) n = (if fl_name f = n then fl_default f else flag_default fs n)"

text \<open>
  The library's parser, a parameter: from the tree and the arguments an error or what to run, with
  the values of the flags. Of it is only used that a path of names with the right number of
  arguments, none of which starts with a dash, runs that command with the defaults of its flags.
\<close>

record invocation =
  iv_action :: action
  iv_flag :: "string \<Rightarrow> string"
  iv_args :: "string list"

type_synonym cobra = "command_tree \<Rightarrow> string list \<Rightarrow> string + invocation"

definition cobra_documented :: "cobra \<Rightarrow> bool" where
  "cobra_documented C \<longleftrightarrow>
     (\<forall>path args c. find_command rootCmd path = Some c \<longrightarrow> cmd_action c \<noteq> A_none \<longrightarrow>
        length args = (case cmd_exact c of None \<Rightarrow> 0 | Some n \<Rightarrow> n) \<longrightarrow>
        list_all (\<lambda>a. \<not> strings_HasPrefix a ''-'') (path @ args) \<longrightarrow>
        C rootCmd (path @ args) = Inr \<lparr>iv_action = cmd_action c,
          iv_flag = flag_default (cmd_flags c @ cmd_persistent c), iv_args = args\<rparr>)"

text \<open>What the commands work on: the client's calls, the platform, the service manager, the daemon.\<close>

record cli_world =
  cw_connect :: "client_error + Client"
  cw_list :: "Client \<Rightarrow> string \<Rightarrow> string \<Rightarrow> client_error + client_JobInfo list"
  cw_get :: "Client \<Rightarrow> string \<Rightarrow> client_error + client_JobInfo"
  cw_kill :: "Client \<Rightarrow> string \<Rightarrow> client_error + client_JobInfo"
  cw_tabwriter :: "string \<Rightarrow> string"
  cw_client_error :: "client_error \<Rightarrow> string"
  cw_show :: "Status \<Rightarrow> string"
  cw_write :: "string \<Rightarrow> string option"
  cw_status :: Status
  cw_doctor_error :: "doctor_error \<Rightarrow> string"
  cw_service :: svc_world
  cw_service_error :: "svc_error \<Rightarrow> string"
  cw_daemon :: "go_int \<Rightarrow> daemon_exit outcome"
  cw_daemon_error :: "daemon_exit \<Rightarrow> string"
  cw_atoi :: "string \<Rightarrow> go_int"

definition service_outcome :: "svc_result \<Rightarrow> svc_error outcome" where
  "service_outcome r =
     \<lparr>stdout_text = concat (List.map_filter (\<lambda>op. case op of PrintOut m \<Rightarrow> Some m | _ \<Rightarrow> None) (snd r)),
      failure = (case fst r of Inl e \<Rightarrow> Some e | Inr _ \<Rightarrow> None)\<rparr>"

text \<open>Exit status, standard error and standard output of a command.\<close>

definition exit_of :: "('e \<Rightarrow> string) \<Rightarrow> 'e outcome \<Rightarrow> (nat \<times> string) \<times> string" where
  "exit_of render r = (main_exit render r, stdout_text r)"

definition run_action :: "cli_world \<Rightarrow> invocation \<Rightarrow> (nat \<times> string) \<times> string" where
  "run_action w iv =
     (case iv_action iv of
        A_none \<Rightarrow> ((0, []), [])
      | A_daemon \<Rightarrow> exit_of (cw_daemon_error w) (cw_daemon w (cw_atoi w (iv_flag iv ''cgroupv2-memory-limit'')))
      | A_service svc \<Rightarrow>
          exit_of (cw_service_error w) (service_outcome (run_service_command svc (cw_service w) []))
      | A_doctor \<Rightarrow> exit_of (cw_doctor_error w)
          (doctorCmd (cw_show w) (cw_write w) (iv_flag iv ''json'' = ''true'') (cw_status w))
      | A_job_list \<Rightarrow> exit_of (cw_client_error w)
          (jobListCmd (cw_connect w) (cw_list w) (cw_tabwriter w) (iv_flag iv ''status'') (iv_flag iv ''caller-id''))
      | A_job_log \<Rightarrow> exit_of (cw_client_error w) (jobLogCmd (cw_connect w) (cw_get w) (iv_args iv ! 0))
      | A_job_kill \<Rightarrow> exit_of (cw_client_error w) (jobKillCmd (cw_connect w) (cw_kill w) (iv_args iv ! 0)))"

definition Execute :: "cobra \<Rightarrow> cli_world \<Rightarrow> string list \<Rightarrow> (nat \<times> string) \<times> string" where
  "Execute C w args = (case C rootCmd args of Inl e \<Rightarrow> ((1, e @ nl), []) | Inr iv \<Rightarrow> run_action w iv)"

section \<open>What the commands tell\<close>

lemma list_column_length: "length (list_column cmd) \<le> 40"
  by (simp add: list_column_def)

definition row_text :: "string \<Rightarrow> bool" where
  "row_text s \<longleftrightarrow> CHR 0x0A \<notin> set s \<and> CHR 0x09 \<notin> set s"

lemma list_column_text: "row_text cmd \<Longrightarrow> row_text (list_column cmd)"
  by (auto simp: list_column_def row_text_def dest: in_set_takeD)

lemma Split_lines: "(\<And>l. l \<in> set ls \<Longrightarrow> sep \<notin> set l) \<Longrightarrow>
  strings_Split sep (concat (map (\<lambda>l. l @ [sep]) ls)) = ls @ [[]]"
  by (induction ls) (simp_all add: Split_append_sep)

lemma Split_cells:
  "sep \<notin> set a \<Longrightarrow> sep \<notin> set b \<Longrightarrow> sep \<notin> set c \<Longrightarrow> sep \<notin> set d \<Longrightarrow>
   strings_Split sep (a @ [sep] @ b @ [sep] @ c @ [sep] @ d) = [a, b, c, d]"
  by (simp add: Split_append_sep Split_no_sep)

definition job_text :: "client_JobInfo \<Rightarrow> bool" where
  "job_text j \<longleftrightarrow> row_text (cji_ID j) \<and> row_text (cji_Command j) \<and> row_text (cji_Status j) \<and> row_text (cji_StartedAt j)"

lemma job_row_text: "job_text j \<Longrightarrow> CHR 0x0A \<notin> set (job_row j)"
  using list_column_text by (auto simp: job_text_def job_row_def row_text_def)

text \<open>
  The table of \<open>job list\<close> can be read back: split into lines and cells it is the header and
  then one row of four cells per job, in the order of the listing, with the id, the command of at
  most forty bytes, the status and the start. (A command with a line break or a tab would break
  its row: the code writes it as it is, so the property is about jobs without.)
\<close>

theorem job_table_reads_back:
  assumes "\<forall>j \<in> set js. job_text j"
  shows "map (strings_Split (CHR 0x09)) (strings_Split (CHR 0x0A) (job_table js)) =
      [[''ID'', ''COMMAND'', ''STATUS'', ''STARTED'']]
      @ map (\<lambda>j. [cji_ID j, list_column (cji_Command j), cji_Status j, cji_StartedAt j]) js @ [[[]]]
    \<and> (\<forall>j. length (list_column (cji_Command j)) \<le> 40)"
proof -
  have "strings_Split (CHR 0x0A) (job_table js) = job_header # map job_row js @ [[]]"
  proof -
    have "CHR 0x0A \<notin> set l" if "l \<in> set (job_header # map job_row js)" for l
      using that assms job_row_text by (auto simp: job_header_def)
    then have "strings_Split (CHR 0x0A) (concat (map (\<lambda>l. l @ nl) (job_header # map job_row js)))
        = (job_header # map job_row js) @ [[]]" by (rule Split_lines)
    then show ?thesis by (simp only: job_table_def list.map concat.simps map_map comp_def append_assoc append_Cons)
  qed
  moreover have "strings_Split (CHR 0x09) (job_row j) = [cji_ID j, list_column (cji_Command j), cji_Status j, cji_StartedAt j]"
    if "j \<in> set js" for j
    using assms that list_column_text unfolding job_row_def
    by (intro Split_cells) (auto simp: job_text_def row_text_def)
  moreover have "strings_Split (CHR 0x09) job_header = [''ID'', ''COMMAND'', ''STATUS'', ''STARTED'']"
    unfolding job_header_def by (intro Split_cells) simp_all
  ultimately show ?thesis using list_column_length by simp
qed

lemma job_table_reads_back_witness:
  "map (strings_Split (CHR 0x09)) (strings_Split (CHR 0x0A) (job_table
     [\<lparr>cji_ID = ''000001'', cji_CallerID = [], cji_Command = ''ls'', cji_Status = ''running'', cji_ExitCode = 0,
       cji_Stdout = [], cji_Stderr = [], cji_StartedAt = ''now'', cji_CompletedAt = []\<rparr>]))
   = [[''ID'', ''COMMAND'', ''STATUS'', ''STARTED''], [''000001'', ''ls'', ''running'', ''now''], [[]]]"
proof -
  let ?j = "\<lparr>cji_ID = ''000001'', cji_CallerID = [], cji_Command = ''ls'', cji_Status = ''running'',
      cji_ExitCode = 0, cji_Stdout = [], cji_Stderr = [], cji_StartedAt = ''now'', cji_CompletedAt = []\<rparr>"
  have "\<forall>j \<in> set [?j]. job_text j" by (simp add: job_text_def row_text_def)
  moreover have "list_column ''ls'' = ''ls''" by (simp add: list_column_def)
  ultimately show ?thesis
    using job_table_reads_back [of "[?j]", THEN conjunct1] by (simp only: list.map append.simps client_JobInfo.simps)
qed

text \<open>
  The verdict of \<open>temenos doctor\<close> as its exit status: where its output can be written, in
  either format, it exits with 0 exactly on a Linux host in a Kubernetes pod with cgroup v2 mounted,
  whose first process sits in the leaf \<open>init\<close> and whose parent cgroup delegates the memory
  controller; everywhere else it exits with 1.
\<close>

theorem doctor_verdict:
  "fst (main_exit render (doctorCmd (platform_Status_String os) (\<lambda>t. None) as_json (platform_Status os oserr H))) =
    (if os = ''linux'' \<and> inK8sPod H \<and> cg_stat H ''/sys/fs/cgroup/cgroup.controllers''
        \<and> (case readProc1CgroupPath oserr H of Inl e \<Rightarrow> False
           | Inr path \<Rightarrow> strings_HasSuffix path ''/init'' \<and> memory_delegated H path)
     then 0 else 1)"
proof -
  have "Ready (platform_Status os oserr H) \<longleftrightarrow> os = ''linux'' \<and> inK8sPod H
      \<and> cg_stat H ''/sys/fs/cgroup/cgroup.controllers''
      \<and> (case readProc1CgroupPath oserr H of Inl e \<Rightarrow> False
         | Inr path \<Rightarrow> strings_HasSuffix path ''/init'' \<and> memory_delegated H path)"
    using stub_status by (auto simp: platform_Status_def CurrentStatus_Ready split: sum.split)
  then show ?thesis by (simp add: main_exit_def doctorCmd_def Let_def)
qed

text \<open>
  The kill command through client and daemon: it fails where the id names no job or the job is
  done, and prints its message only where the daemon has cancelled the job.
\<close>

lemma jobKillCmd_outcome:
  assumes "chi_documented (app_chi A)" "base_plain c" "id_plain i" "url_tail q" "CHR '' '' \<notin> set (raw_query q)"
    and "case Manager_Get i st of None \<Rightarrow> True | Some r \<Rightarrow> r < length (heap st) \<and> int_range (exitCode (heap st ! r))"
  shows "failure (jobKillCmd (Inr c) (KillJob url_ok (get_transport A run now decode_JobInfo ''DELETE'' st)) (i @ q)) =
    (if \<not> url_ok (baseURL c @ ''/jobs/'' @ i @ q) then Some BuildFailed
     else case Manager_Get i st of None \<Rightarrow> Some (JobNotFound (i @ q))
     | Some r \<Rightarrow> if job_done (heap st ! r) then Some (JobAlreadyCompleted (i @ q)) else None)"
  using job_calls [OF assms]
  by (simp add: jobKillCmd_def fails_def printed_def split: option.split)

section \<open>From the arguments to the daemon\<close>

text \<open>Every command of the tree, by the path that leads to it.\<close>

fun command_paths :: "command_tree \<Rightarrow> (string list \<times> action) list" where
  "command_paths (Command u a fs ps n subs) =
     ([], a) # concat (map (\<lambda>c. map (\<lambda>(path, b). (cmd_name c # path, b)) (command_paths c)) subs)"

lemma rootCmd_paths:
  "filter (\<lambda>pa. snd pa \<noteq> A_none) (command_paths rootCmd) =
     [([''daemon''], A_daemon), ([''daemon'', ''install''], A_service SvcInstall),
      ([''daemon'', ''uninstall''], A_service SvcUninstall), ([''daemon'', ''status''], A_service SvcStatus),
      ([''daemon'', ''start''], A_service SvcStart), ([''daemon'', ''stop''], A_service SvcStop),
      ([''daemon'', ''restart''], A_service SvcRestart), ([''doctor''], A_doctor), ([''job'', ''list''], A_job_list),
      ([''job'', ''log''], A_job_log), ([''job'', ''kill''], A_job_kill)]"
  by code_simp

lemma find_commands:
  "find_command rootCmd [''job'', ''list''] = Some (Command ''list'' A_job_list
     [\<lparr>fl_name = ''status'', fl_short = ''s'', fl_default = ''running''\<rparr>,
      \<lparr>fl_name = ''caller-id'', fl_short = ''c'', fl_default = []\<rparr>] [] None [])"
  "find_command rootCmd [''job'', ''kill''] = Some (Command ''kill <id>'' A_job_kill [] [] (Some 1) [])"
  "find_command rootCmd [''daemon''] = Some cli_daemonCmd"
  by code_simp+

lemma Execute_documented:
  assumes "cobra_documented C" "find_command rootCmd path = Some c" "cmd_action c \<noteq> A_none"
    and "length args = (case cmd_exact c of None \<Rightarrow> 0 | Some n \<Rightarrow> n)"
    and "list_all (\<lambda>a. \<not> strings_HasPrefix a ''-'') (path @ args)"
  shows "Execute C w (path @ args) = run_action w \<lparr>iv_action = cmd_action c,
     iv_flag = flag_default (cmd_flags c @ cmd_persistent c), iv_args = args\<rparr>"
  using assms by (simp add: cobra_documented_def Execute_def)

text \<open>Without its flag the daemon sets no memory limit.\<close>

lemma daemon_command:
  assumes "cobra_documented C"
  shows "Execute C w [''daemon''] = exit_of (cw_daemon_error w) (cw_daemon w (cw_atoi w ''0''))"
  using Execute_documented [OF assms find_commands(3), of "[]" w]
  by (simp add: cli_daemonCmd_def run_action_def)

lemma status_text_running: "status_text s = ''running'' \<longleftrightarrow> s = JobStatusRunning"
  by (cases s) simp_all

text \<open>
  C40. The job commands from the arguments to the daemon and back: \<open>temenos job list\<close> without flags
  exits with 0 and prints exactly the registered jobs that still run, of every caller, or that there
  are none; \<open>temenos job kill <id>\<close>, for an id that does not start with a dash and has no percent
  sign or slash before any question mark or hash, exits with 0 exactly if the daemon has a
  job that is not done under the part of the id before the first question mark or hash, and then
  says which job it killed: since the client does not escape the id, \<open>temenos job kill 000001?x\<close> kills the
  job \<open>000001\<close>. Only a query with a space, or a URL that the URL library refuses, is left out.
\<close>

theorem job_commands_end_to_end:
  assumes "cobra_documented C" and "chi_documented (app_chi A)" and "base_plain c"
    and "\<forall>(i, r) \<in> set (jobs st). r < length (heap st) \<and> int_range (exitCode (heap st ! r))"
    and "cw_connect w = Inr c"
    and "cw_list w = ListJobs url_ok (get_transport A run now decode_JobInfos ''GET'' st)"
    and "cw_kill w = KillJob url_ok (get_transport A run now decode_JobInfo ''DELETE'' st)"
    and "url_ok (list_url c [] ''running'')"
  shows "Execute C w [''job'', ''list''] = ((0, []),
      (let js = map (\<lambda>(i, r). job_seen (app_rfc3339 A) (fst (snapshot now False (heap st ! r))))
           (filter (\<lambda>(i, r). status (heap st ! r) = JobStatusRunning) (jobs st))
       in if js = [] then ''no jobs found'' @ nl else cw_tabwriter w (job_table js)))
    \<and> (id_plain i \<longrightarrow> \<not> strings_HasPrefix (i @ q) ''-'' \<longrightarrow> url_tail q \<longrightarrow> CHR '' '' \<notin> set (raw_query q) \<longrightarrow>
        url_ok (baseURL c @ ''/jobs/'' @ i @ q) \<longrightarrow>
        (fst (fst (Execute C w [''job'', ''kill'', i @ q])) = 0 \<longleftrightarrow>
           (case Manager_Get i st of None \<Rightarrow> False | Some r \<Rightarrow> \<not> job_done (heap st ! r)))
        \<and> (fst (fst (Execute C w [''job'', ''kill'', i @ q])) = 0 \<longrightarrow>
           (\<exists>r. Manager_Get i st = Some r \<and> snd (Execute C w [''job'', ''kill'', i @ q]) =
              ''killed job '' @ utf8_coerce (job_id (heap st ! r)) @ '' ('' @ utf8_coerce (job_command (heap st ! r)) @ '')'' @ nl)))"
proof (intro conjI impI)
  have "list_all (\<lambda>a. \<not> strings_HasPrefix a ''-'') [''job'', ''list'']" by simp
  from Execute_documented [OF assms(1) find_commands(1), of "[]" w] this
  have e: "Execute C w [''job'', ''list''] = exit_of (cw_client_error w)
      (jobListCmd (Inr c) (cw_list w) (cw_tabwriter w) ''running'' [])"
    by (simp add: run_action_def assms(5))
  have "\<forall>(i, r) \<in> set (jobs st). int_range (exitCode (heap st ! r))" using assms(4) by auto
  from job_list_call [OF assms(2,3) _ _ this, of "[]" "''running''" url_ok run now]
  have "cw_list w c [] ''running'' =
      Inr (map (\<lambda>(i, r). job_seen (app_rfc3339 A) (fst (snapshot now False (heap st ! r))))
        (filter (\<lambda>(i, r). status (heap st ! r) = JobStatusRunning) (jobs st)))"
    by (simp add: assms(6,8) plain_text_def status_text_running)
  then show "Execute C w [''job'', ''list''] = ((0, []),
      (let js = map (\<lambda>(i, r). job_seen (app_rfc3339 A) (fst (snapshot now False (heap st ! r))))
           (filter (\<lambda>(i, r). status (heap st ! r) = JobStatusRunning) (jobs st))
       in if js = [] then ''no jobs found'' @ nl else cw_tabwriter w (job_table js)))"
    unfolding e by (simp add: exit_of_def jobListCmd_def printed_def main_exit_def Let_def)
next
  assume i: "id_plain i" "\<not> strings_HasPrefix (i @ q) ''-''" "url_tail q" "CHR '' '' \<notin> set (raw_query q)"
    and u: "url_ok (baseURL c @ ''/jobs/'' @ i @ q)"
  have ok: "case Manager_Get i st of None \<Rightarrow> True | Some r \<Rightarrow> r < length (heap st) \<and> int_range (exitCode (heap st ! r))"
    using assms(4) by (auto simp: Manager_Get_def split: option.split dest: map_of_SomeD)
  have e: "Execute C w [''job'', ''kill'', i @ q] = exit_of (cw_client_error w) (jobKillCmd (Inr c) (cw_kill w) (i @ q))"
    using Execute_documented [OF assms(1) find_commands(2), of "[i @ q]" w] i(2) by (simp add: run_action_def assms(5))
  show z: "fst (fst (Execute C w [''job'', ''kill'', i @ q])) = 0 \<longleftrightarrow>
      (case Manager_Get i st of None \<Rightarrow> False | Some r \<Rightarrow> \<not> job_done (heap st ! r))"
    using jobKillCmd_outcome [OF assms(2,3) i(1,3,4) ok, of url_ok run now] u
    unfolding e assms(7) by (simp add: exit_of_def main_exit_def split: option.split)
  show "\<exists>r. Manager_Get i st = Some r \<and> snd (Execute C w [''job'', ''kill'', i @ q]) =
      ''killed job '' @ utf8_coerce (job_id (heap st ! r)) @ '' ('' @ utf8_coerce (job_command (heap st ! r)) @ '')'' @ nl"
    if x: "fst (fst (Execute C w [''job'', ''kill'', i @ q])) = 0"
  proof -
    obtain r where r: "Manager_Get i st = Some r" "\<not> job_done (heap st ! r)"
      using x z by (auto split: option.splits)
    have "cw_kill w c (i @ q) = Inr (job_seen (app_rfc3339 A) (fst (snapshot now True ((heap st ! r)\<lparr>ctx_cancelled := True\<rparr>))))"
      using job_calls [OF assms(2,3) i(1,3,4) ok, of url_ok run now] u r by (simp add: assms(7))
    then have "snd (Execute C w [''job'', ''kill'', i @ q]) =
        ''killed job '' @ utf8_coerce (job_id (heap st ! r)) @ '' ('' @ utf8_coerce (job_command (heap st ! r)) @ '')'' @ nl"
      unfolding e by (simp add: exit_of_def jobKillCmd_def printed_def job_seen_def snapshot_def Let_def)
    with r(1) show ?thesis by blast
  qed
qed

section \<open>A parser that follows the documentation\<close>

fun walk_commands :: "command_tree \<Rightarrow> string list \<Rightarrow> command_tree \<times> string list" where
  "walk_commands c [] = (c, [])"
| "walk_commands c (w # ws) =
     (case List.find (\<lambda>s. cmd_name s = w) (cmd_subs c) of None \<Rightarrow> (c, w # ws) | Some s \<Rightarrow> walk_commands s ws)"

definition sample_cobra :: cobra where
  "sample_cobra tree args =
     (let (c, rest) = walk_commands tree args in
      if length rest = (case cmd_exact c of None \<Rightarrow> 0 | Some n \<Rightarrow> n)
      then Inr \<lparr>iv_action = cmd_action c, iv_flag = flag_default (cmd_flags c @ cmd_persistent c), iv_args = rest\<rparr>
      else Inl ''usage'')"

fun exact_leaves :: "command_tree \<Rightarrow> bool" where
  "exact_leaves (Command u a fs ps n subs) \<longleftrightarrow> (n = None \<or> subs = []) \<and> list_all exact_leaves subs"

lemma exact_leaves_found:
  "find_command c path = Some d \<Longrightarrow> exact_leaves c \<Longrightarrow> exact_leaves d"
proof (induction path arbitrary: c)
  case (Cons w ws)
  obtain u a fs ps n subs where c: "c = Command u a fs ps n subs" by (cases c)
  with Cons.prems(1) obtain s where s: "List.find (\<lambda>s. cmd_name s = w) subs = Some s" "find_command s ws = Some d"
    by (auto split: option.splits)
  then have "s \<in> set subs" by (auto simp: find_Some_iff)
  with Cons.prems(2) c have "exact_leaves s" by (simp add: list_all_iff)
  from Cons.IH [OF s(2) this] show ?case .
qed simp

lemma walk_path: "find_command c path = Some d \<Longrightarrow> walk_commands c (path @ args) = walk_commands d args"
  by (induction path arbitrary: c) (auto split: option.splits)

lemma sample_cobra_documented: "cobra_documented sample_cobra"
proof -
  have root: "exact_leaves rootCmd" by code_simp
  have "walk_commands d args = (d, args)"
    if "find_command rootCmd path = Some d" "length args = (case cmd_exact d of None \<Rightarrow> 0 | Some n \<Rightarrow> n)" for path d args
    using exact_leaves_found [OF that(1) root] that(2) by (cases d; cases args) (auto split: option.splits)
  then show ?thesis unfolding cobra_documented_def sample_cobra_def by (auto simp: walk_path)
qed

definition sample_world_cli :: "job_store \<Rightarrow> cli_world" where
  "sample_world_cli st = \<lparr>cw_connect = Inr sample_client,
     cw_list = ListJobs no_control_bytes (get_transport sample_app sample_answer 0 decode_JobInfos ''GET'' st),
     cw_get = GetJob no_control_bytes (get_transport sample_app sample_answer 0 decode_JobInfo ''GET'' st),
     cw_kill = KillJob no_control_bytes (get_transport sample_app sample_answer 0 decode_JobInfo ''DELETE'' st),
     cw_tabwriter = (\<lambda>t. t), cw_client_error = (\<lambda>e. ''error''), cw_show = (\<lambda>s. []),
     cw_write = (\<lambda>t. None), cw_status = \<lparr>Ready = False, Checks = []\<rparr>, cw_doctor_error = (\<lambda>e. ''error''),
     cw_service = sample_svc, cw_service_error = (\<lambda>e. ''error''),
     cw_daemon = (\<lambda>m. \<lparr>stdout_text = [], failure = None\<rparr>), cw_daemon_error = (\<lambda>e. ''error''), cw_atoi = (\<lambda>s. 0)\<rparr>"

lemma job_commands_end_to_end_witness:
  "Execute sample_cobra (sample_world_cli (sample_store sample_done_job)) [''job'', ''list'']
     = ((0, []), ''no jobs found'' @ nl)
   \<and> fst (fst (Execute sample_cobra (sample_world_cli (sample_store sample_done_job)) [''job'', ''kill'', ''000001?x''])) \<noteq> 0
   \<and> fst (fst (Execute sample_cobra (sample_world_cli (sample_store sample_job)) [''job'', ''kill'', ''000001?x''])) = 0"
proof -
  let ?w = "\<lambda>j. sample_world_cli (sample_store j)"
  have st: "\<forall>(i, r) \<in> set (jobs (sample_store j)). r < length (heap (sample_store j)) \<and> int_range (exitCode (heap (sample_store j) ! r))"
    if "int_range (exitCode j)" for j using that by (simp add: sample_store_def)
  have j: "int_range (exitCode sample_done_job)" "int_range (exitCode sample_job)"
    by (simp_all add: sample_done_job_def sample_job_def newBackgroundJob_def int_range_def)
  have w: "cw_connect (?w j) = Inr sample_client"
    "cw_list (?w j) = ListJobs no_control_bytes (get_transport sample_app sample_answer 0 decode_JobInfos ''GET'' (sample_store j))"
    "cw_kill (?w j) = KillJob no_control_bytes (get_transport sample_app sample_answer 0 decode_JobInfo ''DELETE'' (sample_store j))" for j
    by (simp_all add: sample_world_cli_def)
  have chi: "chi_documented (app_chi sample_app)" using sample_chi_documented by (simp add: sample_app_def)
  have u: "no_control_bytes (list_url sample_client [] ''running'')"
    "no_control_bytes (baseURL sample_client @ ''/jobs/'' @ ''000001'' @ ''?x'')"
    by (simp_all add: no_control_bytes_def list_url_def sample_client_def Let_def)
  have i: "id_plain ''000001''" "\<not> strings_HasPrefix (''000001'' @ ''?x'') ''-''" "url_tail ''?x''"
    "CHR '' '' \<notin> set (raw_query ''?x'')"
    by (simp_all add: id_plain_def path_plain_def url_tail_def raw_query_def)
  note e = job_commands_end_to_end [OF sample_cobra_documented chi sample_client_plain st w u(1), of _ "''000001''" "''?x''"]
  note kill = e [THEN conjunct2, THEN mp, OF _ i(1), THEN mp, OF _ i(2), THEN mp, OF _ i(3), THEN mp, OF _ i(4),
      THEN mp, OF _ u(2), THEN conjunct1]
  have "Manager_Get ''000001'' (sample_store j) = Some 0" "heap (sample_store j) ! 0 = j" "jobs (sample_store j) = [(''000001'', 0)]" for j
    by (simp_all add: sample_store_def Manager_Get_def)
  moreover have "job_done sample_done_job" "status sample_done_job = JobStatusKilled" "\<not> job_done sample_job"
    by (simp_all add: sample_done_job_def sample_written_job_def sample_job_def newBackgroundJob_def)
  ultimately show ?thesis using e [THEN conjunct1, OF j(1)] kill [OF j(1)] kill [OF j(2)] by simp
qed

end
