(* ===== verification/RequestFields.thy ===== *)
theory RequestFields
  imports Wire
begin

text \<open>
  What a run request is, by the struct tags of \<open>handler.go\<close> alone: which member of the JSON object
  is read for which field, of which type it has to be, and what it gives. The decoder of \<open>Wire\<close>,
  which goes through the members one by one, is shown to read exactly this.
\<close>

section \<open>The members of a name\<close>

text \<open>The values given for a tag, in their order; the case of a name does not matter.\<close>

definition named :: "string \<Rightarrow> members \<Rightarrow> json list" where
  "named n kvs = map snd (filter (\<lambda>kv. fold_name (fst kv) = fold_name n) kvs)"

text \<open>A field is left alone by \<open>null\<close>, so the last other value counts.\<close>

definition last_value :: "json list \<Rightarrow> json option" where
  "last_value vs = (let ws = filter (\<lambda>v. v \<noteq> JNull) vs in if ws = [] then None else Some (last ws))"

lemma last_value_snoc: "last_value (vs @ [v]) = (if v = JNull then last_value vs else Some v)"
  by (simp add: last_value_def Let_def)

lemma last_value_Nil [simp]: "last_value [] = None"
  by (simp add: last_value_def)

fun decode_all :: "('v \<Rightarrow> 'x \<Rightarrow> 'x option) \<Rightarrow> 'v list \<Rightarrow> 'x \<Rightarrow> 'x option" where
  "decode_all upd [] x = Some x"
| "decode_all upd (v # vs) x = (case upd v x of None \<Rightarrow> None | Some y \<Rightarrow> decode_all upd vs y)"

lemma decode_all_snoc:
  "decode_all upd (vs @ [v]) x = (case decode_all upd vs x of None \<Rightarrow> None | Some y \<Rightarrow> upd v y)"
  by (induction vs arbitrary: x) (auto split: option.split)

lemma find_fold_name:
  "distinct (map fold_name names) \<Longrightarrow> n \<in> set names \<Longrightarrow>
     List.find (\<lambda>m. fold_name m = x) names = Some n \<longleftrightarrow> x = fold_name n"
proof (induction names)
  case (Cons a names)
  then show ?case
  proof (cases "n = a")
    case True
    have "List.find (\<lambda>m. fold_name m = x) names = Some n \<Longrightarrow> n \<in> set names" by (auto simp: find_Some_iff)
    with True Cons.prems(1) show ?thesis by auto
  qed auto
qed simp

lemma json_field_iff:
  assumes "distinct (map fold_name names)" "n \<in> set names"
  shows "json_field names k = Some n \<longleftrightarrow> fold_name k = fold_name n"
proof (cases "k \<in> set names")
  case True
  with assms show ?thesis by (auto simp: json_field_def distinct_map inj_on_def)
next
  case False
  with find_fold_name [OF assms] show ?thesis by (simp add: json_field_def)
qed

text \<open>
  Decoding a struct, field by field: \<open>get\<close> is a field, \<open>upd\<close> what a value does to it. The members of
  other names leave it alone.
\<close>

lemma decode_members_field:
  assumes "decode_members names f kvs r = Some r'" "distinct (map fold_name names)" "n \<in> set names"
    and "\<And>m v s s'. f m v s = Some s' \<Longrightarrow> m \<noteq> n \<Longrightarrow> get s' = get s"
    and "\<And>v s s'. f n v s = Some s' \<Longrightarrow> upd v (get s) = Some (get s')"
  shows "decode_all upd (named n kvs) (get r) = Some (get r')"
  using assms(1)
proof (induction kvs arbitrary: r)
  case (Cons kv kvs)
  obtain k v where kv: "kv = (k, v)" by (cases kv)
  note fld = json_field_iff [OF assms(2,3), of k]
  show ?case
  proof (cases "json_field names k")
    case None
    with Cons kv fld show ?thesis by (simp add: named_def)
  next
    case (Some m)
    with Cons.prems kv obtain s where s: "f m v r = Some s" "decode_members names f kvs s = Some r'"
      by (auto split: option.splits)
    show ?thesis
    proof (cases "m = n")
      case True
      then show ?thesis using Some s(1) assms(5) [of v r s] Cons.IH [OF s(2)] kv fld by (simp add: named_def)
    next
      case False
      then show ?thesis using Some assms(4) [OF s(1)] Cons.IH [OF s(2)] kv fld by (simp add: named_def)
    qed
  qed
qed (simp add: named_def)

text \<open>A struct is decoded exactly if every member that belongs to a field has a value of its type.\<close>

lemma decode_members_accepts:
  assumes "distinct (map fold_name names)" "\<And>n v r. n \<in> set names \<Longrightarrow> f n v r \<noteq> None \<longleftrightarrow> typed n v"
  shows "decode_members names f kvs r \<noteq> None \<longleftrightarrow> (\<forall>n \<in> set names. \<forall>v \<in> set (named n kvs). typed n v)"
proof (induction kvs arbitrary: r)
  case (Cons kv kvs)
  obtain k v where kv: "kv = (k, v)" by (cases kv)
  show ?case
  proof (cases "json_field names k")
    case None
    then have "fold_name k \<noteq> fold_name n" if "n \<in> set names" for n
      using json_field_iff [OF assms(1) that, of k] by simp
    with None kv Cons show ?thesis by (simp add: named_def)
  next
    case (Some m)
    have m: "m \<in> set names" using Some by (auto simp: json_field_def find_Some_iff split: if_splits)
    have "fold_name k = fold_name n \<longleftrightarrow> n = m" if "n \<in> set names" for n
      using json_field_iff [OF assms(1) that, of k] Some by auto
    then have "(\<forall>n \<in> set names. \<forall>w \<in> set (named n (kv # kvs)). typed n w)
        \<longleftrightarrow> typed m v \<and> (\<forall>n \<in> set names. \<forall>w \<in> set (named n kvs). typed n w)"
      using m kv by (auto simp: named_def)
    moreover have "decode_members names f (kv # kvs) r \<noteq> None
        \<longleftrightarrow> typed m v \<and> (\<forall>n \<in> set names. \<forall>w \<in> set (named n kvs). typed n w)"
      using Some kv assms(2) [OF m, of v r] Cons.IH by (auto split: option.splits)
    ultimately show ?thesis by simp
  qed
qed (simp add: named_def)

section \<open>The types of JSON values\<close>

fun text_of :: "json option \<Rightarrow> string" where
  "text_of (Some (JStr s)) = s"
| "text_of _ = []"

fun flag_of :: "json option \<Rightarrow> bool" where
  "flag_of (Some (JBool b)) = b"
| "flag_of _ = False"

fun int_of :: "json option \<Rightarrow> int" where
  "int_of (Some (JInt i)) = i"
| "int_of _ = 0"

fun is_text :: "json \<Rightarrow> bool" where
  "is_text JNull = True" | "is_text (JStr s) = True" | "is_text _ = False"

fun is_bool :: "json \<Rightarrow> bool" where
  "is_bool JNull = True" | "is_bool (JBool b) = True" | "is_bool _ = False"

fun is_int :: "json \<Rightarrow> bool" where
  "is_int JNull = True" | "is_int (JInt i) = int_range i" | "is_int _ = False"

fun is_text_map :: "json \<Rightarrow> bool" where
  "is_text_map JNull = True" | "is_text_map (JObj kvs) = list_all (\<lambda>kv. is_text (snd kv)) kvs" | "is_text_map _ = False"

text \<open>The entries that an object adds to a map, and the map that a sequence of values leaves.\<close>

fun add_entries :: "json \<Rightarrow> (string \<Rightarrow> string option) \<Rightarrow> string \<Rightarrow> string option" where
  "add_entries (JObj kvs) m = m ++ map_of (rev (map (\<lambda>(k, v). (k, text_of (Some v))) kvs))"
| "add_entries _ m = Map.empty"

text \<open>A path: \<open>path\<close>, \<open>read_only\<close> and \<open>metadata_only\<close>.\<close>

fun is_path :: "json \<Rightarrow> bool" where
  "is_path JNull = True"
| "is_path (JObj kvs) = (list_all is_text (named ''path'' kvs) \<and> list_all is_bool (named ''read_only'' kvs)
     \<and> list_all is_bool (named ''metadata_only'' kvs))"
| "is_path _ = False"

fun path_of :: "json \<Rightarrow> AllowedPath" where
  "path_of (JObj kvs) = \<lparr>ap_Path = text_of (last_value (named ''path'' kvs)),
     ap_ReadOnly = flag_of (last_value (named ''read_only'' kvs)),
     ap_MetadataOnly = flag_of (last_value (named ''metadata_only'' kvs))\<rparr>"
| "path_of _ = \<lparr>ap_Path = [], ap_ReadOnly = False, ap_MetadataOnly = False\<rparr>"

fun is_path_list :: "json \<Rightarrow> bool" where
  "is_path_list JNull = True" | "is_path_list (JArr js) = list_all is_path js" | "is_path_list _ = False"

fun paths_of :: "json \<Rightarrow> AllowedPath list" where
  "paths_of (JArr js) = map path_of js" | "paths_of _ = []"

text \<open>A pointer or a slice takes the last value, \<open>null\<close> too.\<close>

fun pointer_of :: "json \<Rightarrow> bool option" where
  "pointer_of (JBool b) = Some b" | "pointer_of _ = None"

definition final :: "('a \<Rightarrow> 'b) \<Rightarrow> 'b \<Rightarrow> 'a list \<Rightarrow> 'b" where
  "final f z vs = (if vs = [] then z else f (last vs))"

section \<open>Each decoder reads its type\<close>

lemma decode_string_iff: "decode_string v old \<noteq> None \<longleftrightarrow> is_text v"
  by (cases v) simp_all

lemma decode_bool_iff: "decode_bool v old \<noteq> None \<longleftrightarrow> is_bool v"
  by (cases v) simp_all

lemma decode_int_iff: "decode_int v old \<noteq> None \<longleftrightarrow> is_int v"
  by (cases v) simp_all

lemma decode_pbool_iff: "decode_pbool v \<noteq> None \<longleftrightarrow> is_bool v"
  by (cases v) simp_all

lemma decode_entries_iff: "decode_entries kvs m \<noteq> None \<longleftrightarrow> list_all (\<lambda>kv. is_text (snd kv)) kvs"
proof (induction kvs m rule: decode_entries.induct)
  case (2 k v kvs m)
  then show ?case using decode_string_iff [of v "[]"] by (auto split: option.splits)
qed simp

lemma decode_map_iff: "decode_map v m \<noteq> None \<longleftrightarrow> is_text_map v"
  using decode_entries_iff [of _ m] by (cases v) auto

lemma decode_strings: "decode_all decode_string vs x = Some y \<Longrightarrow>
  y = (case last_value vs of None \<Rightarrow> x | v \<Rightarrow> text_of v)"
proof (induction vs arbitrary: y rule: rev_induct)
  case (snoc v vs)
  then show ?case
    by (cases v) (auto simp: decode_all_snoc last_value_snoc split: option.splits)
qed simp

lemma decode_bools: "decode_all decode_bool vs x = Some y \<Longrightarrow>
  y = (case last_value vs of None \<Rightarrow> x | v \<Rightarrow> flag_of v)"
proof (induction vs arbitrary: y rule: rev_induct)
  case (snoc v vs)
  then show ?case
    by (cases v) (auto simp: decode_all_snoc last_value_snoc split: option.splits)
qed simp

lemma decode_ints: "decode_all decode_int vs x = Some y \<Longrightarrow>
  y = (case last_value vs of None \<Rightarrow> x | v \<Rightarrow> int_of v)"
proof (induction vs arbitrary: y rule: rev_induct)
  case (snoc v vs)
  then show ?case
    by (cases v) (auto simp: decode_all_snoc last_value_snoc split: option.splits if_splits)
qed simp

lemma decode_from_zero:
  "decode_all decode_string vs [] = Some t \<Longrightarrow> t = text_of (last_value vs)"
  "decode_all decode_bool vs False = Some b \<Longrightarrow> b = flag_of (last_value vs)"
  "decode_all decode_int vs 0 = Some i \<Longrightarrow> i = int_of (last_value vs)"
  by (auto dest: decode_strings decode_bools decode_ints split: option.splits)

lemma decode_all_final:
  assumes "\<And>v x y. upd v x = Some y \<Longrightarrow> y = f v"
  shows "decode_all upd vs z = Some y \<Longrightarrow> y = final f z vs"
  by (cases vs rule: rev_cases) (auto simp: decode_all_snoc final_def split: option.splits dest: assms)

lemma decode_entries_map:
  "decode_entries kvs m = Some m' \<Longrightarrow>
     map_of m' = map_of m ++ map_of (rev (map (\<lambda>(k, v). (k, text_of (Some v))) kvs))"
proof (induction kvs m rule: decode_entries.induct)
  case (2 k v kvs m)
  then obtain s where s: "decode_string v [] = Some s" by (auto split: option.splits)
  then have "s = text_of (Some v)" by (cases v) simp_all
  with 2 s show ?case by (auto simp: update_conv' map_add_def fun_eq_iff split: option.splits)
qed simp

lemma decode_maps: "decode_all decode_map vs m = Some m' \<Longrightarrow> map_of m' = fold add_entries vs (map_of m)"
proof (induction vs arbitrary: m)
  case (Cons v vs)
  then obtain m1 where m1: "decode_map v m = Some m1" "decode_all decode_map vs m1 = Some m'"
    by (auto split: option.splits)
  have "map_of m1 = add_entries v (map_of m)" using m1(1) decode_entries_map by (cases v) auto
  with Cons.IH [OF m1(2)] show ?case by simp
qed simp

section \<open>Paths\<close>

lemma path_names: "distinct (map fold_name path_fields)"
  by (simp add: path_fields_def fold_name_def runes_ascii fold_rune_def ascii_upper_def)

lemma set_path_iff: "n \<in> set path_fields \<Longrightarrow>
  set_path_field n v a \<noteq> None \<longleftrightarrow> (if n = ''path'' then is_text v else is_bool v)"
  using decode_string_iff [of v] decode_bool_iff [of v] by (auto simp: path_fields_def set_path_field_def)

lemma decode_path:
  "decode_AllowedPath j \<noteq> None \<longleftrightarrow> is_path j" "decode_AllowedPath j = Some a \<Longrightarrow> a = path_of j"
proof -
  have ok: "decode_members path_fields set_path_field kvs r \<noteq> None \<longleftrightarrow> is_path (JObj kvs)" for kvs r
    using decode_members_accepts [OF path_names set_path_iff, where kvs = kvs and r = r]
    by (auto simp: path_fields_def list_all_iff)
  then show "decode_AllowedPath j \<noteq> None \<longleftrightarrow> is_path j" by (cases j) (simp_all add: decode_AllowedPath_def)
  show "a = path_of j" if "decode_AllowedPath j = Some a"
  proof (cases j)
    case (JObj kvs)
    with that have d: "decode_members path_fields set_path_field kvs zero_AllowedPath = Some a"
      by (simp add: decode_AllowedPath_def)
    note fld = decode_members_field [OF d path_names]
    have "decode_all decode_string (named ''path'' kvs) (ap_Path zero_AllowedPath) = Some (ap_Path a)"
      by (rule fld) (auto simp: path_fields_def set_path_field_def split: if_splits)
    then have p: "ap_Path a = text_of (last_value (named ''path'' kvs))"
      by (simp add: zero_AllowedPath_def decode_from_zero(1))
    have "decode_all decode_bool (named ''read_only'' kvs) (ap_ReadOnly zero_AllowedPath) = Some (ap_ReadOnly a)"
      by (rule fld) (auto simp: path_fields_def set_path_field_def split: if_splits)
    then have ro: "ap_ReadOnly a = flag_of (last_value (named ''read_only'' kvs))"
      by (simp only: zero_AllowedPath_def AllowedPath.select_convs) (rule decode_from_zero(2))
    have "decode_all decode_bool (named ''metadata_only'' kvs) (ap_MetadataOnly zero_AllowedPath) = Some (ap_MetadataOnly a)"
      by (rule fld) (auto simp: path_fields_def set_path_field_def split: if_splits)
    then have mo: "ap_MetadataOnly a = flag_of (last_value (named ''metadata_only'' kvs))"
      by (simp only: zero_AllowedPath_def AllowedPath.select_convs) (rule decode_from_zero(2))
    show ?thesis by (rule AllowedPath.equality) (simp_all add: p ro mo JObj)
  qed (use that in \<open>simp_all add: decode_AllowedPath_def zero_AllowedPath_def\<close>)
qed

lemma decode_path_list:
  "decode_list decode_AllowedPath js \<noteq> None \<longleftrightarrow> list_all is_path js"
  "decode_list decode_AllowedPath js = Some as \<Longrightarrow> as = map path_of js"
proof -
  show "decode_list decode_AllowedPath js \<noteq> None \<longleftrightarrow> list_all is_path js"
  proof (induction js)
    case (Cons j js)
    then show ?case using decode_path(1) [of j] by (auto split: option.splits)
  qed simp
  show "decode_list decode_AllowedPath js = Some as \<Longrightarrow> as = map path_of js"
    by (induction js arbitrary: as) (auto dest: decode_path(2) split: option.splits)
qed

lemma decode_paths:
  "decode_slice decode_AllowedPath v \<noteq> None \<longleftrightarrow> is_path_list v"
  "decode_slice decode_AllowedPath v = Some as \<Longrightarrow> as = paths_of v"
  using decode_path_list(2) by (cases v; simp add: decode_path_list(1) del: not_None_eq)+

section \<open>Requests\<close>

lemma request_names: "distinct (map fold_name request_fields)"
  by (simp add: request_fields_def fold_name_def runes_ascii fold_rune_def ascii_upper_def)

text \<open>The type of the member of each name.\<close>

definition member_typed :: "string \<Rightarrow> json \<Rightarrow> bool" where
  "member_typed n v \<longleftrightarrow>
     (if n \<in> {''command'', ''caller_id'', ''auth_token''} then is_text v
      else if n = ''env'' then is_text_map v
      else if n = ''allowed_paths'' then is_path_list v
      else if n = ''network'' then is_bool v
      else if n = ''timeout'' then is_int v
      else False)"

lemma set_request_iff: "n \<in> set request_fields \<Longrightarrow> set_request_field n v r \<noteq> None \<longleftrightarrow> member_typed n v"
  using decode_string_iff [of v] decode_map_iff [of v] decode_paths(1) [of v] decode_pbool_iff [of v] decode_int_iff [of v]
  by (auto simp: request_fields_def set_request_field_def member_typed_def)

lemma decode_timeouts:
  "decode_all (\<lambda>v t. map_option word_of_int (decode_int v (sint t))) vs (0 :: go_int) = Some t \<Longrightarrow>
     sint t = int_of (last_value vs)"
proof (induction vs arbitrary: t rule: rev_induct)
  case (snoc v vs)
  then obtain u where u: "decode_all (\<lambda>v t. map_option word_of_int (decode_int v (sint t))) vs (0 :: go_int) = Some u"
    "sint u = int_of (last_value vs)" "map_option word_of_int (decode_int v (sint u)) = Some t"
    by (auto simp: decode_all_snoc split: option.splits)
  show ?case
  proof (cases "v = JNull")
    case True
    with u(3) have "t = u" by simp
    with u(2) True show ?thesis by (simp add: last_value_snoc)
  next
    case False
    with u(3) show ?thesis
    by (cases v) (auto simp: decode_all_snoc last_value_snoc int_range_def sint_sbintrunc' signed_take_bit_int_eq_self
        split: option.splits if_splits)
  qed
qed simp

lemma decode_request_fields:
  assumes "decode_members request_fields set_request_field kvs zero_RunRequest = Some r"
  shows "req_Command r = text_of (last_value (named ''command'' kvs))"
    and "req_CallerID r = text_of (last_value (named ''caller_id'' kvs))"
    and "req_AuthToken r = text_of (last_value (named ''auth_token'' kvs))"
    and "map_of (req_Env r) = fold add_entries (named ''env'' kvs) Map.empty"
    and "req_AllowedPaths r = final paths_of [] (named ''allowed_paths'' kvs)"
    and "req_Network r = final pointer_of None (named ''network'' kvs)"
    and "sint (req_Timeout r) = int_of (last_value (named ''timeout'' kvs))"
proof -
  note fld = decode_members_field [OF assms request_names]
    and z = zero_RunRequest_def RunRequest.select_convs
  have "decode_all decode_string (named ''command'' kvs) (req_Command zero_RunRequest) = Some (req_Command r)"
    by (rule fld) (auto simp: request_fields_def set_request_field_def split: if_splits)
  then show "req_Command r = text_of (last_value (named ''command'' kvs))"
    by (simp only: z) (rule decode_from_zero(1))
  have "decode_all decode_string (named ''caller_id'' kvs) (req_CallerID zero_RunRequest) = Some (req_CallerID r)"
    by (rule fld) (auto simp: request_fields_def set_request_field_def split: if_splits)
  then show "req_CallerID r = text_of (last_value (named ''caller_id'' kvs))"
    by (simp only: z) (rule decode_from_zero(1))
  have "decode_all decode_string (named ''auth_token'' kvs) (req_AuthToken zero_RunRequest) = Some (req_AuthToken r)"
    by (rule fld) (auto simp: request_fields_def set_request_field_def split: if_splits)
  then show "req_AuthToken r = text_of (last_value (named ''auth_token'' kvs))"
    by (simp only: z) (rule decode_from_zero(1))
  have "decode_all decode_map (named ''env'' kvs) (req_Env zero_RunRequest) = Some (req_Env r)"
    by (rule fld) (auto simp: request_fields_def set_request_field_def split: if_splits)
  then show "map_of (req_Env r) = fold add_entries (named ''env'' kvs) Map.empty"
    by (simp add: zero_RunRequest_def decode_maps)
  have "decode_all (\<lambda>v _. decode_slice decode_AllowedPath v) (named ''allowed_paths'' kvs) (req_AllowedPaths zero_RunRequest)
      = Some (req_AllowedPaths r)"
    by (rule fld) (auto simp: request_fields_def set_request_field_def split: if_splits)
  from decode_all_final [OF _ this, of paths_of] show "req_AllowedPaths r = final paths_of [] (named ''allowed_paths'' kvs)"
    by (simp add: zero_RunRequest_def decode_paths(2))
  have p: "decode_pbool v = Some y \<Longrightarrow> y = pointer_of v" for v y by (cases v) simp_all
  have "decode_all (\<lambda>v _. decode_pbool v) (named ''network'' kvs) (req_Network zero_RunRequest) = Some (req_Network r)"
    by (rule fld) (auto simp: request_fields_def set_request_field_def split: if_splits)
  from decode_all_final [OF _ this, of pointer_of] show "req_Network r = final pointer_of None (named ''network'' kvs)"
    using p by (simp add: zero_RunRequest_def)
  have "decode_all (\<lambda>v t. map_option word_of_int (decode_int v (sint t))) (named ''timeout'' kvs) (req_Timeout zero_RunRequest)
      = Some (req_Timeout r)"
    by (rule fld) (auto simp: request_fields_def set_request_field_def split: if_splits)
  then show "sint (req_Timeout r) = int_of (last_value (named ''timeout'' kvs))"
    by (simp only: z) (rule decode_timeouts)
qed

text \<open>
  C29. Whatever JSON object a caller sends, the daemon reads it by the tags of its request type and
  refuses what is not of the type: the object is accepted exactly if the members named after a
  field, in any case, have a value of the field's type or \<open>null\<close>; then each field has the last
  value given for it, the environment the entries of all objects given for it, an integer its
  exact value, the paths their fields likewise (where they are given once), and a field that is not
  given its zero value; other members do not count. And since the object was read from bytes, every
  text in the request is valid UTF-8 and the environment has each name once.
\<close>

theorem decoded_request_typed:
  assumes "json_read True body = Read (JObj kvs)"
  shows "case decode_text decode_RunRequest body of
      None \<Rightarrow> \<exists>n v. v \<in> set (named n kvs) \<and> \<not> member_typed n v
        \<and> n \<in> {''command'', ''env'', ''allowed_paths'', ''network'', ''timeout'', ''caller_id'', ''auth_token''}
    | Some r \<Rightarrow>
        (\<forall>n \<in> {''command'', ''env'', ''allowed_paths'', ''network'', ''timeout'', ''caller_id'', ''auth_token''}.
           \<forall>v \<in> set (named n kvs). member_typed n v)
        \<and> req_Command r = text_of (last_value (named ''command'' kvs))
        \<and> req_CallerID r = text_of (last_value (named ''caller_id'' kvs))
        \<and> req_AuthToken r = text_of (last_value (named ''auth_token'' kvs))
        \<and> map_of (req_Env r) = fold add_entries (named ''env'' kvs) Map.empty
        \<and> (length (named ''allowed_paths'' kvs) \<le> 1 \<longrightarrow>
             req_AllowedPaths r = concat (map paths_of (named ''allowed_paths'' kvs)))
        \<and> req_Network r = final pointer_of None (named ''network'' kvs)
        \<and> sint (req_Timeout r) = int_of (last_value (named ''timeout'' kvs))
        \<and> request_typed r"
proof -
  have d: "decode_text decode_RunRequest body = decode_members request_fields set_request_field kvs zero_RunRequest"
    by (simp add: decode_text_def assms decode_RunRequest_def)
  have names: "set request_fields =
      {''command'', ''env'', ''allowed_paths'', ''network'', ''timeout'', ''caller_id'', ''auth_token''}"
    by (simp add: request_fields_def)
  have accepts: "decode_text decode_RunRequest body \<noteq> None \<longleftrightarrow>
      (\<forall>n \<in> set request_fields. \<forall>v \<in> set (named n kvs). member_typed n v)"
    unfolding d by (rule decode_members_accepts [OF request_names set_request_iff])
  show ?thesis
  proof (cases "decode_text decode_RunRequest body")
    case None
    then obtain n v where "n \<in> set request_fields" "v \<in> set (named n kvs)" "\<not> member_typed n v"
      using accepts by auto
    then show ?thesis unfolding names [symmetric] None option.case by (intro exI conjI)
  next
    case (Some r)
    have "request_typed r"
      using decode_RunRequest_typed [OF json_read_valid [OF assms]] Some by (simp add: decode_text_def assms)
    moreover have "concat (map paths_of vs) = final paths_of [] vs" if "length vs \<le> 1" for vs
      using that by (cases vs) (auto simp: final_def)
    ultimately show ?thesis
      using Some accepts [unfolded names] decode_request_fields [OF Some [unfolded d]] by simp
  qed
qed

text \<open>A body with spaces, a name in another case, an unknown field and a name that is given twice.\<close>

definition sample_body :: string where
  "sample_body = ''{ \"Command\": \"l'' @ [CHR 0x5C] @ ''u0073\", \"x\":[1,{}],\"env\":{\"A\":\"1\",\"A\":\"2\"}}''"

lemma sample_body_read:
  "json_read True sample_body = Read (JObj [(''Command'', JStr ''ls''), (''x'', JArr [JInt 1, JObj []]),
     (''env'', JObj [(''A'', JStr ''1''), (''A'', JStr ''2'')])])"
  by (simp add: sample_body_def json_read_sample_simps)

lemma sample_body_decoded:
  "decode_text decode_RunRequest sample_body
    = Some \<lparr>req_Command = ''ls'', req_Env = [(''A'', ''2'')], req_AllowedPaths = [], req_Network = None,
     req_Timeout = 0, req_CallerID = [], req_AuthToken = []\<rparr>"
  by (simp add: sample_body_read decode_text_def decode_RunRequest_def request_fields_def set_request_field_def
      zero_RunRequest_def json_field_def fold_name_def runes_ascii fold_rune_def ascii_upper_def char_of_eq_iff)

theorem decoded_request_typed_witness:
  "\<exists>r. decode_text decode_RunRequest sample_body = Some r \<and> req_Command r = ''ls'' \<and> map_of (req_Env r) ''A'' = Some ''2''"
proof -
  have c: "char_of (67 :: nat) = CHR ''C''" by code_simp
  have n: "named ''command'' [(''Command'', JStr ''ls''), (''x'', JArr [JInt 1, JObj []]),
       (''env'', JObj [(''A'', JStr ''1''), (''A'', JStr ''2'')])] = [JStr ''ls'']"
    "named ''env'' [(''Command'', JStr ''ls''), (''x'', JArr [JInt 1, JObj []]),
       (''env'', JObj [(''A'', JStr ''1''), (''A'', JStr ''2'')])] = [JObj [(''A'', JStr ''1''), (''A'', JStr ''2'')]]"
    by (simp_all add: named_def fold_name_def runes_ascii fold_rune_def ascii_upper_def c)
  show ?thesis
    using decoded_request_typed [OF sample_body_read] sample_body_decoded
    by (simp only: option.case n) (simp add: last_value_def)
qed

end
