(* ===== verification/Locks.thy ===== *)
theory Locks
  imports JobSystem "HOL-Library.Multiset"
begin

text \<open>
  The locks of \<open>jobs.go\<close>: the mutex of the registry, which readers share, the mutex of each job and
  those of its two output buffers, the code of every operation as it takes and releases them, and
  goroutines that run such code in any interleaving. No schedule blocks: every lock is released
  where it is taken and the locks are taken in one order, registry, job, buffer.
\<close>

section \<open>Locks and code\<close>

datatype lock = MgrMu | JobMu nat | StdoutMu nat | StderrMu nat

text \<open>What a goroutine does next: a lock operation, or something that needs no lock.\<close>

datatype instr = Lock lock | Unlock lock | RLock | RUnlock | Act string

definition syncBuffer_locks :: "lock \<Rightarrow> instr list" where
  "syncBuffer_locks mu = [Lock mu, Act ''buf'', Unlock mu]"

definition finish_locks :: "nat \<Rightarrow> instr list" where
  "finish_locks r = [Lock (JobMu r), Act ''status, exitCode, completedAt'', Unlock (JobMu r)]"

definition snapshot_locks :: "bool \<Rightarrow> job_store \<Rightarrow> nat \<Rightarrow> instr list" where
  "snapshot_locks withOutput st r =
     [Lock (JobMu r)]
     @ (if withOutput \<and> status (heap st ! r) \<noteq> JobStatusRunning
        then syncBuffer_locks (StdoutMu r) @ syncBuffer_locks (StderrMu r) @ [Act ''lastAccessedAt''] else [])
     @ [Unlock (JobMu r)]"

definition isExpired_locks :: "nat \<Rightarrow> instr list" where
  "isExpired_locks r = [Lock (JobMu r), Act ''status, lastAccessedAt'', Unlock (JobMu r)]"

definition gcLocked_locks :: "job_store \<Rightarrow> instr list" where
  "gcLocked_locks st = concat (map (\<lambda>(ident, r). isExpired_locks r @ [Act ''delete'']) (jobs st))"

definition Add_locks :: "job_store \<Rightarrow> instr list" where
  "Add_locks st = [Lock MgrMu] @ gcLocked_locks st @ [Act ''seq, id, jobs'', Unlock MgrMu]"

definition Get_locks :: "instr list" where
  "Get_locks = [RLock, Act ''jobs'', RUnlock]"

definition Remove_locks :: "instr list" where
  "Remove_locks = [Lock MgrMu, Act ''delete'', Unlock MgrMu]"

definition List_locks :: "job_store \<Rightarrow> instr list" where
  "List_locks st = [RLock] @ concat (map (\<lambda>(ident, r). snapshot_locks False st r) (jobs st)) @ [RUnlock]"

definition Kill_locks :: "instr list" where
  "Kill_locks = [RLock, Act ''jobs'', RUnlock, Act ''done, cancel'']"

text \<open>
  A job's goroutine: the execution, the writes of its output (the error text only if there is one),
  the look at the context, the terminal status, and the deferred cleanup and close.
\<close>

definition goroutine_locks :: "bool \<Rightarrow> nat \<Rightarrow> instr list" where
  "goroutine_locks failed r =
     [Act ''Exec''] @ (if failed then syncBuffer_locks (StderrMu r) else [])
     @ syncBuffer_locks (StdoutMu r) @ syncBuffer_locks (StderrMu r) @ [Act ''Err'']
     @ finish_locks r @ [Act ''cleanup'', Act ''close(done)'']"

text \<open>
  The calls a goroutine makes: a handler is a sequence of them. What a call finds in the store,
  the jobs of the registry and whether one is done, may be anything.
\<close>

datatype job_call =
    Call_goroutine bool nat
  | Call_snapshot bool job_store nat
  | Call_Add job_store
  | Call_Get
  | Call_Remove
  | Call_List job_store
  | Call_Kill
  | Call_IsDone

fun call_locks :: "job_call \<Rightarrow> instr list" where
  "call_locks (Call_goroutine failed r) = goroutine_locks failed r"
| "call_locks (Call_snapshot b st r) = snapshot_locks b st r"
| "call_locks (Call_Add st) = Add_locks st"
| "call_locks Call_Get = Get_locks"
| "call_locks Call_Remove = Remove_locks"
| "call_locks (Call_List st) = List_locks st"
| "call_locks Call_Kill = Kill_locks"
| "call_locks Call_IsDone = [Act ''done'']"

section \<open>Goroutines and locks\<close>

text \<open>
  The code each goroutine has left, the owner of each mutex (of the registry's: its active writer),
  the readers of the registry, and the writer that has announced itself there, which keeps
  new readers out and waits for the ones inside.
\<close>

record lock_sys =
  ls_code :: "instr list list"
  ls_owner :: "lock \<Rightarrow> nat option"
  ls_readers :: "nat multiset"
  ls_writer :: "nat option"

definition lock_start :: "job_call list list \<Rightarrow> lock_sys" where
  "lock_start calls = \<lparr>ls_code = map (\<lambda>cs. concat (map call_locks cs)) calls,
     ls_owner = (\<lambda>mu. None), ls_readers = {#}, ls_writer = None\<rparr>"

definition goes_on :: "nat \<Rightarrow> instr list \<Rightarrow> lock_sys \<Rightarrow> lock_sys" where
  "goes_on i p s = s\<lparr>ls_code := (ls_code s)[i := p]\<rparr>"

inductive lock_step :: "nat \<Rightarrow> lock_sys \<Rightarrow> lock_sys \<Rightarrow> bool" where
  act: "i < length (ls_code s) \<Longrightarrow> ls_code s ! i = Act a # p \<Longrightarrow> lock_step i s (goes_on i p s)"
| lock: "i < length (ls_code s) \<Longrightarrow> ls_code s ! i = Lock mu # p \<Longrightarrow> mu \<noteq> MgrMu \<Longrightarrow> ls_owner s mu = None \<Longrightarrow>
    lock_step i s (goes_on i p (s\<lparr>ls_owner := (ls_owner s)(mu := Some i)\<rparr>))"
| unlock: "i < length (ls_code s) \<Longrightarrow> ls_code s ! i = Unlock mu # p \<Longrightarrow> mu \<noteq> MgrMu \<Longrightarrow> ls_owner s mu \<noteq> None \<Longrightarrow>
    lock_step i s (goes_on i p (s\<lparr>ls_owner := (ls_owner s)(mu := None)\<rparr>))"
| announce: "i < length (ls_code s) \<Longrightarrow> ls_code s ! i = Lock MgrMu # p \<Longrightarrow> ls_writer s = None \<Longrightarrow>
    lock_step i s (s\<lparr>ls_writer := Some i\<rparr>)"
| write_lock: "i < length (ls_code s) \<Longrightarrow> ls_code s ! i = Lock MgrMu # p \<Longrightarrow> ls_writer s = Some i \<Longrightarrow>
    ls_owner s MgrMu = None \<Longrightarrow> ls_readers s = {#} \<Longrightarrow>
    lock_step i s (goes_on i p (s\<lparr>ls_owner := (ls_owner s)(MgrMu := Some i)\<rparr>))"
| write_unlock: "i < length (ls_code s) \<Longrightarrow> ls_code s ! i = Unlock MgrMu # p \<Longrightarrow> ls_owner s MgrMu \<noteq> None \<Longrightarrow>
    lock_step i s (goes_on i p (s\<lparr>ls_owner := (ls_owner s)(MgrMu := None), ls_writer := None\<rparr>))"
| read_lock: "i < length (ls_code s) \<Longrightarrow> ls_code s ! i = RLock # p \<Longrightarrow> ls_writer s = None \<Longrightarrow>
    lock_step i s (goes_on i p (s\<lparr>ls_readers := add_mset i (ls_readers s)\<rparr>))"
| read_unlock: "i < length (ls_code s) \<Longrightarrow> ls_code s ! i = RUnlock # p \<Longrightarrow> i \<in># ls_readers s \<Longrightarrow>
    lock_step i s (goes_on i p (s\<lparr>ls_readers := ls_readers s - {#i#}\<rparr>))"

text \<open>The states after a number of steps.\<close>

inductive lock_run :: "lock_sys \<Rightarrow> nat \<Rightarrow> lock_sys \<Rightarrow> bool" for s where
  lock_run_0: "lock_run s 0 s"
| lock_run_Suc: "lock_run s n s' \<Longrightarrow> lock_step i s' s'' \<Longrightarrow> lock_run s (Suc n) s''"

section \<open>The order of the locks\<close>

fun rank :: "lock \<Rightarrow> nat" where
  "rank MgrMu = 0"
| "rank (JobMu r) = 1"
| "rank (StdoutMu r) = 2"
| "rank (StderrMu r) = 2"

lemma rank_0: "rank mu = 0 \<Longrightarrow> mu = MgrMu"
  by (cases mu) simp_all

datatype hold = Held lock | Reading

fun rank_hold :: "hold \<Rightarrow> nat" where
  "rank_hold (Held mu) = rank mu"
| "rank_hold Reading = 0"

text \<open>Code that, with the given locks held, takes only higher ones, and gives all back.\<close>

fun disciplined :: "hold set \<Rightarrow> instr list \<Rightarrow> bool" where
  "disciplined H [] \<longleftrightarrow> H = {}"
| "disciplined H (Act a # p) \<longleftrightarrow> disciplined H p"
| "disciplined H (Lock mu # p) \<longleftrightarrow> (\<forall>h \<in> H. rank_hold h < rank mu) \<and> disciplined (insert (Held mu) H) p"
| "disciplined H (Unlock mu # p) \<longleftrightarrow> Held mu \<in> H \<and> disciplined (H - {Held mu}) p"
| "disciplined H (RLock # p) \<longleftrightarrow> H = {} \<and> disciplined {Reading} p"
| "disciplined H (RUnlock # p) \<longleftrightarrow> Reading \<in> H \<and> disciplined (H - {Reading}) p"

lemma disciplined_append: "disciplined H p \<Longrightarrow> disciplined {} q \<Longrightarrow> disciplined H (p @ q)"
  by (induction H p rule: disciplined.induct) simp_all

lemma disciplined_concat: "list_all (disciplined {}) ps \<Longrightarrow> disciplined {} (concat ps)"
  by (induction ps) (simp_all add: disciplined_append)

text \<open>A piece of code that takes one lock above the held ones and gives it back changes nothing.\<close>

lemma disciplined_buffer:
  assumes "\<forall>h \<in> H. rank_hold h < rank mu" "disciplined H p"
  shows "disciplined H (syncBuffer_locks mu @ p)"
proof -
  have "Held mu \<notin> H" using assms(1) by auto
  with assms show ?thesis by (simp add: syncBuffer_locks_def)
qed

lemma disciplined_job:
  assumes "\<forall>h \<in> H. rank_hold h = 0" "disciplined H p"
  shows "disciplined H (snapshot_locks b st r @ p)" "disciplined H (isExpired_locks r @ p)"
    "disciplined H (finish_locks r @ p)"
proof -
  have n: "Held (JobMu r) \<notin> H" using assms(1) by auto
  then have "H - {Held (JobMu r)} = H" by simp
  moreover have "\<forall>h \<in> insert (Held (JobMu r)) H. rank_hold h < 2" using assms(1) by auto
  ultimately show "disciplined H (snapshot_locks b st r @ p)"
    using assms by (auto simp: snapshot_locks_def intro!: disciplined_buffer)
  show "disciplined H (isExpired_locks r @ p)" "disciplined H (finish_locks r @ p)"
    using n assms by (simp_all add: isExpired_locks_def finish_locks_def)
qed

lemma disciplined_calls: "disciplined {} (call_locks c)"
proof (cases c)
  case (Call_goroutine failed r)
  have "disciplined {} (finish_locks r @ [Act ''cleanup'', Act ''close(done)''])" by (rule disciplined_job) simp_all
  then have "disciplined {} (syncBuffer_locks (StdoutMu r) @ syncBuffer_locks (StderrMu r) @ [Act ''Err'']
      @ finish_locks r @ [Act ''cleanup'', Act ''close(done)''])"
    by (intro disciplined_buffer) simp_all
  then show ?thesis
    using Call_goroutine disciplined_buffer [of "{}" "StderrMu r"] by (simp add: goroutine_locks_def)
next
  case (Call_snapshot b st r)
  then show ?thesis using disciplined_job(1) [of "{}" "[]" b st r] by simp
next
  case (Call_Add st)
  have "disciplined {Held MgrMu} (concat (map (\<lambda>(ident, r). isExpired_locks r @ [Act ''delete'']) js) @ p)"
    if "disciplined {Held MgrMu} p" for js p
    using that by (induction js) (auto intro!: disciplined_job)
  from this [of "[Act ''seq, id, jobs'', Unlock MgrMu]" "jobs st"] show ?thesis
    using Call_Add by (simp add: Add_locks_def gcLocked_locks_def)
next
  case (Call_List st)
  have "disciplined {Reading} (concat (map (\<lambda>(ident, r). snapshot_locks False st r) js) @ p)"
    if "disciplined {Reading} p" for js p
    using that by (induction js) (auto intro!: disciplined_job)
  from this [of "[RUnlock]" "jobs st"] show ?thesis using Call_List by (simp add: List_locks_def)
qed (simp_all add: Get_locks_def Remove_locks_def Kill_locks_def)

section \<open>The invariant\<close>

definition holds :: "lock_sys \<Rightarrow> nat \<Rightarrow> hold set" where
  "holds s i = {Held mu | mu. ls_owner s mu = Some i} \<union> (if i \<in># ls_readers s then {Reading} else {})"

text \<open>
  Each goroutine's code is disciplined for what it holds; only goroutines hold locks; a goroutine
  reads once at a time; and a writer that has announced itself is waiting or inside, alone.
\<close>

definition lock_inv :: "lock_sys \<Rightarrow> bool" where
  "lock_inv s \<longleftrightarrow>
     (\<forall>i < length (ls_code s). disciplined (holds s i) (ls_code s ! i) \<and> count (ls_readers s) i \<le> 1)
   \<and> (\<forall>mu i. ls_owner s mu = Some i \<longrightarrow> i < length (ls_code s))
   \<and> (\<forall>i. i \<in># ls_readers s \<longrightarrow> i < length (ls_code s))
   \<and> (\<forall>i. ls_owner s MgrMu = Some i \<longrightarrow> ls_writer s = Some i \<and> ls_readers s = {#})
   \<and> (\<forall>i. ls_writer s = Some i \<longrightarrow> i < length (ls_code s)
        \<and> (ls_owner s MgrMu = Some i \<or> ls_owner s MgrMu = None \<and> (\<exists>p. ls_code s ! i = Lock MgrMu # p)))"

lemma holds_iff:
  "Held mu \<in> holds s i \<longleftrightarrow> ls_owner s mu = Some i" "Reading \<in> holds s i \<longleftrightarrow> i \<in># ls_readers s"
  by (simp_all add: holds_def)

lemma hold_eqI: "(\<And>mu. Held mu \<in> A \<longleftrightarrow> Held mu \<in> B) \<Longrightarrow> (Reading \<in> A \<longleftrightarrow> Reading \<in> B) \<Longrightarrow> A = B"
  by (rule set_eqI) (metis hold.exhaust)

lemma lock_invD:
  assumes "lock_inv s"
  shows "i < length (ls_code s) \<Longrightarrow> disciplined (holds s i) (ls_code s ! i)"
    and "ls_owner s mu = Some i \<Longrightarrow> i < length (ls_code s)"
    and "i \<in># ls_readers s \<Longrightarrow> i < length (ls_code s)"
    and "ls_writer s = Some i \<Longrightarrow> i < length (ls_code s)
      \<and> (ls_owner s MgrMu = Some i \<or> ls_owner s MgrMu = None \<and> (\<exists>p. ls_code s ! i = Lock MgrMu # p))"
  using assms unfolding lock_inv_def by blast+

lemma nothing_held:
  assumes "lock_inv s" "\<And>i. i < length (ls_code s) \<Longrightarrow> holds s i = {}"
  shows "ls_owner s mu = None" "ls_readers s = {#}"
proof -
  show "ls_owner s mu = None"
  proof (cases "ls_owner s mu")
    case (Some i)
    then have "Held mu \<in> holds s i" by (simp add: holds_iff)
    with assms(2) [OF lock_invD(2) [OF assms(1) Some]] show ?thesis by simp
  qed
  have "i \<notin># ls_readers s" for i
  proof
    assume i: "i \<in># ls_readers s"
    then have "Reading \<in> holds s i" by (simp add: holds_iff)
    with assms(2) [OF lock_invD(3) [OF assms(1) i]] show False by simp
  qed
  then have "set_mset (ls_readers s) = {}" by blast
  then show "ls_readers s = {#}" by simp
qed

lemma lock_inv_start: "lock_inv (lock_start calls)"
  using disciplined_concat [of "map call_locks cs" for cs] disciplined_calls
  by (auto simp: lock_inv_def lock_start_def holds_def list_all_iff)

lemma goes_on_fields [simp]:
  "length (ls_code (goes_on i p s)) = length (ls_code s)" "ls_owner (goes_on i p s) = ls_owner s"
  "ls_readers (goes_on i p s) = ls_readers s" "ls_writer (goes_on i p s) = ls_writer s"
  "holds (goes_on i p s) = holds s"
  by (simp_all add: goes_on_def holds_def fun_eq_iff)

lemma goes_on_code:
  "i < length (ls_code s) \<Longrightarrow> ls_code (goes_on i p s) ! k = (if k = i then p else ls_code s ! k)"
  by (auto simp: goes_on_def)

lemma lock_inv_step:
  assumes "lock_step i s s'" "lock_inv s"
  shows "lock_inv s'"
  using assms(1)
proof cases
  case (act a p)
  then have "ls_code s ! i \<noteq> Lock MgrMu # q" for q by simp
  with act assms(2) show ?thesis by (auto simp: lock_inv_def goes_on_code)
next
  case (lock mu p)
  let ?s1 = "s\<lparr>ls_owner := (ls_owner s)(mu := Some i)\<rparr>"
  have h: "holds ?s1 k = (if k = i then insert (Held mu) (holds s k) else holds s k)" for k
    using lock(5) by (intro hold_eqI) (auto simp: holds_iff)
  show ?thesis using lock assms(2) by (auto simp: lock_inv_def goes_on_code h)
next
  case (unlock mu p)
  let ?s1 = "s\<lparr>ls_owner := (ls_owner s)(mu := None)\<rparr>"
  have "disciplined (holds s i) (Unlock mu # p)" using unlock assms(2) by (auto simp: lock_inv_def)
  then have o: "ls_owner s mu = Some i" by (auto simp: holds_def split: if_splits)
  have h: "holds ?s1 k = (if k = i then holds s k - {Held mu} else holds s k)" for k
    using o by (intro hold_eqI) (auto simp: holds_iff)
  show ?thesis using unlock assms(2) by (auto simp: lock_inv_def goes_on_code h)
next
  case (announce p)
  have h: "holds (s\<lparr>ls_writer := Some i\<rparr>) = holds s" by (simp add: holds_def fun_eq_iff)
  have "ls_owner s MgrMu = None" using announce assms(2) by (cases "ls_owner s MgrMu") (auto simp: lock_inv_def)
  with announce assms(2) show ?thesis by (auto simp: lock_inv_def h)
next
  case (write_lock p)
  let ?s1 = "s\<lparr>ls_owner := (ls_owner s)(MgrMu := Some i)\<rparr>"
  have h: "holds ?s1 k = (if k = i then insert (Held MgrMu) (holds s k) else holds s k)" for k
    using write_lock(5) by (intro hold_eqI) (auto simp: holds_iff)
  have "disciplined (holds s i) (Lock MgrMu # p)"
    using lock_invD(1) [OF assms(2) write_lock(2)] by (simp only: write_lock(3))
  then show ?thesis using write_lock assms(2) by (auto simp: lock_inv_def goes_on_code h)
next
  case (write_unlock p)
  let ?s1 = "s\<lparr>ls_owner := (ls_owner s)(MgrMu := None), ls_writer := None\<rparr>"
  have "disciplined (holds s i) (Unlock MgrMu # p)" using write_unlock assms(2) by (auto simp: lock_inv_def)
  then have o: "ls_owner s MgrMu = Some i" by (auto simp: holds_def split: if_splits)
  have h: "holds ?s1 k = (if k = i then holds s k - {Held MgrMu} else holds s k)" for k
    using o by (intro hold_eqI) (auto simp: holds_iff)
  show ?thesis using write_unlock assms(2) by (auto simp: lock_inv_def goes_on_code h)
next
  case (read_lock p)
  let ?s1 = "s\<lparr>ls_readers := add_mset i (ls_readers s)\<rparr>"
  have "disciplined (holds s i) (RLock # p)" using read_lock assms(2) by (auto simp: lock_inv_def)
  then have n: "i \<notin># ls_readers s" "holds s i = {}" by (auto simp: holds_def split: if_splits)
  have h: "holds ?s1 k = (if k = i then {Reading} else holds s k)" for k
    using n by (auto simp: holds_def)
  have "ls_owner s MgrMu = None" using read_lock assms(2) by (cases "ls_owner s MgrMu") (auto simp: lock_inv_def)
  then show ?thesis using read_lock assms(2) n by (auto simp: lock_inv_def goes_on_code h not_in_iff)
next
  case (read_unlock p)
  let ?s1 = "s\<lparr>ls_readers := ls_readers s - {#i#}\<rparr>"
  have c: "count (ls_readers s) i = 1"
    using read_unlock assms(2) by (auto simp: lock_inv_def count_eq_zero_iff dest!: spec [of _ i] intro: le_antisym)
  have h: "holds ?s1 k = (if k = i then holds s k - {Reading} else holds s k)" for k
    using c by (auto simp: holds_def in_diff_count)
  show ?thesis using read_unlock assms(2) by (auto simp: lock_inv_def goes_on_code h dest: in_diffD)
qed

lemma lock_inv_run: "lock_run s0 n s \<Longrightarrow> lock_inv s0 \<Longrightarrow> lock_inv s"
  by (induction rule: lock_run.induct) (auto intro: lock_inv_step)

section \<open>Every schedule ends\<close>

text \<open>The instructions that are left, twice, and one for a writer that may announce itself.\<close>

definition lock_work :: "lock_sys \<Rightarrow> nat" where
  "lock_work s = 2 * sum_list (map length (ls_code s)) + (if ls_writer s = None then 1 else 0)"

lemma work_goes_on:
  assumes "i < length (ls_code s)" "ls_code s ! i = x # p"
  shows "sum_list (map length (ls_code s)) = Suc (sum_list (map length (ls_code (goes_on i p s))))"
proof -
  have "i < length (map length (ls_code s))" "length p \<le> map length (ls_code s) ! i" using assms by simp_all
  from sum_list_update [OF this(1), of "length p"] assms elem_le_sum_list [OF this(1)]
  show ?thesis by (simp add: goes_on_def map_update)
qed

lemma lock_step_work:
  assumes "lock_step i s s'" "lock_inv s"
  shows "lock_work s' < lock_work s"
  using assms(1)
proof cases
  case (announce p)
  then show ?thesis by (simp add: lock_work_def)
qed (use work_goes_on [of i s] in \<open>force simp: lock_work_def goes_on_def\<close>)+

lemma lock_run_work: "lock_run s0 n s \<Longrightarrow> lock_inv s0 \<Longrightarrow> n + lock_work s \<le> lock_work s0"
proof (induction rule: lock_run.induct)
  case (lock_run_Suc n s' i s'')
  with lock_step_work [OF lock_run_Suc.hyps(2)] lock_inv_run [OF lock_run_Suc.hyps(1)] show ?case by simp
qed simp

section \<open>No schedule blocks\<close>

text \<open>The lock that the next instruction of a goroutine needs, by its rank.\<close>

fun wants :: "instr list \<Rightarrow> nat" where
  "wants (Lock mu # p) = rank mu"
| "wants _ = 0"

lemma lock_progress:
  assumes inv: "lock_inv s" and work: "\<exists>i < length (ls_code s). ls_code s ! i \<noteq> []"
  shows "\<exists>i s'. lock_step i s s'"
proof (rule ccontr)
  assume no: "\<not> (\<exists>i s'. lock_step i s s')"
  let ?n = "length (ls_code s)" and ?busy = "{i. i < length (ls_code s) \<and> ls_code s ! i \<noteq> []}"
  have disc: "disciplined (holds s i) (ls_code s ! i)" if "i < ?n" for i using inv that by (simp add: lock_inv_def)
  have idle: "holds s i = {}" if "i < ?n" "i \<notin> ?busy" for i using disc [OF that(1)] that by simp
  have head: "(\<exists>mu p. ls_code s ! i = Lock mu # p \<and> (mu \<noteq> MgrMu \<longrightarrow> ls_owner s mu \<noteq> None)) \<or> (\<exists>p. ls_code s ! i = RLock # p)"
    if i: "i \<in> ?busy" for i
  proof -
    obtain x p where c: "ls_code s ! i = x # p" using i by (cases "ls_code s ! i") auto
    have "disciplined (holds s i) (ls_code s ! i)" using i by (intro disc) simp
    then have d: "disciplined (holds s i) (x # p)" by (simp only: c)
    show ?thesis
    proof (cases x)
      case (Lock mu)
      with no lock_step.lock [of i s mu p] i c show ?thesis by auto
    next
      case (Unlock mu)
      with d have "ls_owner s mu \<noteq> None" by (auto simp: holds_def split: if_splits)
      with no lock_step.unlock [of i s mu p] lock_step.write_unlock [of i s p] Unlock i c show ?thesis
        by (cases "mu = MgrMu") auto
    next
      case RUnlock
      with d have "i \<in># ls_readers s" by (auto simp: holds_def split: if_splits)
      with no lock_step.read_unlock [of i s p] RUnlock i c show ?thesis by auto
    next
      case (Act a)
      with no lock_step.act [of i s a p] i c show ?thesis by auto
    qed (use c in auto)
  qed
  have fin: "finite ?busy" "?busy \<noteq> {}" using work by auto
  define top where "top = Max ((\<lambda>i. wants (ls_code s ! i)) ` ?busy)"
  have le: "wants (ls_code s ! i) \<le> top" if "i \<in> ?busy" for i using fin that by (simp add: top_def)
  have "top \<in> (\<lambda>i. wants (ls_code s ! i)) ` ?busy" unfolding top_def using fin by (intro Max_in) auto
  then obtain t where t: "t \<in> ?busy" "wants (ls_code s ! t) = top" by auto
  show False
  proof (cases "top = 0")
    case False
    then obtain mu p where mu: "ls_code s ! t = Lock mu # p" "rank mu = top" using head [OF t(1)] t(2) by auto
    with False have "mu \<noteq> MgrMu" by auto
    then obtain k where k: "ls_owner s mu = Some k" using head [OF t(1)] mu(1) by auto
    then have held: "Held mu \<in> holds s k" "k < ?n" using inv by (auto simp: holds_def lock_inv_def)
    then have busy: "k \<in> ?busy" using idle [OF held(2)] by auto
    have "disciplined (holds s k) (ls_code s ! k)" using disc held(2) .
    with head [OF busy] have "\<forall>h \<in> holds s k. rank_hold h < wants (ls_code s ! k)" by auto
    then have "rank_hold (Held mu) < wants (ls_code s ! k)" using held(1) by (rule bspec)
    then have "rank mu < wants (ls_code s ! k)" by simp
    with le [OF busy] mu(2) show False by simp
  next
    case True
    have none: "holds s i = {}" if "i < ?n" for i
    proof (cases "i \<in> ?busy")
      case busy: True
      have "wants (ls_code s ! i) = 0" using le [OF busy] True by simp
      then show ?thesis using head [OF busy] disc [OF that] by auto
    qed (use idle that in blast)
    note free = nothing_held(1) [OF inv none] and no_reader = nothing_held(2) [OF inv none]
    show False
    proof (cases "ls_writer s")
      case None
      have "wants (ls_code s ! t) = 0" using t(2) True by simp
      then have "(\<exists>p. ls_code s ! t = Lock MgrMu # p) \<or> (\<exists>p. ls_code s ! t = RLock # p)"
        using head [OF t(1)] rank_0 by auto
      with no None t(1) lock_step.announce [of t s] lock_step.read_lock [of t s] show False by auto
    next
      case (Some w)
      then obtain p where "w < ?n" "ls_code s ! w = Lock MgrMu # p" using inv free by (auto simp: lock_inv_def)
      with no Some free no_reader lock_step.write_lock [of w s p] show False by auto
    qed
  qed
qed

text \<open>
  C19. The goroutines of the daemon never block each other for ever: however many of them make
  whatever calls of jobs and registry, and however their steps interleave, there is a number of
  steps after which every one has returned, and until then some goroutine can go on; in the end
  every lock is free. The execution of a command counts as one step: that it ends is not shown. In particular the goroutine of every job gets to close the job's \<open>done\<close>
  channel once its command has returned, and every handler gets its answer.
\<close>

theorem no_deadlock:
  assumes "lock_run (lock_start calls) n s"
  shows "n \<le> 2 * sum_list (map (\<lambda>cs. sum_list (map (\<lambda>c. length (call_locks c)) cs)) calls) + 1
    \<and> (if list_all (\<lambda>p. p = []) (ls_code s)
       then (\<forall>mu. ls_owner s mu = None) \<and> ls_readers s = {#} \<and> ls_writer s = None
       else \<exists>i s'. lock_step i s s')"
proof -
  note inv0 = lock_inv_start [of calls]
  have inv: "lock_inv s" using lock_inv_run [OF assms inv0] .
  have len: "map length (ls_code (lock_start calls)) = map (\<lambda>cs. sum_list (map (\<lambda>c. length (call_locks c)) cs)) calls"
    by (simp add: lock_start_def length_concat comp_def)
  have "lock_work (lock_start calls) = 2 * sum_list (map length (ls_code (lock_start calls))) + 1"
    by (simp add: lock_work_def lock_start_def)
  then have "n \<le> 2 * sum_list (map length (ls_code (lock_start calls))) + 1"
    using lock_run_work [OF assms inv0] by linarith
  moreover have "(\<forall>mu. ls_owner s mu = None) \<and> ls_readers s = {#} \<and> ls_writer s = None"
    if fin: "list_all (\<lambda>p. p = []) (ls_code s)"
  proof -
    have none: "holds s i = {}" "ls_code s ! i = []" if "i < length (ls_code s)" for i
      using inv fin that by (auto simp: lock_inv_def list_all_length)
    note free = nothing_held(1) [OF inv none(1)]
    have "ls_writer s = None"
    proof (cases "ls_writer s")
      case (Some w)
      with lock_invD(4) [OF inv Some] none(2) [of w] free [of MgrMu] show ?thesis by simp
    qed
    with free nothing_held(2) [OF inv none(1)] show ?thesis by simp
  qed
  moreover have "\<exists>i s'. lock_step i s s'" if "\<not> list_all (\<lambda>p. p = []) (ls_code s)"
    using lock_progress [OF inv] that by (auto simp: list_all_length)
  ultimately show ?thesis unfolding len by simp
qed

text \<open>A reader of the registry waits for a writer that has announced itself; the writer can go on.\<close>

theorem no_deadlock_witness:
  "\<exists>i s'. lock_step i ((lock_start [[Call_Remove], [Call_Get]])\<lparr>ls_writer := Some 0\<rparr>) s'"
proof -
  let ?s = "lock_start [[Call_Remove], [Call_Get]]"
  have "ls_code ?s ! 0 = Lock MgrMu # [Act ''delete'', Unlock MgrMu]"
    by (simp add: lock_start_def Remove_locks_def)
  then have "lock_step 0 ?s (?s\<lparr>ls_writer := Some 0\<rparr>)"
    by (intro lock_step.announce) (simp_all add: lock_start_def)
  then have "lock_run ?s (Suc 0) (?s\<lparr>ls_writer := Some 0\<rparr>)" by (rule lock_run_Suc [OF lock_run_0])
  from no_deadlock [OF this] show ?thesis by (simp add: lock_start_def Remove_locks_def Get_locks_def)
qed

end
