(* ===== verification/Wait.thy ===== *)
theory Wait
  imports Races
begin

text \<open>
  The wait of a run with its clock: the ticker, the timer of the threshold and the context of the
  request that the \<open>select\<close> of \<open>handleRunAutoBackground\<close> waits for, and the choice it has where more
  than one is ready. The loop need not end for its form; that it does, and when, is proved.
\<close>

section \<open>The select statement\<close>

text \<open>
  What is outside the loop: the store that the round \<open>n\<close> finds, the time at which the request's context
  ends, if it does, the choice among channels that are ready together, which Go makes at random, and
  the time that the round takes from waking up to the next \<open>select\<close>.
\<close>

record wait_world =
  ww_store :: "nat \<Rightarrow> job_store"
  ww_ctx :: "(gotime \<times> ctx_error) option"
  ww_pick :: "nat \<Rightarrow> nat"
  ww_cost :: "nat \<Rightarrow> int"

definition poll_interval :: int where
  "poll_interval = 100 * 1000000"

text \<open>
  The ticker's channel holds one tick and drops the others, so after a tick was received at \<open>t\<close> the
  next one to be had is the first that is due after \<open>t\<close>.
\<close>

definition next_tick :: "gotime \<Rightarrow> gotime \<Rightarrow> gotime" where
  "next_tick t0 t = t0 + poll_interval * ((t - t0) div poll_interval + 1)"

text \<open>
  The cases of the \<open>select\<close>, entered at \<open>now\<close>, with the time at which each can go on: a channel that is
  ready already goes on at once. The earliest wins, and among several \<open>ww_pick\<close> chooses.
\<close>

definition select_cases :: "wait_world \<Rightarrow> gotime \<Rightarrow> int \<Rightarrow> gotime \<Rightarrow> gotime \<Rightarrow> (gotime \<times> poll_event) list" where
  "select_cases W t0 threshold now tick =
     [(max now tick, Poll_tick), (max now (t0 + threshold), Poll_threshold)]
     @ (case ww_ctx W of None \<Rightarrow> [] | Some (t, e) \<Rightarrow> [(max now t, Poll_request_done e)])"

definition select :: "(gotime \<times> poll_event) list \<Rightarrow> nat \<Rightarrow> gotime \<times> poll_event" where
  "select cs pick =
     (let t = Min (set (map fst cs)); ready = filter (\<lambda>c. fst c = t) cs in ready ! (pick mod length ready))"

partial_function (option) wait_loop :: "wait_world \<Rightarrow> string list \<Rightarrow> nat \<Rightarrow> gotime \<Rightarrow> int \<Rightarrow> nat \<Rightarrow> gotime \<Rightarrow> gotime \<Rightarrow>
    ((run_error + RunResponse) \<times> job_store \<times> gotime) option" where
  "wait_loop W stripped r t0 threshold n now tick =
     (case select (select_cases W t0 threshold now tick) (ww_pick W n) of (t, ev) \<Rightarrow>
       (case poll_round stripped r ev t (ww_store W n) of
          (Some resp, st') \<Rightarrow> Some (resp, st', t)
        | (None, st') \<Rightarrow> wait_loop W stripped r t0 threshold (Suc n) (t + ww_cost W n) (next_tick t0 t)))"

text \<open>The ticker is started with the loop, so its first tick is due after one interval.\<close>

definition wait_for_job :: "wait_world \<Rightarrow> string list \<Rightarrow> nat \<Rightarrow> gotime \<Rightarrow> int \<Rightarrow>
    ((run_error + RunResponse) \<times> job_store \<times> gotime) option" where
  "wait_for_job W stripped r t0 threshold = wait_loop W stripped r t0 threshold 0 t0 (t0 + poll_interval)"

lemma select_earliest:
  assumes "cs \<noteq> []"
  shows "select cs pick \<in> set cs" "c \<in> set cs \<Longrightarrow> fst (select cs pick) \<le> fst c"
proof -
  let ?t = "Min (set (map fst cs))" and ?ready = "filter (\<lambda>c. fst c = Min (set (map fst cs))) cs"
  have "?t \<in> set (map fst cs)" using assms by (intro Min_in) auto
  then have "?ready \<noteq> []" by (fastforce simp: filter_empty_conv)
  then have "select cs pick \<in> set ?ready" unfolding select_def Let_def by (intro nth_mem) simp
  then show "select cs pick \<in> set cs" and "c \<in> set cs \<Longrightarrow> fst (select cs pick) \<le> fst c" by auto
qed

lemma select_cases_event:
  assumes "select (select_cases W t0 threshold now tick) pick = (t, ev)"
  shows "now \<le> t" "t \<le> max now tick" "t \<le> max now (t0 + threshold)"
    and "case ev of Poll_tick \<Rightarrow> t = max now tick | Poll_threshold \<Rightarrow> t = max now (t0 + threshold)
      | Poll_request_done e \<Rightarrow> (\<exists>tc. ww_ctx W = Some (tc, e) \<and> t = max now tc)"
proof -
  let ?cs = "select_cases W t0 threshold now tick"
  have ne: "?cs \<noteq> []" by (simp add: select_cases_def)
  note s = select_earliest [OF ne, where pick = pick, unfolded assms fst_conv]
  have "(max now tick, Poll_tick) \<in> set ?cs" "(max now (t0 + threshold), Poll_threshold) \<in> set ?cs"
    by (simp_all add: select_cases_def)
  from s(2) [OF this(1)] s(2) [OF this(2)] show "t \<le> max now tick" "t \<le> max now (t0 + threshold)" by simp_all
  have e: "(t, ev) \<in> set ?cs" using select_earliest(1) [OF ne, of pick] by (simp only: assms)
  show "now \<le> t" and "case ev of Poll_tick \<Rightarrow> t = max now tick | Poll_threshold \<Rightarrow> t = max now (t0 + threshold)
      | Poll_request_done e \<Rightarrow> (\<exists>tc. ww_ctx W = Some (tc, e) \<and> t = max now tc)"
    using e by (cases "ww_ctx W"; auto simp: select_cases_def)+
qed

section \<open>The outcome of a wait\<close>

text \<open>
  What ends a wait in the round \<open>n\<close> at the time \<open>t\<close>, with the answer and the store it leaves: the job
  is done; the threshold is reached, with room in the registry or without; the request has ended.
\<close>

definition wait_outcome :: "wait_world \<Rightarrow> string list \<Rightarrow> nat \<Rightarrow> gotime \<Rightarrow> int \<Rightarrow> nat \<Rightarrow> gotime \<Rightarrow>
    run_error + RunResponse \<Rightarrow> job_store \<Rightarrow> bool" where
  "wait_outcome W stripped r t0 threshold n t resp st' \<longleftrightarrow>
     (let st = ww_store W n; j = heap st ! r; others = (\<lambda>q. q \<noteq> r \<longrightarrow> heap st' ! q = heap st ! q) in
      (\<forall>q. others q)
    \<and> (job_done j \<and> jobs st' = jobs st \<and> ctx_cancelled (heap st' ! r) = ctx_cancelled j
         \<and> resp = Inr \<lparr>rsp_Stdout = if status j = JobStatusRunning then [] else job_truncate (job_stdout j),
             rsp_Stderr = if status j = JobStatusRunning then [] else job_truncate (job_stderr j),
             rsp_ExitCode = exitCode j, rsp_StrippedEnvKeys = stripped, rsp_JobID = [], rsp_Status = []\<rparr>
       \<or> t0 + threshold \<le> t \<and> 100 \<le> length (jobs (gcLocked t st)) \<and> resp = Inl JobLimitReached
         \<and> jobs st' = jobs (gcLocked t st) \<and> ctx_cancelled (heap st' ! r)
       \<or> t0 + threshold \<le> t \<and> length (jobs (gcLocked t st)) < 100 \<and> ctx_cancelled (heap st' ! r) = ctx_cancelled j
         \<and> (\<exists>ident. resp = Inr \<lparr>rsp_Stdout = [], rsp_Stderr = [], rsp_ExitCode = 0, rsp_StrippedEnvKeys = [],
              rsp_JobID = ident, rsp_Status = ''background''\<rparr> \<and> Manager_Get ident st' = Some r)
       \<or> (\<exists>tc e. ww_ctx W = Some (tc, e) \<and> tc \<le> t \<and> resp = Inl (RequestContext e)
            \<and> jobs st' = jobs st \<and> ctx_cancelled (heap st' ! r))))"

lemma heap_modify_other: "q \<noteq> r \<Longrightarrow> heap (modify_job r f st) ! q = heap st ! q"
  by (simp add: modify_job_def)

lemma round_outcome:
  assumes "select (select_cases W t0 threshold now tick) pick = (t, ev)" "r < length (heap (ww_store W n))"
    and "poll_round stripped r ev t (ww_store W n) = (Some resp, st')"
  shows "wait_outcome W stripped r t0 threshold n t resp st'"
proof (cases ev)
  case Poll_tick
  with assms(2,3) show ?thesis
    by (auto simp: poll_round_def wait_outcome_def IsDone_def snapshot_def syncBuffer_String_def heap_modify_job
        heap_modify_other Let_def split: if_splits)
next
  case Poll_threshold
  then have t: "t0 + threshold \<le> t" using select_cases_event(4) [OF assms(1)] by simp
  obtain ok st1 where a: "Manager_Add t r (ww_store W n) = (ok, st1)" by fastforce
  show ?thesis
  proof (cases ok)
    case True
    have "length (heap st1) = length (heap (ww_store W n))"
      using a by (auto simp: Manager_Add_def Let_def split: if_splits)
    moreover have "Manager_Get (job_id (heap st1 ! r)) st1 = Some r" "length (jobs (gcLocked t (ww_store W n))) < 100"
      "ctx_cancelled (heap st1 ! r) = ctx_cancelled (heap (ww_store W n) ! r)"
      "q \<noteq> r \<Longrightarrow> heap st1 ! q = heap (ww_store W n) ! q" for q
      using a True assms(2)
      by (auto simp: Manager_Add_def Manager_Get_def maxBackgroundJobs_def Let_def heap_modify_job heap_modify_other update_conv' split: if_splits)
    ultimately show ?thesis
      using Poll_threshold a True assms(3) t by (auto simp: poll_round_def wait_outcome_def Let_def)
  next
    case False
    with a have "st1 = gcLocked t (ww_store W n)" "100 \<le> length (jobs (gcLocked t (ww_store W n)))"
      by (simp_all add: Manager_Add_full maxBackgroundJobs_def)
    with Poll_threshold a False assms(2,3) t show ?thesis
      by (auto simp: poll_round_def wait_outcome_def heap_modify_job heap_modify_other Let_def)
  qed
next
  case (Poll_request_done e)
  with select_cases_event(4) [OF assms(1)] obtain tc where "ww_ctx W = Some (tc, e)" "tc \<le> t" by auto
  with Poll_request_done assms(2,3) show ?thesis
    by (auto simp: poll_round_def wait_outcome_def heap_modify_job heap_modify_other Let_def)
qed

lemma round_again:
  "poll_round stripped r ev t st = (None, st') \<Longrightarrow> ev = Poll_tick \<and> \<not> job_done (heap st ! r)"
  by (cases ev) (auto simp: poll_round_def IsDone_def Let_def split: if_splits prod.splits)

section \<open>The wait ends\<close>

lemma poll_interval_pos: "0 < poll_interval"
  by (simp add: poll_interval_def)

lemma next_tick_due: "tick = t0 + poll_interval * k \<Longrightarrow> next_tick t0 tick = t0 + poll_interval * (k + 1)"
  using poll_interval_pos by (simp add: next_tick_def)

lemma wait_loop_returns:
  assumes "\<And>n. 0 \<le> ww_cost W n \<and> ww_cost W n < poll_interval" "\<And>n. r < length (heap (ww_store W n))"
    and "tick = t0 + poll_interval * k" "t0 \<le> now" "now < tick" "now < max t0 (t0 + threshold) + poll_interval"
  shows "\<exists>m resp st' t. wait_loop W stripped r t0 threshold n now tick = Some (resp, st', t)
    \<and> n \<le> m \<and> now \<le> t \<and> t < max t0 (t0 + threshold) + poll_interval \<and> wait_outcome W stripped r t0 threshold m t resp st'
    \<and> (\<forall>j. n \<le> j \<and> j < m \<longrightarrow> \<not> job_done (heap (ww_store W j) ! r))"
  using assms(3-6)
proof (induction "nat (t0 + threshold + poll_interval - tick)" arbitrary: n now tick k rule: less_induct)
  case less
  obtain t ev where s: "select (select_cases W t0 threshold now tick) (ww_pick W n) = (t, ev)" by fastforce
  note t = select_cases_event(1-3) [OF s]
  note step = wait_loop.simps [of W stripped r t0 threshold n now tick, unfolded s prod.case]
  show ?case
  proof (cases "poll_round stripped r ev t (ww_store W n)")
    case (Pair res st')
    show ?thesis
    proof (cases res)
      case (Some resp)
      have "wait_outcome W stripped r t0 threshold n t resp st'"
        using round_outcome [OF s assms(2)] Pair Some by simp
      moreover have "wait_loop W stripped r t0 threshold n now tick = Some (resp, st', t)"
        using step Pair Some by simp
      moreover have "t < max t0 (t0 + threshold) + poll_interval"
        using t less.prems(2,4) poll_interval_pos by linarith
      ultimately show ?thesis using t(1) by (intro exI [of _ n]) auto
    next
      case None
      with Pair round_again [of stripped r ev t] have ev: "ev = Poll_tick" "\<not> job_done (heap (ww_store W n) ! r)" by auto
      then have tick: "t = tick" using select_cases_event(4) [OF s] less.prems(3) by simp
      have due: "tick \<le> t0 + threshold" using tick t(3) less.prems(3) by linarith
      let ?now = "t + ww_cost W n" and ?tick = "next_tick t0 t"
      have following: "?tick = t0 + poll_interval * (k + 1)" using next_tick_due [OF less.prems(1)] tick by simp
      then have gap: "?tick = tick + poll_interval" using less.prems(1) by (simp add: algebra_simps)
      have cost: "tick \<le> ?now" "?now < ?tick" using assms(1) [of n] tick gap by simp_all
      have "nat (t0 + threshold + poll_interval - ?tick) < nat (t0 + threshold + poll_interval - tick)"
        using gap due poll_interval_pos by simp
      moreover have "t0 \<le> ?now" "?now < max t0 (t0 + threshold) + poll_interval"
        using cost less.prems(2,3) due gap by linarith+
      ultimately obtain m resp st2 t2 where ih:
        "wait_loop W stripped r t0 threshold (Suc n) ?now ?tick = Some (resp, st2, t2)" "Suc n \<le> m" "?now \<le> t2"
        "t2 < max t0 (t0 + threshold) + poll_interval" "wait_outcome W stripped r t0 threshold m t2 resp st2"
        "\<forall>j. Suc n \<le> j \<and> j < m \<longrightarrow> \<not> job_done (heap (ww_store W j) ! r)"
        using less.hyps [OF _ following _ cost(2), of "Suc n"] by blast
      have "wait_loop W stripped r t0 threshold n now tick = Some (resp, st2, t2)" using step Pair None ih(1) by simp
      moreover have "\<forall>j. n \<le> j \<and> j < m \<longrightarrow> \<not> job_done (heap (ww_store W j) ! r)"
        using ih(6) ev(2) by (metis Suc_leI le_neq_implies_less)
      moreover have "now \<le> t2" using ih(3) cost(1) less.prems(3) by linarith
      ultimately show ?thesis using ih by (intro exI [of _ m] exI [of _ resp] exI [of _ st2] exI [of _ t2]) simp
    qed
  qed
qed

text \<open>
  C12. The wait of a run ends, whatever the command does: if a round takes less than the ticker's
  interval of 100 ms, the loop returns, no later than one interval after the threshold (or at
  once, where the threshold is not positive), however the ready channels are chosen among, whatever the
  rounds find and whether or not the request's context ends. And it returns for one of four
  reasons, each with what follows from it: the job was found done, and the caller gets its
  output, whole; the threshold is reached and the registry is full, and the job is cancelled; the
  threshold is reached and the job is registered under the id of the answer; the request has ended,
  and the job is cancelled. No round before found the job done, and no other job is touched.
\<close>

theorem wait_ends:
  assumes "\<forall>n. 0 \<le> ww_cost W n \<and> ww_cost W n < poll_interval" "\<forall>n. r < length (heap (ww_store W n))"
  shows "\<exists>n resp st' t. wait_for_job W stripped r t0 threshold = Some (resp, st', t)
    \<and> t0 \<le> t \<and> t < max t0 (t0 + threshold) + poll_interval \<and> wait_outcome W stripped r t0 threshold n t resp st'
    \<and> (\<forall>m < n. \<not> job_done (heap (ww_store W m) ! r))"
proof -
  have w: "wait_for_job W stripped r t0 threshold = wait_loop W stripped r t0 threshold 0 t0 (t0 + poll_interval)"
    by (simp add: wait_for_job_def)
  have "\<exists>m resp st' t. wait_loop W stripped r t0 threshold 0 t0 (t0 + poll_interval) = Some (resp, st', t)
    \<and> 0 \<le> m \<and> t0 \<le> t \<and> t < max t0 (t0 + threshold) + poll_interval \<and> wait_outcome W stripped r t0 threshold m t resp st'
    \<and> (\<forall>j. 0 \<le> j \<and> j < m \<longrightarrow> \<not> job_done (heap (ww_store W j) ! r))"
    by (rule wait_loop_returns [where k = 1]) (use assms poll_interval_pos in auto)
  then show ?thesis unfolding w by (metis le0)
qed

text \<open>The registry of the samples, found by every round: the job still runs and the request goes on.\<close>

definition sample_wait :: wait_world where
  "sample_wait = \<lparr>ww_store = (\<lambda>n. sample_store sample_job), ww_ctx = None, ww_pick = (\<lambda>n. n), ww_cost = (\<lambda>n. 1000)\<rparr>"

theorem wait_ends_witness:
  "\<exists>resp st' t. wait_for_job sample_wait [] 0 0 1000000000 = Some (resp, st', t) \<and> t < 1100000000
     \<and> (\<exists>rsp. resp = Inr rsp \<and> rsp_Status rsp = ''background'' \<and> Manager_Get (rsp_JobID rsp) st' = Some 0)"
proof -
  have a: "\<forall>n. 0 \<le> ww_cost sample_wait n \<and> ww_cost sample_wait n < poll_interval"
    "\<forall>n. 0 < length (heap (ww_store sample_wait n))"
    by (simp_all add: sample_wait_def sample_store_def poll_interval_def)
  have j: "\<not> job_done sample_job" "ww_ctx sample_wait = None" by (simp_all add: sample_wait_def sample_job_def newBackgroundJob_def)
  have st: "ww_store sample_wait n = sample_store sample_job" for n by (simp add: sample_wait_def)
  have "length (jobs (gcLocked t (sample_store sample_job))) \<le> 1" for t
    using length_filter_le [of _ "jobs (sample_store sample_job)"] by (simp add: gcLocked_def sample_store_def)
  then have "\<not> 100 \<le> length (jobs (gcLocked t (sample_store sample_job)))" for t by (metis le_trans numeral_le_one_iff semiring_norm(69))
  with wait_ends [OF a, of "[]" 0 1000000000] j show ?thesis
    by (auto simp: wait_outcome_def st Let_def poll_interval_def sample_store_def)
qed

section \<open>The same loop over a list of events\<close>

text \<open>What the loop returns is what \<open>poll_loop\<close> returns on the events that were selected.\<close>

lemma wait_loop_poll:
  assumes "wait_loop W stripped r t0 threshold n now tick = Some (resp, st', t)"
  shows "\<exists>obs. poll_loop stripped r obs = Some (resp, st') \<and> (\<forall>ob \<in> set obs. \<exists>m. snd (snd ob) = ww_store W m)"
proof -
  have "\<forall>resp st' t. x = (resp, st', t) \<longrightarrow>
      (\<exists>obs. poll_loop stripped r obs = Some (resp, st') \<and> (\<forall>ob \<in> set obs. \<exists>m. snd (snd ob) = ww_store W m))"
    if "wait_loop W stripped r t0 threshold n now tick = Some x" for x
  proof (rule wait_loop.raw_induct [where P = "\<lambda>W stripped r t0 threshold n now tick x. \<forall>resp st' t. x = (resp, st', t) \<longrightarrow>
      (\<exists>obs. poll_loop stripped r obs = Some (resp, st') \<and> (\<forall>ob \<in> set obs. \<exists>m. snd (snd ob) = ww_store W m))", OF _ that])
    fix f W stripped r t0 threshold n now tick x
    assume IH: "\<And>W stripped r t0 threshold n now tick y. f W stripped r t0 threshold n now tick = Some y \<Longrightarrow>
        \<forall>resp st' t. y = (resp, st', t) \<longrightarrow>
          (\<exists>obs. poll_loop stripped r obs = Some (resp, st') \<and> (\<forall>ob \<in> set obs. \<exists>m. snd (snd ob) = ww_store W m))"
      and body: "(case select (select_cases W t0 threshold now tick) (ww_pick W n) of (t, ev) \<Rightarrow>
        (case poll_round stripped r ev t (ww_store W n) of
           (Some resp, st') \<Rightarrow> Some (resp, st', t)
         | (None, st') \<Rightarrow> f W stripped r t0 threshold (Suc n) (t + ww_cost W n) (next_tick t0 t))) = Some x"
    obtain u ev where s: "select (select_cases W t0 threshold now tick) (ww_pick W n) = (u, ev)" by fastforce
    obtain res st1 where p: "poll_round stripped r ev u (ww_store W n) = (res, st1)" by fastforce
    show "\<forall>resp st' t. x = (resp, st', t) \<longrightarrow>
        (\<exists>obs. poll_loop stripped r obs = Some (resp, st') \<and> (\<forall>ob \<in> set obs. \<exists>m. snd (snd ob) = ww_store W m))"
    proof (cases res)
      case (Some resp)
      then have "x = (resp, st1, u)" using body s p by simp
      moreover have "poll_loop stripped r [(ev, u, ww_store W n)] = Some (resp, st1)" using p Some by simp
      ultimately show ?thesis by (intro allI impI exI [of _ "[(ev, u, ww_store W n)]"]) auto
    next
      case None
      then have f: "f W stripped r t0 threshold (Suc n) (u + ww_cost W n) (next_tick t0 u) = Some x" using body s p by simp
      show ?thesis
      proof (intro allI impI)
        fix resp st' t assume "x = (resp, st', t)"
        with IH [OF f] obtain obs where o: "poll_loop stripped r obs = Some (resp, st')"
          "\<forall>ob \<in> set obs. \<exists>m. snd (snd ob) = ww_store W m" by blast
        then show "\<exists>obs. poll_loop stripped r obs = Some (resp, st') \<and> (\<forall>ob \<in> set obs. \<exists>m. snd (snd ob) = ww_store W m)"
          using p None by (intro exI [of _ "(ev, u, ww_store W n) # obs"]) auto
      qed
    qed
  qed
  with assms show ?thesis by blast
qed

end
