(* ===== verification/Book.thy ===== *)
theory Book
  imports Handler
begin

text \<open>
  What the daemon keeps of its jobs, as a book that knows nothing of stores, locks, channels or
  snapshots: an entry for each id, a page for each job, and the count of the ids issued. Each
  handler of \<open>Handler\<close> is an operation of the book, with the same answer, and a known list of
  events of the job system.
\<close>

section \<open>The book\<close>

text \<open>The page of a job; its output is there once it has ended, and its first reading is noted.\<close>

record page =
  pg_id :: string
  pg_caller :: string
  pg_command :: string
  pg_begun :: gotime
  pg_due :: gotime
  pg_stopped :: bool
  pg_over :: bool
  pg_code :: int
  pg_ended :: "gotime option"
  pg_end :: "(JobStatus \<times> string \<times> string) option"
  pg_read :: "gotime option"

record job_book =
  entries :: "string \<Rightarrow> nat option"
  pages :: "page list"
  issued :: nat

definition stop_job :: "nat \<Rightarrow> job_book \<Rightarrow> job_book" where
  "stop_job r B = B\<lparr>pages := (pages B)[r := (pages B ! r)\<lparr>pg_stopped := True\<rparr>]\<rparr>"

definition note_read :: "gotime \<Rightarrow> nat \<Rightarrow> job_book \<Rightarrow> job_book" where
  "note_read now r B =
     (if pg_end (pages B ! r) \<noteq> None \<and> pg_read (pages B ! r) = None
      then B\<lparr>pages := (pages B)[r := (pages B ! r)\<lparr>pg_read := Some now\<rparr>]\<rparr> else B)"

text \<open>An entry is struck out five minutes after the first reading of its job's output.\<close>

definition stale :: "gotime \<Rightarrow> page \<Rightarrow> bool" where
  "stale now p \<longleftrightarrow> pg_end p \<noteq> None
     \<and> (case pg_read p of None \<Rightarrow> False | Some t \<Rightarrow> t + 300 * 1000000000 \<le> now)"

definition strike :: "gotime \<Rightarrow> job_book \<Rightarrow> job_book" where
  "strike now B = B\<lparr>entries := (\<lambda>i. case entries B i of None \<Rightarrow> None
     | Some r \<Rightarrow> if stale now (pages B ! r) then None else Some r)\<rparr>"

definition enrol :: "gotime \<Rightarrow> nat \<Rightarrow> job_book \<Rightarrow> string option \<times> job_book" where
  "enrol now r B =
     (let B1 = strike now B; n = (issued B + 1) mod 2 ^ 64; i = fmt_06x n in
      if 100 \<le> card (dom (entries B1)) then (None, B1)
      else (Some i, B1\<lparr>entries := (entries B1)(i \<mapsto> r), issued := n,
              pages := (pages B)[r := (pages B ! r)\<lparr>pg_id := i\<rparr>]\<rparr>))"

definition clipped :: "string \<Rightarrow> string" where
  "clipped s = (if length s \<le> 65536 then s else take 65536 s @ nl @ ''...(truncated)'')"

definition page_output :: "page \<Rightarrow> string \<times> string" where
  "page_output p = (case pg_end p of None \<Rightarrow> ([], []) | Some (s, out, err) \<Rightarrow> (clipped out, clipped err))"

definition page_info :: "page \<Rightarrow> JobInfo" where
  "page_info p = \<lparr>info_ID = pg_id p, info_CallerID = pg_caller p, info_Command = pg_command p,
     info_Status = (case pg_end p of None \<Rightarrow> ''running'' | Some (s, _) \<Rightarrow> status_text s),
     info_ExitCode = pg_code p, info_Stdout = fst (page_output p), info_Stderr = snd (page_output p),
     info_StartedAt = pg_begun p, info_CompletedAt = pg_ended p\<rparr>"

section \<open>The handlers as operations of the book\<close>

definition book_start :: "gotime \<Rightarrow> RunRequest \<Rightarrow> job_book \<Rightarrow> job_book" where
  "book_start now req B = B\<lparr>pages := pages B @ [\<lparr>pg_id = [], pg_caller = req_CallerID req,
     pg_command = req_Command req, pg_begun = now, pg_due = now + sint (run_timeout req), pg_stopped = False,
     pg_over = False, pg_code = 0, pg_ended = None, pg_end = None, pg_read = None\<rparr>]\<rparr>"

fun book_round :: "string list \<Rightarrow> nat \<Rightarrow> poll_event \<Rightarrow> gotime \<Rightarrow> job_book \<Rightarrow>
    (run_error + RunResponse) option \<times> job_book" where
  "book_round stripped r Poll_tick now B =
     (let p = pages B ! r in
      if pg_over p then
        (Some (Inr \<lparr>rsp_Stdout = fst (page_output p), rsp_Stderr = snd (page_output p), rsp_ExitCode = pg_code p,
           rsp_StrippedEnvKeys = stripped, rsp_JobID = [], rsp_Status = []\<rparr>), note_read now r B)
      else (None, B))"
| "book_round stripped r Poll_threshold now B =
     (case enrol now r B of
        (None, B') \<Rightarrow> (Some (Inl JobLimitReached), stop_job r B')
      | (Some i, B') \<Rightarrow> (Some (Inr \<lparr>rsp_Stdout = [], rsp_Stderr = [], rsp_ExitCode = 0, rsp_StrippedEnvKeys = [],
           rsp_JobID = i, rsp_Status = ''background''\<rparr>), B'))"
| "book_round stripped r (Poll_request_done e) now B = (Some (Inl (RequestContext e)), stop_job r B)"

definition book_end :: "nat \<Rightarrow> run_error + RunResponse \<Rightarrow> job_book \<Rightarrow> (run_error + RunResponse) \<times> job_book" where
  "book_end r resp B =
     (resp, if \<exists>rsp. resp = Inr rsp \<and> rsp_JobID rsp \<noteq> [] then B else stop_job r B)"

definition book_get :: "gotime \<Rightarrow> string \<Rightarrow> job_book \<Rightarrow> JobInfo http_response \<times> job_book" where
  "book_get now i B =
     (case entries B i of
        None \<Rightarrow> (\<lparr>http_status = 404, http_body = JsonError ''job not found''\<rparr>, B)
      | Some r \<Rightarrow> (\<lparr>http_status = 200, http_body = Json (page_info (pages B ! r))\<rparr>, note_read now r B))"

definition book_kill :: "gotime \<Rightarrow> string \<Rightarrow> job_book \<Rightarrow> JobInfo http_response \<times> job_book" where
  "book_kill now i B =
     (case entries B i of
        None \<Rightarrow> (\<lparr>http_status = 404, http_body = JsonError ''job not found''\<rparr>, B)
      | Some r \<Rightarrow>
          if pg_over (pages B ! r)
          then (\<lparr>http_status = 409, http_body = JsonError ''job already completed''\<rparr>, B)
          else (\<lparr>http_status = 200, http_body = Json (page_info (pages B ! r))\<rparr>, note_read now r (stop_job r B)))"

text \<open>The events of the job system that each of them is.\<close>

fun round_events :: "nat \<Rightarrow> poll_event \<Rightarrow> gotime \<Rightarrow> job_book \<Rightarrow> job_event list" where
  "round_events r Poll_tick now B = (if pg_over (pages B ! r) then [E_read r True] else [])"
| "round_events r Poll_threshold now B =
     (if fst (enrol now r B) = None then [E_register r, E_cancel r] else [E_register r])"
| "round_events r (Poll_request_done e) now B = [E_cancel r]"

definition end_events :: "nat \<Rightarrow> run_error + RunResponse \<Rightarrow> job_event list" where
  "end_events r resp = (if \<exists>rsp. resp = Inr rsp \<and> rsp_JobID rsp \<noteq> [] then [] else [E_cancel r])"

definition get_events :: "string \<Rightarrow> job_book \<Rightarrow> job_event list" where
  "get_events i B = (case entries B i of None \<Rightarrow> [] | Some r \<Rightarrow> [E_read r True])"

definition kill_events :: "string \<Rightarrow> job_book \<Rightarrow> job_event list" where
  "kill_events i B = (case entries B i of None \<Rightarrow> []
     | Some r \<Rightarrow> if pg_over (pages B ! r) then [] else [E_kill i, E_read r True])"

section \<open>The book of a store\<close>

definition page_of :: "BackgroundJob \<Rightarrow> page" where
  "page_of j = \<lparr>pg_id = job_id j, pg_caller = callerID j, pg_command = job_command j, pg_begun = startedAt j,
     pg_due = ctx_deadline j, pg_stopped = ctx_cancelled j, pg_over = job_done j, pg_code = exitCode j,
     pg_ended = completedAt j, pg_end = (if status j = JobStatusRunning then None
       else Some (status j, job_stdout j, job_stderr j)),
     pg_read = lastAccessedAt j\<rparr>"

definition book_of :: "job_store \<Rightarrow> job_book" where
  "book_of st = \<lparr>entries = map_of (jobs st), pages = map page_of (heap st), issued = unat (seq st)\<rparr>"

lemma book_of_simps [simp]:
  "entries (book_of st) = map_of (jobs st)" "pages (book_of st) = map page_of (heap st)"
  "issued (book_of st) = unat (seq st)"
  by (simp_all add: book_of_def)

lemma page_of_simps [simp]:
  "pg_over (page_of j) = job_done j" "pg_id (page_of j) = job_id j" "pg_code (page_of j) = exitCode j"
  "pg_read (page_of j) = lastAccessedAt j" "pg_end (page_of j) = None \<longleftrightarrow> status j = JobStatusRunning"
  by (simp_all add: page_of_def)

lemma book_modify:
  "book_of (modify_job r f st) = (book_of st)\<lparr>pages := (map page_of (heap st))[r := page_of (f (heap st ! r))]\<rparr>"
  by (simp add: book_of_def modify_job_def map_update)

lemma book_cancel:
  "r < length (heap st) \<Longrightarrow> book_of (modify_job r (ctx_cancelled_update (\<lambda>_. True)) st) = stop_job r (book_of st)"
  by (simp add: book_modify stop_job_def) (simp add: page_of_def)

lemma page_snapshot:
  "page_of (snd (snapshot now True j)) =
     (if pg_end (page_of j) \<noteq> None \<and> pg_read (page_of j) = None then (page_of j)\<lparr>pg_read := Some now\<rparr> else page_of j)"
  by (simp add: snapshot_def Let_def page_of_def)

lemma book_read:
  assumes "r < length (heap st)"
  shows "book_of (modify_job r (\<lambda>j. snd (snapshot now True j)) st) = note_read now r (book_of st)"
  using assms list_update_id [of "map page_of (heap st)" r]
  by (auto simp: book_modify note_read_def page_snapshot)

lemma page_info_snapshot: "fst (snapshot now True j) = page_info (page_of j)"
  by (simp add: snapshot_def Let_def page_info_def page_output_def page_of_def clipped_def job_truncate_def
      job_maxOutputBytes_def)

lemma stale_expired: "stale now (page_of j) \<longleftrightarrow> isExpired now j"
  by (auto simp: stale_def isExpired_def completedJobRetention_def split: option.splits)

lemma book_gc:
  assumes "registry_inv st"
  shows "book_of (gcLocked now st) = strike now (book_of st)"
proof -
  have "map_of (jobs (gcLocked now st)) i = entries (strike now (book_of st)) i" for i
  proof -
    have "map_of (jobs (gcLocked now st)) i = Some r \<longleftrightarrow> entries (strike now (book_of st)) i = Some r" for r
      using Manager_Get_gc [OF assms, of i now r] registry_entry [OF assms, of i]
      by (auto simp: Manager_Get_def strike_def stale_expired split: option.splits)
    then show ?thesis by (metis option.exhaust)
  qed
  then show ?thesis by (simp add: book_of_def strike_def fun_eq_iff)
qed

lemma entries_count: "registry_inv st \<Longrightarrow> card (dom (entries (book_of st))) = length (jobs st)"
  using distinct_card [of "map fst (jobs st)"] by (simp add: registry_inv_def gomap_ok_def dom_map_of_conv_image_fst)

lemma book_add:
  assumes "registry_inv st" "Manager_Add now r st = (ok, st')" "r < length (heap st)"
  shows "enrol now r (book_of st) = (if ok then Some (job_id (heap st' ! r)) else None, book_of st')"
proof -
  let ?g = "gcLocked now st" and ?i = "fmt_06x (unat (seq st + 1))"
  have g: "strike now (book_of st) = book_of ?g" and c: "card (dom (entries (book_of ?g))) = length (jobs ?g)"
    using book_gc [OF assms(1)] entries_count [OF registry_inv_gc [OF assms(1)]] by simp_all
  have n: "unat (seq st + 1) = (unat (seq st) + 1) mod 2 ^ 64"
    by (simp add: unat_word_ariths)
  show ?thesis
  proof (cases "maxBackgroundJobs \<le> length (jobs ?g)")
    case True
    with assms(2) have "\<not> ok" "st' = ?g" by (auto simp: Manager_Add_def Let_def)
    with True g c show ?thesis by (simp add: enrol_def Let_def maxBackgroundJobs_def)
  next
    case False
    let ?h = "(heap st)[r := (heap st ! r)\<lparr>job_id := ?i\<rparr>]"
    have st': "ok" "heap st' = ?h" "seq st' = seq st + 1" "jobs st' = AList.update ?i r (jobs ?g)"
      using assms(2) False by (auto simp: Manager_Add_def Let_def modify_job_def)
    have p: "page_of ((heap st ! r)\<lparr>job_id := ?i\<rparr>) = (page_of (heap st ! r))\<lparr>pg_id := ?i\<rparr>" by (simp add: page_of_def)
    have "book_of st' = (book_of ?g)\<lparr>entries := (entries (book_of ?g))(?i \<mapsto> r), issued := unat (seq st + 1),
        pages := (pages (book_of st))[r := (pages (book_of st) ! r)\<lparr>pg_id := ?i\<rparr>]\<rparr>"
      using st' assms(3) p by (simp add: book_of_def update_conv' map_update)
    moreover have "job_id (heap st' ! r) = ?i" using st' assms(3) by simp
    ultimately show ?thesis using False g c st'(1) n
      by (simp add: enrol_def Let_def maxBackgroundJobs_def)
  qed
qed

section \<open>What a handler does, in the store, in the book and as events\<close>

text \<open>
  A handler's answer and store, found at \<open>s\<close>, are those of an operation of the book, and the store
  is what these events make of it.
\<close>

fun carries_out :: "job_sys \<Rightarrow> job_event list \<Rightarrow> 'a \<times> job_store \<Rightarrow> 'a \<times> job_book \<Rightarrow> bool" where
  "carries_out s fs (resp, st') (resp', B') \<longleftrightarrow>
     resp = resp' \<and> book_of st' = B' \<and> job_run fs s (s\<lparr>js_store := st'\<rparr>)"

lemma job_cancel_run: "r < job_count s \<Longrightarrow>
    job_run [E_cancel r] s (s\<lparr>js_store := modify_job r (ctx_cancelled_update (\<lambda>_. True)) (js_store s)\<rparr>)"
  using job_run_1 [OF job_step.cancel] by (simp only: with_store_eq)

lemma job_read_run: "r < job_count s \<Longrightarrow>
    job_run [E_read r True] s (s\<lparr>js_store := modify_job r (\<lambda>j. snd (snapshot (js_clock s) True j)) (js_store s)\<rparr>)"
  using job_run_1 [OF job_step.read] by (simp only: with_store_eq)

lemma poll_round_book:
  assumes "registry_inv (js_store s)" "r < job_count s" "job_id (job_at s r) = []"
  shows "carries_out s (round_events r ev (js_clock s) (book_of (js_store s)))
    (poll_round stripped r ev (js_clock s) (js_store s)) (book_round stripped r ev (js_clock s) (book_of (js_store s)))"
proof -
  let ?now = "js_clock s" and ?st = "js_store s"
  have r: "r < length (heap ?st)" using assms(2) by (simp add: job_count_def)
  show ?thesis
  proof (cases ev)
    case Poll_tick
    have "fst (page_output (page_of j)) = info_Stdout (fst (snapshot ?now True j))
      \<and> snd (page_output (page_of j)) = info_Stderr (fst (snapshot ?now True j))" for j
      by (simp add: page_info_snapshot page_info_def)
    with Poll_tick r job_read_run [OF assms(2)] run_nil [of s] show ?thesis
      by (simp add: poll_round_def IsDone_def book_read Let_def)
  next
    case Poll_threshold
    obtain ok st1 where a: "Manager_Add ?now r ?st = (ok, st1)" by fastforce
    let ?s1 = "s\<lparr>js_store := st1\<rparr>"
    note b = book_add [OF assms(1) a r]
    have reg: "job_step (E_register r) s ?s1"
      using job_step.register [OF assms(2,3)] a by (simp only: with_store_eq snd_conv)
    show ?thesis
    proof (cases ok)
      case True
      with Poll_threshold a b job_run_1 [OF reg] show ?thesis by (simp add: poll_round_def)
    next
      case False
      with a have "heap st1 = heap ?st" by (simp add: Manager_Add_full)
      with r have r1: "r < length (heap st1)" by simp
      then have "job_step (E_cancel r) ?s1 (s\<lparr>js_store := modify_job r (ctx_cancelled_update (\<lambda>_. True)) st1\<rparr>)"
        using job_step.cancel [of r ?s1] by (simp add: with_store_eq job_count_def)
      from job_run_2 [OF reg this] show ?thesis
        using Poll_threshold a b False book_cancel [OF r1] by (simp add: poll_round_def)
    qed
  next
    case (Poll_request_done e)
    with job_cancel_run [OF assms(2)] book_cancel [OF r] show ?thesis by (simp add: poll_round_def)
  qed
qed

lemma handleRun_end_book:
  assumes "r < job_count s"
  shows "carries_out s (end_events r resp) (handleRun_end r resp (js_store s)) (book_end r resp (book_of (js_store s)))"
  using job_cancel_run [OF assms] book_cancel [of r "js_store s"] assms run_nil [of s]
  by (auto simp: handleRun_end_def book_end_def end_events_def job_count_def split: sum.split)

lemma handleHTTPJobGet_book:
  assumes "registry_inv (js_store s)"
  shows "carries_out s (get_events i (book_of (js_store s)))
    (handleHTTPJobGet (js_clock s) i (js_store s)) (book_get (js_clock s) i (book_of (js_store s)))"
proof (cases "Manager_Get i (js_store s)")
  case None
  with run_nil [of s] show ?thesis
    by (simp add: handleHTTPJobGet_def book_get_def get_events_def) (simp add: Manager_Get_def)
next
  case (Some r)
  then have r: "r < length (heap (js_store s))" "map_of (jobs (js_store s)) i = Some r"
    using registry_entry [OF assms Some] by (simp_all add: Manager_Get_def)
  with Some job_read_run [of r s] book_read [OF r(1)] page_info_snapshot show ?thesis
    by (simp add: handleHTTPJobGet_def book_get_def get_events_def job_count_def)
qed

lemma handleHTTPJobKill_book:
  assumes "registry_inv (js_store s)"
  shows "carries_out s (kill_events i (book_of (js_store s)))
    (handleHTTPJobKill (js_clock s) i (js_store s)) (book_kill (js_clock s) i (book_of (js_store s)))"
proof (cases rule: handleHTTPJobKill_cases [of i "js_store s" "js_clock s"])
  case missing
  with run_nil [of s] show ?thesis by (simp add: book_kill_def kill_events_def) (simp add: Manager_Get_def)
next
  case (finished r)
  with registry_entry [OF assms finished(1)] run_nil [of s] show ?thesis
    by (simp add: book_kill_def kill_events_def) (simp add: Manager_Get_def)
next
  case (killed r st1)
  let ?s1 = "s\<lparr>js_store := st1\<rparr>"
  have r: "r < length (heap (js_store s))" "map_of (jobs (js_store s)) i = Some r"
    using registry_entry [OF assms killed(1)] killed(1) by (simp_all add: Manager_Get_def)
  have r1: "r < length (heap st1)" using r(1) killed(3) by simp
  have "job_step (E_kill i) s ?s1" using job_step.kill [of i s] killed(4) by (simp add: with_store_eq)
  moreover have "job_step (E_read r True) ?s1 (s\<lparr>js_store := modify_job r (\<lambda>j. snd (snapshot (js_clock s) True j)) st1\<rparr>)"
    using job_step.read [of r ?s1 True] r1 by (simp add: with_store_eq job_count_def)
  ultimately have run: "job_run [E_kill i, E_read r True] s
      (s\<lparr>js_store := modify_job r (\<lambda>j. snd (snapshot (js_clock s) True j)) st1\<rparr>)" by (rule job_run_2)
  have "page_of (heap st1 ! r) = (page_of (heap (js_store s) ! r))\<lparr>pg_stopped := True\<rparr>"
    using r killed(3) by (simp add: heap_modify_job page_of_def)
  then have "page_info (page_of (heap st1 ! r)) = page_info (page_of (heap (js_store s) ! r))"
    by (simp add: page_info_def page_output_def)
  with killed(2,3,5) r run book_read [OF r1, of "js_clock s"] book_cancel [OF r(1)] show ?thesis
    by (simp add: book_kill_def kill_events_def page_info_snapshot)
qed

end
