(* ===== verification/Spec2Isabelle.thy ===== *)
theory Spec2Isabelle
  imports Background Cli RequestFields Locks Wait Book
begin

text \<open>
  A verification of temenos, a daemon that runs shell commands in a sandbox. A client sends a
  command with the paths and variables it needs; the daemon authorizes the request, works out
  what the command may see, runs it under bubblewrap (Linux) or seatbelt (macOS), and answers
  with its output, or with a job id if it takes long. The theories follow the packages of the
  repository and keep the names of the code where Isabelle allows it. Go's \<open>int\<close> and
  \<open>time.Duration\<close> are 64-bit words, wrapping as in Go; points in time are integers (nanoseconds);
  strings are lists of bytes; a Go map is an association list with distinct keys, in an
  arbitrary order, so that what is proved holds for every order of iteration; an error is a
  value of a sum type.

  The Go standard library, as far as the code uses it, is modelled in \<open>GoStrings\<close> (package
  \<open>strings\<close>, the number formats), \<open>GoPath\<close> (\<open>filepath.Clean\<close>, \<open>Join\<close>, \<open>Dir\<close>, with the canonical
  form of absolute paths), \<open>GoMatch\<close> (\<open>filepath.Match\<close>, with the proof that matching never
  fails for a pattern that was accepted) and \<open>GoUtf8\<close> (the runes of a string, valid UTF-8 and the
  replacement of what is not). \<open>Json\<close> is \<open>encoding/json\<close> at the level of bytes, the writer with
  its escapes and the scanner with its limit on nesting, and \<open>JsonDecode\<close> what it makes of a value
  for a Go variable. \<open>Prelude\<close> holds what all theories share.

  \<^bold>\<open>Parts of the program and their theories\<close>

  \<^item> \<open>Config\<close>: \<open>sandbox/config.go\<close>, loading and checking of the configuration. The TOML
    decoder is an argument.
  \<^item> \<open>EnvPolicy\<close>: the allow-list (\<open>EffectiveAllowEnv\<close>, \<open>FilterEnv\<close>) of \<open>config.go\<close>,
    \<open>validateEnv\<close> of \<open>handler.go\<close> and \<open>buildEnv\<close> of \<open>sandbox.go\<close>: the variables a command sees.
  \<^item> \<open>Mounts\<close>: \<open>AddAncestorMounts\<close> of \<open>sandbox.go\<close> and \<open>buildMounts\<close>, \<open>buildExecConfig\<close> of
    \<open>handler.go\<close>: the directories it is given.
  \<^item> \<open>ToolPaths\<close>: \<open>sandbox/paths.go\<close>, the tool directories and their cache.
  \<^item> \<open>Bwrap\<close>, \<open>Seatbelt\<close>: \<open>bwrap.go\<close> and \<open>policy.go\<close>, the argument vector and the policy text,
    each with an abstract reading: a parser of bubblewrap's options, a list of numbered grants.
  \<^item> \<open>Sbpl\<close>, \<open>Templates\<close>: a reader of the policy language (tokens, nested forms, what the forms
    grant), and the three embedded policy files, byte for byte, with what the reader finds in
    them; together the policy of a macOS run is read as a whole.
  \<^item> \<open>Cgroup\<close>: \<open>cgroup.go\<close> and \<open>cgroup_k8s.go\<close>, the migration into the init leaf and the
    per-command cgroups. The package variables are a record; the file system is a function of
    the operations performed so far, so nothing is assumed of it.
  \<^item> \<open>Exec\<close>: \<open>runCmd\<close>, the four backends and the constructors. A run is a result and a trace of
    events (start, kill, directories and cgroups made and removed).
  \<^item> \<open>Auth\<close>: \<open>internal/auth\<close>, the token review with the bytes it sends and those it is answered,
    the CA that is read once, and the cache, the latter also as a step relation of concurrent
    calls, the sweeper and the clock.
  \<^item> \<open>Jobs\<close>, \<open>JobSystem\<close>: \<open>internal/daemon/jobs.go\<close>, one job, the registry, and the step relation
    of all jobs' goroutines with the calls of the registry, timeouts and readers. A step there is
    what the code does under a lock; \<open>Locks\<close> has the locks themselves, each operation as the
    sequence in which it takes and releases them, and the goroutines that wait for them.
  \<^item> \<open>Handler\<close>: \<open>internal/daemon/handler.go\<close>. The wait of a run is a loop over events, each with
    the time and the store it finds.
  \<^item> \<open>Book\<close>: the abstract specification of the handlers, a book of ids and jobs;
    \<open>handlers_refine_jobs\<close> below ties handlers, book and \<open>JobSystem\<close> together.
  \<^item> \<open>Races\<close>: \<open>handleRun\<close> from the request to the answer, and the kill request with the rest of
    the system running between its steps.
  \<^item> \<open>Wait\<close>: the wait of a run with the ticker, the timer of the threshold, the context of the
    request and the \<open>select\<close> among them; \<open>wait_loop_poll\<close> says that it is the loop of \<open>Handler\<close> over
    the events that were selected.
  \<^item> \<open>Background\<close>: a run from its threshold on, as its caller polls it by the id it was given.
  \<^item> \<open>Wire\<close>: the JSON of every request and response, by the struct tags of \<open>handler.go\<close>, \<open>jobs.go\<close>
    and \<open>client.go\<close>; what one side writes the other reads. \<open>RequestFields\<close>: which requests are
    accepted, and what each field of one is, stated by the tags alone.
  \<^item> \<open>Http\<close>: \<open>newRouter\<close>, \<open>writeJSON\<close> and the serving of a request in \<open>socket.go\<close>, the limit of a
    body, and the client's calls through all of it, as bytes. The matching of the router library is an argument, with its
    documented behaviour as a hypothesis that \<open>sample_chi\<close> satisfies.
  \<^item> \<open>Daemon\<close>: \<open>daemon.go\<close> and \<open>socket.go\<close>, the start of the daemon, its socket and its end.
  \<^item> \<open>Client\<close>: \<open>client/client.go\<close>, addresses, URLs and the reading of each status.
  \<^item> \<open>Status\<close>, \<open>Cli\<close>: \<open>sandbox/status.go\<close>, \<open>cgroup_stub.go\<close> and the commands of \<open>internal/cli\<close>,
    \<open>job\<close>, \<open>doctor\<close>, \<open>daemon\<close>, the command tree and the exit status.
  \<^item> \<open>Launchd\<close>: \<open>internal/daemon/launchd.go\<close>, the property list and the six service commands as
    traces of operations whose answers may depend on all that was done before.

  \<^bold>\<open>Interfaces\<close>

  Six locales state what one part promises to another, and each is interpreted on the
  definitions of the code: \<open>glob_matcher\<close> (what \<open>FilterEnv\<close> needs of matching),
  \<open>sandbox_backend\<close> (the contract of \<open>Sandbox\<close>, for all four backends and the interface call),
  \<open>token_validator\<close> (the direct, the cached and the daemon's validator), \<open>job_registry\<close> and its
  extension \<open>killable_registry\<close> (the manager of \<open>jobs.go\<close>), \<open>json_codec\<close> (client and daemon agree
  on a body: requests, responses, jobs, paths, strings).

  \<^bold>\<open>What is shown\<close>

  Confinement, end to end: the files (C1 on Linux, C2 on macOS) and the variables (C3) of a
  command are those that configuration and request grant, and no text in the request breaks out
  of the argument vector (C25, C26) or of the policy (C2). Authorization: C4, for whatever bytes
  are posted C5, with the cache under concurrency (C27). The connection, end to end and down to
  the bytes: a run (C6), the job calls (C18), the listing (C35) and the job commands with what
  they print (C40) give the caller what the daemon's handlers answer to what the caller asked, by
  the round trip of requests (C28); whatever bytes a caller sends, they are a request exactly if
  the members named by the tags have the types of their fields, and the fields are theirs (C29).
  Jobs: whatever interleaves, results are final (C8) and those of the command (C9), kills are
  not lost (C14) and answered truthfully (C15), the registry is bounded and forgets nothing too
  early (C16, C17), no schedule of goroutines blocks on the locks (C19), no run leaves an unreachable
  command (C13), its wait ends in time and for one of four reasons (C12); what a caller gets is the result of its job, at once (C10) or when it polls
  for a run that went to the background (C11), and the handlers do to the
  jobs what their specification says and nothing else (C7).
  Memory limits: C20 to C23. Every backend keeps its contract and gives back what it takes
  (C24). The service: what launchd reads is what was meant (C36), and
  the order of an installation (C37). The rest covers the helpers, the errors and the two ends
  of the connection. Where the code falls short of its comments, the property
  states what it does (C32, C38) or carries the needed hypothesis (C18, C33, C35, C36, C40).

  \<^bold>\<open>Bounds\<close>

  There is no fuel: loops over slices are structural, the walk up a path, the scanner of a
  pattern, the runes of a string, the escapes of a JSON string and the reader of a property list
  have a measure, the scanner of JSON takes a step for each byte. The wait of a run need not end
  for its form, so \<open>wait_loop\<close> is a partial function, whose value is \<open>None\<close> if it does not; C12
  proves that it does if a round takes less than the 100 ms of the ticker. In \<open>Handler\<close> and
  \<open>Races\<close> the same loop goes over a list of events, with no answer where none of them ends it.
  C19 takes a command's execution, and all else that needs no lock, as a step that ends. The counter of job ids is a 64-bit word; properties that need fresh ids
  assume fewer than \<open>2 ^ 64 - 1\<close> registrations.

  \<^bold>\<open>Not modelled\<close>

  The text of TOML, TLS and the HTTP protocol itself (the model has their values; of the request
  line it has that a space in the query makes the server answer 400, and that the client refuses
  a URL that \<open>net/url\<close> does, a parameter; the server's limit on the header is not modelled); the messages
  of errors of the standard library; logging; the command-line library's matching of arguments to commands and flags (an argument
  of the model, with its documented behaviour as hypothesis); the padding of columns; what kernel,
  bubblewrap, seatbelt and launchd make of their input (the properties speak of what they are
  told; the reader in \<open>Sbpl\<close> is the documented meaning of the forms the policies use); a body that
  repeats an array field, of which \<open>encoding/json\<close> may keep parts of the first array; the panic
  handler of the router.
\<close>

section \<open>A sequence of runs\<close>

text \<open>
  The starts of the runs a daemon receives one after the other, with the times at which they
  arrive: the validator's state goes from one request to the next.
\<close>

fun serve_runs :: "(gotime \<Rightarrow> auth_world) \<Rightarrow> host \<Rightarrow> Config \<Rightarrow> (gotime \<times> RunRequest) list \<Rightarrow>
    tokenCache option \<Rightarrow> (run_error + run_start) list" where
  "serve_runs w h cfg [] tv = []"
| "serve_runs w h cfg ((now, req) # reqs) tv =
     (let (r, tv') = handleRun_start w h now cfg tv req in r # serve_runs w h cfg reqs tv')"

lemma handleRun_start_validator:
  "snd (handleRun_start w h now cfg tv req) = snd (authorize w now cfg tv req)"
  by (simp add: handleRun_start_def split: prod.split sum.split)

lemma handleRun_start_Inr:
  assumes "handleRun_start w h now cfg tv req = (Inr rs, tv')"
  shows "authorize w now cfg tv req = (Inr (), tv')"
    and "prepare_run h cfg req = Inr (rs_config rs, rs_stripped rs)"
    and "rs_job rs = newBackgroundJob now (now + sint (run_timeout req)) (req_CallerID req) (req_Command req)"
  using assms by (auto simp: handleRun_start_def split: prod.splits sum.splits)

lemma authorize_validator:
  assumes "tv_inv w (int d) t tv" "t \<le> now"
  shows "tv_inv w (int d) now (snd (authorize w now cfg tv req))"
proof -
  have keep: "tv_inv w (int d) now tv"
    using assms by (auto simp: tv_inv_def cache_inv_def split: option.splits) force
  from daemon.inv_step [OF assms] show ?thesis
    using keep by (auto simp: authorize_def split: prod.split sum.split) (metis snd_conv)+
qed

lemma daemon_validator_inv:
  assumes "auth_required cfg"
  shows "tv_inv w (int (5 * 60 * 1000000000)) t (daemon_validator cfg)"
proof -
  have "daemon_validator cfg = Some (newTokenCache (int (5 * 60 * 1000000000)))"
    using assms by (simp add: daemon_validator_def auth_required_def review_cache_ttl_def)
  then show ?thesis by (simp add: tv_inv_def cache_inv_def newTokenCache_def)
qed

text \<open>The validator's state after earlier requests.\<close>

fun validator_after :: "(gotime \<Rightarrow> auth_world) \<Rightarrow> Config \<Rightarrow> (gotime \<times> RunRequest) list \<Rightarrow>
    tokenCache option \<Rightarrow> tokenCache option" where
  "validator_after w cfg [] tv = tv"
| "validator_after w cfg ((now, req) # reqs) tv = validator_after w cfg reqs (snd (authorize w now cfg tv req))"

lemma validator_after_inv:
  "tv_inv w (int d) t tv \<Longrightarrow> sorted (t # map fst reqs) \<Longrightarrow>
     tv_inv w (int d) (last (t # map fst reqs)) (validator_after w cfg reqs tv)"
proof (induction reqs arbitrary: t tv)
  case (Cons q reqs)
  obtain now req where q: "q = (now, req)" by (cases q)
  have "tv_inv w (int d) now (snd (authorize w now cfg tv req))"
    using Cons.prems q by (intro authorize_validator) auto
  from Cons.IH [OF this] Cons.prems(2) q show ?case by simp
qed simp

lemma authorize_recent:
  assumes "tv_inv w (int d) t tv" "t \<le> now" "auth_required cfg" "authorize w now cfg tv req = (Inr x, tv')"
  shows "\<exists>v u. v \<le> now \<and> now - int d \<le> v \<and> reviewed w v (req_AuthToken req) u
    \<and> u \<in> set (required_service_accounts cfg)"
proof -
  obtain u where u: "u \<in> set (required_service_accounts cfg)"
    "fst (validateToken w now tv (req_AuthToken req) (TokenReviewURL (Kubernetes cfg))) = Inr u"
    using authorize_Inr [OF assms(4,3)] by auto
  from daemon.sound [OF assms(1,2) u(2)] u(1) show ?thesis by blast
qed

lemma serve_runs_recent:
  assumes "auth_required cfg" "tv_inv w (int d) t tv" "sorted (t # map fst reqs)"
    and "i < length reqs" "serve_runs w h cfg reqs tv ! i = Inr rs"
  shows "\<exists>v u. v \<le> fst (reqs ! i) \<and> fst (reqs ! i) - int d \<le> v
    \<and> reviewed w v (req_AuthToken (snd (reqs ! i))) u \<and> u \<in> set (required_service_accounts cfg)"
  using assms(2-5)
proof (induction reqs arbitrary: i t tv)
  case Nil
  then show ?case by simp
next
  case (Cons q reqs)
  obtain now req where q: "q = (now, req)" by (cases q)
  obtain r tv1 where r: "handleRun_start w h now cfg tv req = (r, tv1)" by fastforce
  have le: "t \<le> now" "sorted (now # map fst reqs)" using Cons.prems(2) q by auto
  show ?case
  proof (cases i)
    case 0
    then have "handleRun_start w h now cfg tv req = (Inr rs, tv1)" using Cons.prems(4) q r by simp
    from authorize_recent [OF Cons.prems(1) le(1) assms(1) handleRun_start_Inr(1) [OF this]]
    show ?thesis using 0 q by simp
  next
    case (Suc j)
    have "tv_inv w (int d) now tv1"
      using authorize_validator [OF Cons.prems(1) le(1), of cfg req] handleRun_start_validator [of w h now cfg tv req] r
      by simp
    from Cons.IH [OF this le(2), of j] show ?thesis using Cons.prems(3,4) Suc q r by simp
  qed
qed

section \<open>Helper facts\<close>

lemma BwrapSandbox_cmd_args:
  assumes "cmd \<in> set (starts (snd (fst (BwrapSandbox_Exec s E st com cfg))))"
  shows "cmd_args cmd = buildArgs (eh_host E) (eh_tools E) s com cfg"
  by (cases rule: BwrapSandbox_Exec_cases [of s E st com cfg])
    (use assms in \<open>auto simp: Let_def starts_append runCmd_promises\<close>)

lemma rejected_cases:
  assumes "handleRun_start w h now cfg tv req = (Inl e, tv')"
  obtains (gate) "authorize w now cfg tv req = (Inl e, tv')"
  | (prepare) "authorize w now cfg tv req = (Inr (), tv')" "prepare_run h cfg req = Inl e"
  using assms by (auto simp: handleRun_start_def split: prod.splits sum.splits)

lemma poll_loop_append:
  "poll_loop stripped r obs = None \<Longrightarrow> poll_loop stripped r (obs @ obs') = poll_loop stripped r obs'"
  by (induction stripped r obs rule: poll_loop.induct) (auto split: prod.splits option.splits)

lemma rejected_status:
  assumes "handleRun_start w h now cfg tv req = (Inl e, tv')"
  shows "error_status e \<noteq> 200"
  using assms
proof (cases rule: rejected_cases)
  case gate
  from authorize_Inl [OF this] show ?thesis by (auto simp: error_status_def)
next
  case prepare
  from prepare_run_Inl [OF prepare(2)] show ?thesis by (auto simp: error_status_def)
qed

lemma handleRun_start_spawn:
  assumes "handleRun_start w h (js_clock s) cfg tv req = (Inr rs, tv')"
  shows "job_step (E_spawn (sint (run_timeout req)) (req_CallerID req) (req_Command req)) s
    (s\<lparr>js_store := (js_store s)\<lparr>heap := heap (js_store s) @ [rs_job rs]\<rparr>, js_work := js_work s @ [Executing]\<rparr>)"
  using job_step.spawn [of "sint (run_timeout req)" "req_CallerID req" "req_Command req" s]
  by (simp add: handleRun_start_Inr(3) [OF assms])

lemma BwrapSandbox_cmd_path:
  assumes "cmd \<in> set (starts (snd (fst (BwrapSandbox_Exec s E st com cfg))))"
  shows "cmd_path cmd = BwrapPath s"
  by (cases rule: BwrapSandbox_Exec_cases [of s E st com cfg])
    (use assms in \<open>auto simp: Let_def starts_append runCmd_promises bwrap_command_simps\<close>)

lemma New_linux_daemon:
  "New_linux found h (daemon_options cfg memMB) =
     (if found ''bwrap'' then IsBwrap \<lparr>BwrapPath = ''bwrap'', bw_Timeout = DefaultTimeout,
        MemoryLimitMB = memMB, KubernetesMode = Enabled (Kubernetes cfg)\<rparr>
      else IsUnavailable \<lparr>un_Platform = goos h\<rparr>)"
  by (simp add: New_linux_def daemon_options_def Let_def)

lemma Run_memory_ready:
  assumes "daemon_Run D memMB cg = (Inr d, cg', ops)" "0 < sint memMB" "goos (dh_host D) = ''linux''"
  shows "cgroupAvailable W cg' = (True, cg')"
  using SetupCgroupV2_None daemon_Run_started [OF assms(1)] assms(2,3) cgroupAvailable_cached by blast

lemma client_New_resolved:
  assumes "client_New h [] = Inr c" "listenAddr h = Some addr" "addr \<noteq> []"
  shows "\<not> strings_HasPrefix addr ''https://''
    \<and> (parseListenAddr addr = (''unix'', addr) \<and> dial_unix c = Some addr \<and> baseURL c = ''http://temenos''
     \<or> parseListenAddr addr = (''tcp'', addr) \<and> dial_unix c = None
       \<and> baseURL c = (if strings_HasPrefix addr ''http://'' then strings_TrimSuffix addr ''/'' else ''http://'' @ addr))"
proof -
  have slash: "\<not> strings_HasPrefix addr ''/'' \<and> \<not> strings_HasPrefix addr ''.''"
    if "strings_HasPrefix addr ''http://'' \<or> strings_HasPrefix addr ''https://''"
    using that by (cases addr) (auto simp: strings_HasPrefix_def)
  show ?thesis
    using assms slash by (auto simp: client_New_def resolveAddr_listenAddr parseListenAddr_def split: if_splits)
qed

section \<open>Sample values\<close>

definition sample_cluster_config :: Config where
  "sample_cluster_config = zero_Config\<lparr>AllowWrite := [''/data''], Kubernetes :=
     \<lparr>Enabled = True, RequireServiceAccount = ''sa:b, sa:a'', TokenReviewURL = ''https://k''\<rparr>\<rparr>"

definition sample_request :: RunRequest where
  "sample_request = \<lparr>req_Command = ''make'', req_Env = [(''USER'', ''u''), (''LD_PRELOAD'', ''x'')],
     req_AllowedPaths = [\<lparr>ap_Path = ''/work'', ap_ReadOnly = False, ap_MetadataOnly = False\<rparr>],
     req_Network = None, req_Timeout = 60, req_CallerID = ''me'', req_AuthToken = ''tok''\<rparr>"

definition sample_exec_config :: ExecConfig where
  "sample_exec_config = \<lparr>Env = [''USER=u''],
     MountDirs = [\<lparr>Source = ''/data'', Target = ''/data'', ReadOnly = False, MetadataOnly = False\<rparr>,
                  \<lparr>Source = ''/work'', Target = ''/work'', ReadOnly = False, MetadataOnly = False\<rparr>],
     WorkingDir = ''/work''\<rparr>"

lemma sample_prepare:
  "prepare_run sample_host sample_cluster_config sample_request = Inr (sample_exec_config, [''LD_PRELOAD''])"
  by code_simp

lemma sample_auth_required: "auth_required sample_cluster_config"
  by (simp add: auth_required_def sample_cluster_config_def)

lemma sample_authorize:
  "fst (authorize sample_review 0 sample_cluster_config (daemon_validator sample_cluster_config) sample_request) = Inr ()"
proof -
  have req: "IsRequiredSA ''sa:a'' (required_service_accounts sample_cluster_config)" by code_simp
  have k: "Kubernetes sample_cluster_config =
      \<lparr>Enabled = True, RequireServiceAccount = ''sa:b, sa:a'', TokenReviewURL = ''https://k''\<rparr>"
    by (simp add: sample_cluster_config_def)
  have t: "req_AuthToken sample_request = ''tok''" by (simp add: sample_request_def)
  show ?thesis
    using req
    by (simp add: authorize_def k t daemon_validator_def validateToken_def cached_validate_def
        Cached_ValidateToken_def cache_get_def newTokenCache_def sample_ValidateToken Let_def
        split: prod.split)
qed

lemma sample_start:
  "\<exists>rs tv. handleRun_start sample_review sample_host 0 sample_cluster_config
     (daemon_validator sample_cluster_config) sample_request = (Inr rs, tv) \<and> rs_config rs = sample_exec_config
     \<and> rs_job rs = newBackgroundJob 0 60000000000 ''me'' ''make''"
proof -
  have d: "sint (run_timeout sample_request) = 60000000000" by code_simp
  obtain tv where "authorize sample_review 0 sample_cluster_config
      (daemon_validator sample_cluster_config) sample_request = (Inr (), tv)"
    using sample_authorize by (metis prod.collapse)
  then show ?thesis by (simp add: handleRun_start_def sample_prepare d) (simp add: sample_request_def)
qed

definition sample_spawned :: job_sys where
  "sample_spawned = \<lparr>js_clock = 0, js_store = \<lparr>heap = [sample_job], jobs = [], seq = 0\<rparr>, js_work = [Executing]\<rparr>"

lemma sample_reach_spawned: "job_reach [E_spawn 60 ''me'' ''sleep 9''] sample_spawned"
proof -
  have "job_step (E_spawn 60 ''me'' ''sleep 9'') (job_init 0) sample_spawned"
    using job_step.spawn [of 60 "''me''" "''sleep 9''" "job_init 0"]
    by (simp add: job_init_def NewBackgroundJobManager_def sample_job_def sample_spawned_def)
  from job_reach_step [OF job_reach_start this] show ?thesis by simp
qed

lemma sample_spawned_simps:
  "registrations [E_spawn 60 ''me'' ''sleep 9''] = 0" "job_count sample_spawned = 1"
  "job_id (job_at sample_spawned 0) = []" "js_store sample_spawned = \<lparr>heap = [sample_job], jobs = [], seq = 0\<rparr>"
  by (simp_all add: registrations_def is_register_def sample_spawned_def job_count_def job_at_def
      sample_job_def newBackgroundJob_def)

definition sample_daemon :: "string + Config \<Rightarrow> daemon_host" where
  "sample_daemon file = \<lparr>dh_host = sample_host, dh_mkdir_ok = (\<lambda>_. True), dh_decode = (\<lambda>_. file),
     dh_New = New_linux (\<lambda>_. True) sample_host, dh_listen_ok = (\<lambda>_ _. True), dh_chmod_ok = (\<lambda>_. True),
     dh_cgroups = sample_world\<rparr>"

definition sample_socket :: string where
  "sample_socket = ''/home/u/.temenos/daemon.sock''"

lemma sample_listenAddr: "listenAddr sample_host = Some sample_socket"
  "parseListenAddr sample_socket = (''unix'', sample_socket)"
  by code_simp+

lemma sample_linux: "goos sample_host = ''linux''"
  by (simp add: sample_host_def)

lemma sample_Run:
  "\<exists>d ops. daemon_Run (sample_daemon file) 512 cg_initial = (Inr d, sample_cg_ready, ops) \<and> sd_addr d = sample_socket
     \<and> sd_network d = ''unix'' \<and> sd_sandbox d = New_linux (\<lambda>_. True) sample_host (daemon_options (sd_config d) 512)"
  by (simp add: daemon_Run_def platform_SetupCgroupV2_def sample_linux sample_daemon_def sample_listenAddr sample_setup
      listenHTTP_def Let_def)

section \<open>Properties\<close>

text \<open>
  C4. The authorization gate. Where the configuration requires service accounts, a daemon that has
  just started lets a run proceed, at any place of any sequence of requests in the order of
  time, only if within the last five minutes the API server was sent a review in which it reads
  that request's token, byte for byte, and answered with a body that says authenticated and names
  one of the required accounts. (\<open>Wire\<close> shows that a request read from a body is well typed.)
\<close>

theorem authorized_run:
  assumes "auth_required cfg" "sorted (map fst reqs)" "i < length reqs"
    and "request_typed (snd (reqs ! i))" and "serve_runs w h cfg reqs (daemon_validator cfg) ! i = Inr rs"
  shows "\<exists>v u. v \<le> fst (reqs ! i) \<and> fst (reqs ! i) - 5 * 60 * 1000000000 \<le> v
    \<and> review_confirmed (w v) (req_AuthToken (snd (reqs ! i))) u \<and> u \<in> set (required_service_accounts cfg)"
proof -
  let ?t = "fst (hd reqs)" and ?d = "5 * 60 * 1000000000 :: nat"
  have "tv_inv w (int ?d) ?t (daemon_validator cfg)" by (rule daemon_validator_inv [OF assms(1)])
  moreover have "sorted (?t # map fst reqs)" using assms(2,3) by (cases reqs) auto
  ultimately have "\<exists>v u. v \<le> fst (reqs ! i) \<and> fst (reqs ! i) - int ?d \<le> v
    \<and> reviewed w v (req_AuthToken (snd (reqs ! i))) u \<and> u \<in> set (required_service_accounts cfg)"
    by (rule serve_runs_recent [OF assms(1) _ _ assms(3,5)])
  then show ?thesis
    using assms(4) vouches_confirmed by (force simp: reviewed_def request_typed_def)
qed

theorem authorized_run_witness:
  "\<exists>rs v u. serve_runs sample_review sample_host sample_cluster_config [(0, sample_request)]
       (daemon_validator sample_cluster_config) ! 0 = Inr rs
     \<and> - 300000000000 \<le> v \<and> v \<le> 0 \<and> review_confirmed (sample_review v) ''tok'' u"
proof -
  obtain rs where rs: "serve_runs sample_review sample_host sample_cluster_config [(0, sample_request)]
       (daemon_validator sample_cluster_config) ! 0 = Inr rs"
    using sample_start by auto
  have t: "req_AuthToken sample_request = ''tok''" by (simp add: sample_request_def)
  have "request_typed sample_request"
    by (simp add: sample_request_def request_typed_def env_typed_def gomap_ok_def ascii_text)
  with authorized_run [OF sample_auth_required _ _ _ rs] rs show ?thesis by (auto simp: t)
qed

text \<open>
  C5. Whatever bytes are posted to \<open>/run\<close>: with required service accounts, and after any earlier
  requests, the daemon either leaves its jobs as they are and does not answer 200, or the bytes
  are a well typed request whose token the API server confirmed, within the last five minutes,
  for one of the required accounts, and whose run was prepared as the configuration allows.
  \<open>run\<close> is what the run handler returns, with some events of its wait.
\<close>

theorem posted_bytes_gated:
  assumes "chi_documented (app_chi A)" and "base_plain c" and "auth_required cfg"
    and "sorted (map fst earlier @ [now])" and "tv = validator_after w cfg earlier (daemon_validator cfg)"
    and "\<And>req. \<exists>obs tv'. handleRun w h now cfg tv req st obs = Some (fst (run req st), snd (run req st), tv')"
    and "serve A run now ''POST'' (baseURL c @ ''/run'') body st = (resp, st')"
  shows "wr_status resp \<noteq> 200 \<and> st' = st
    \<or> (\<exists>req rs v u. decode_run_body A body = Inr req \<and> request_typed req
        \<and> fst (handleRun_start w h now cfg tv req) = Inr rs
        \<and> now - 5 * 60 * 1000000000 \<le> v \<and> v \<le> now \<and> review_confirmed (w v) (req_AuthToken req) u
        \<and> u \<in> set (required_service_accounts cfg))"
proof -
  have s: "(resp, st') = handle_route A run now R_run (baseURL c @ ''/run'') [] body st"
    using serve_routed [OF assms(2), of "''run''" "[]" A "''POST''" R_run "[]"] find_route_cases(1) [OF assms(1)] assms(7)
    by (simp add: path_plain_def)
  show ?thesis
  proof (cases "decode_run_body A body")
    case (Inl e)
    with s show ?thesis by (simp add: handle_route_def handleHTTPValidating_def respond_def http_Error_def)
  next
    case (Inr req)
    obtain e tv' where start: "handleRun_start w h now cfg tv req = (e, tv')" by fastforce
    show ?thesis
    proof (cases e)
      case (Inl x)
      with assms(6) [of req] start have run: "run req st = (Inl x, st)"
        by (auto simp: handleRun_def prod_eq_iff)
      have "error_status x \<noteq> 200" by (rule rejected_status [OF start [unfolded Inl]])
      with s Inr run show ?thesis by (simp add: handle_route_def respond_run writeJSON_def)
    next
      case (Inr rs)
      let ?t = "fst (hd (earlier @ [(now, req)]))" and ?d = "5 * 60 * 1000000000 :: nat"
      have "tv_inv w (int ?d) (last (?t # map fst earlier)) tv"
        unfolding assms(5)
        by (rule validator_after_inv [OF daemon_validator_inv [OF assms(3)]])
          (use assms(4) in \<open>cases earlier; auto simp: sorted_append\<close>)
      moreover have "last (?t # map fst earlier) \<le> now"
        using assms(4) by (cases earlier rule: rev_cases) (auto simp: sorted_append)
      ultimately obtain v u where "v \<le> now" "now - int ?d \<le> v" "reviewed w v (req_AuthToken req) u"
        "u \<in> set (required_service_accounts cfg)"
        using authorize_recent [OF _ _ assms(3) handleRun_start_Inr(1) [OF start [unfolded Inr]]] by blast
      moreover have "request_typed req" by (rule decode_run_body_Inr [OF \<open>decode_run_body A body = Inr req\<close>])
      ultimately show ?thesis
        using \<open>decode_run_body A body = Inr req\<close> start Inr vouches_confirmed
        by (fastforce simp: reviewed_def request_typed_def)
    qed
  qed
qed

text \<open>A handler whose wait always ends at its threshold.\<close>

definition sample_handler :: run_function where
  "sample_handler req st =
     (case handleRun sample_review sample_host 0 sample_cluster_config (daemon_validator sample_cluster_config) req st
         [(Poll_threshold, 0, st\<lparr>heap := heap st @ [newBackgroundJob 0 0 [] []]\<rparr>)] of
        Some (resp, st', tv') \<Rightarrow> (resp, st')
      | None \<Rightarrow> (Inl JobLimitReached, st))"

lemma sample_handler_runs:
  "\<exists>obs tv'. handleRun sample_review sample_host 0 sample_cluster_config (daemon_validator sample_cluster_config) req st obs
     = Some (fst (sample_handler req st), snd (sample_handler req st), tv')"
proof -
  have "handleRun sample_review sample_host 0 sample_cluster_config (daemon_validator sample_cluster_config) req st
      [(Poll_threshold, 0, st\<lparr>heap := heap st @ [newBackgroundJob 0 0 [] []]\<rparr>)] \<noteq> None"
    by (simp add: handleRun_def poll_round_def Let_def split: prod.split sum.split)
  then show ?thesis by (auto simp: sample_handler_def split: option.splits)
qed

text \<open>The sample body carries no token, so it is refused.\<close>

theorem posted_bytes_gated_witness:
  "\<exists>resp. serve sample_app sample_handler 0 ''POST'' (baseURL sample_client @ ''/run'') sample_body
       \<lparr>heap = [], jobs = [], seq = 0\<rparr> = (resp, \<lparr>heap = [], jobs = [], seq = 0\<rparr>) \<and> wr_status resp \<noteq> 200"
proof -
  let ?st = "\<lparr>heap = [], jobs = [], seq = 0\<rparr> :: job_store"
  obtain resp st' where r: "serve sample_app sample_handler 0 ''POST'' (baseURL sample_client @ ''/run'') sample_body ?st
      = (resp, st')" by fastforce
  have chi: "chi_documented (app_chi sample_app)" using sample_chi_documented by (simp add: sample_app_def)
  have d: "decode_run_body sample_app sample_body = Inr \<lparr>req_Command = ''ls'', req_Env = [(''A'', ''2'')],
      req_AllowedPaths = [], req_Network = None, req_Timeout = 0, req_CallerID = [], req_AuthToken = []\<rparr>"
    by (rule decode_run_body_small [OF _ sample_body_decoded]) (simp add: sample_body_def max_body_def)
  have no: "\<not> review_confirmed (sample_review v) [] u" for v u
    using review_payload_reads [of "''tok''"]
    by (auto simp: review_confirmed_def sample_review_def reads_token_def ascii_text split: if_splits)
  from posted_bytes_gated [OF chi sample_client_plain sample_auth_required _ _ sample_handler_runs r, of "[]"] no
  show ?thesis using r by (auto simp: d)
qed

text \<open>
  C32. A run that is refused before its job starts is refused for a reason the request or the
  cluster gives, and the HTTP status tells which: 401 without a token and 403 with one that is
  not accepted, only where authorization is required; 400 for a path that is not absolute; and
  500 for an environment entry with a bad name or value.
\<close>

theorem rejected_run_status:
  assumes "handleRun_start w h now cfg tv req = (Inl e, tv')"
  shows "let code = http_status (handleHTTPValidating render (\<lambda>_. Inl e :: run_error + RunResponse) (Inr req)) in
    code = 401 \<and> auth_required cfg \<and> req_AuthToken req = []
    \<or> code = 403 \<and> auth_required cfg \<and> req_AuthToken req \<noteq> []
    \<or> code = 400 \<and> (\<exists>ap \<in> set (req_AllowedPaths req). \<not> filepath_IsAbs (ap_Path ap))
    \<or> code = 500 \<and> (\<exists>kv \<in> set (req_Env req). \<exists>x. bad_env_entry kv x)"
  using assms
proof (cases rule: rejected_cases)
  case gate
  from authorize_Inl [OF this] show ?thesis by (auto simp: handleHTTPValidating_def Let_def)
next
  case prepare
  from prepare_run_Inl [OF prepare(2)] show ?thesis by (auto simp: handleHTTPValidating_def Let_def)
qed

theorem rejected_run_status_witness:
  "\<exists>e. fst (handleRun_start sample_review sample_host 0 zero_Config None
       (sample_request\<lparr>req_Env := [(''A-B'', ''1'')]\<rparr>)) = Inl e
     \<and> http_status (handleHTTPValidating (\<lambda>_. []) (\<lambda>_. Inl e :: run_error + RunResponse)
         (Inr (sample_request\<lparr>req_Env := [(''A-B'', ''1'')]\<rparr>))) = 500"
proof -
  let ?req = "sample_request\<lparr>req_Env := [(''A-B'', ''1'')]\<rparr>"
  have p: "prepare_run sample_host zero_Config ?req = Inl (EnvValidation (InvalidEnvName ''A-B''))" by code_simp
  have a: "authorize sample_review 0 zero_Config None ?req = (Inr (), None)"
    by (rule authorize_open) (simp add: auth_required_def zero_Config_def)
  have s: "handleRun_start sample_review sample_host 0 zero_Config None ?req =
      (Inl (EnvValidation (InvalidEnvName ''A-B'')), None)"
    by (simp only: handleRun_start_def p a sum.case prod.case)
  have no: "\<not> auth_required zero_Config" by (simp add: auth_required_def zero_Config_def)
  have "list_all (\<lambda>ap. filepath_IsAbs (ap_Path ap)) (req_AllowedPaths ?req)" by code_simp
  then have "\<forall>ap \<in> set (req_AllowedPaths ?req). filepath_IsAbs (ap_Path ap)" by (simp only: list_all_iff)
  with rejected_run_status [OF s, of "\<lambda>_. []"] no have "http_status (handleHTTPValidating (\<lambda>_. [])
      (\<lambda>_. Inl (EnvValidation (InvalidEnvName ''A-B'')) :: run_error + RunResponse) (Inr ?req)) = 500"
    unfolding Let_def by blast
  with s show ?thesis by (intro exI [of _ "EnvValidation (InvalidEnvName ''A-B'')"]) (simp only: fst_conv)
qed

text \<open>
  C3. The environment of a command, end to end: whichever backend runs the command of an accepted
  request, a variable has the requested value exactly if the configuration allows its name,
  and otherwise the built-in value of the sandbox or none; nothing of the daemon's own
  environment comes through.
\<close>

theorem command_env_confined:
  assumes "handleRun_start w h now cfg tv req = (Inr rs, tv')" "gomap_ok (req_Env req)"
    and "cmd \<in> set (starts (snd (fst (Sandbox_Exec sb E st (req_Command req) (Some (rs_config rs))))))"
  shows "\<exists>fb. \<forall>k. exec_env_lookup (cmd_env cmd) k =
    (case map_of (req_Env req) k of
       Some v \<Rightarrow> if env_allowed cfg k then Some v else builtin_env (eh_tools E) fb k
     | None \<Rightarrow> builtin_env (eh_tools E) fb k)"
  by (rule prepared_env [OF handleRun_start_Inr(2) [OF assms(1)] assms(2,3)])

theorem command_env_confined_witness:
  "\<exists>cmd. cmd \<in> set (starts (snd (fst (Sandbox_Exec (IsNoop \<lparr>np_Timeout = 0\<rparr>) sample_env sample_cg_ready
       ''make'' (Some sample_exec_config)))))
     \<and> exec_env_lookup (cmd_env cmd) ''USER'' = Some ''u'' \<and> exec_env_lookup (cmd_env cmd) ''LD_PRELOAD'' = None"
proof -
  obtain rs tv where rs: "handleRun_start sample_review sample_host 0 sample_cluster_config
     (daemon_validator sample_cluster_config) sample_request = (Inr rs, tv)" "rs_config rs = sample_exec_config"
    using sample_start by blast
  have req: "req_Command sample_request = ''make''"
    "req_Env sample_request = [(''USER'', ''u''), (''LD_PRELOAD'', ''x'')]" by (simp_all add: sample_request_def)
  obtain cmd where cmd: "cmd \<in> set (starts (snd (fst (Sandbox_Exec (IsNoop \<lparr>np_Timeout = 0\<rparr>) sample_env
      sample_cg_ready ''make'' (Some sample_exec_config)))))"
    by (simp add: NoopSandbox_Exec_def Let_def runCmd_promises)
  have e: "env_allowed sample_cluster_config ''USER''" "\<not> env_allowed sample_cluster_config ''LD_PRELOAD''"
    by (simp_all only: key_matched_Effective [symmetric]) code_simp+
  from command_env_confined [OF rs(1), of cmd "IsNoop \<lparr>np_Timeout = 0\<rparr>" sample_env sample_cg_ready]
  obtain fb where "\<forall>k. exec_env_lookup (cmd_env cmd) k =
    (case map_of (req_Env sample_request) k of
       Some v \<Rightarrow> if env_allowed sample_cluster_config k then Some v else builtin_env (eh_tools sample_env) fb k
     | None \<Rightarrow> builtin_env (eh_tools sample_env) fb k)"
    using cmd rs(2) req by (auto simp: gomap_ok_def)
  then have "exec_env_lookup (cmd_env cmd) ''USER'' = Some ''u''" "exec_env_lookup (cmd_env cmd) ''LD_PRELOAD'' = None"
    using e req by (simp_all add: builtin_env_def)
  with cmd show ?thesis by blast
qed

text \<open>
  C1. The files of a command, end to end: the host paths that bubblewrap is told to bind writable
  are exactly the existing ones among the configured write paths and the request's writable
  paths; the ones it exposes at all are, besides the fixed system paths, the tool directories
  and the Nix store, exactly the existing ones that configuration and request grant for reading.
\<close>

theorem command_files_confined:
  assumes "handleRun_start w h now cfg tv req = (Inr rs, tv')" "gomap_ok (req_Env req)"
    and "host_paths_ok (eh_host E)" "eh_tools E = discoverToolDirs (eh_host E)"
    and "cmd \<in> set (starts (snd (fst (BwrapSandbox_Exec s E st (req_Command req) (Some (rs_config rs))))))"
  shows "writable_sources (cmd_args cmd) = {p \<in> grants_write cfg req. stat_path (eh_host E) p = Stat_ok}
    \<and> exposed_sources (cmd_args cmd) = static_sources (eh_host E) \<union> set (tool_binds (eh_host E) (eh_tools E))
        \<union> (if stat_path (eh_host E) ''/nix/store'' = Stat_ok then {''/nix/store''} else {})
        \<union> {p \<in> grants_read cfg req. stat_path (eh_host E) p = Stat_ok}"
proof -
  have ok: "tool_dirs_ok (eh_tools E)" using discover_tool_dirs_ok [OF assms(3)] assms(4) by simp
  note p = prepared_mounts [OF handleRun_start_Inr(2) [OF assms(1)] assms(2), of "\<lambda>p. stat_path (eh_host E) p = Stat_ok"]
  show ?thesis
    unfolding BwrapSandbox_cmd_args [OF assms(5)] writable_sources_buildArgs [OF ok]
      exposed_sources_buildArgs [OF ok] p by blast
qed

theorem command_files_confined_witness:
  "\<exists>cmd. cmd \<in> set (starts (snd (fst (BwrapSandbox_Exec sample_bwrap
       (sample_env\<lparr>eh_tools := discoverToolDirs sample_host\<rparr>) sample_cg_ready ''make'' (Some sample_exec_config)))))
     \<and> writable_sources (cmd_args cmd) = {''/data'', ''/work''}"
proof -
  let ?E = "sample_env\<lparr>eh_tools := discoverToolDirs sample_host\<rparr>"
  obtain rs tv where rs: "handleRun_start sample_review sample_host 0 sample_cluster_config
     (daemon_validator sample_cluster_config) sample_request = (Inr rs, tv)" "rs_config rs = sample_exec_config"
    using sample_start by blast
  have h: "eh_host ?E = sample_host" by (simp add: sample_env_def)
  have req: "req_Command sample_request = ''make''" "gomap_ok (req_Env sample_request)"
    by (simp_all add: sample_request_def gomap_ok_def)
  obtain cmd where cmd: "cmd \<in> set (starts (snd (fst (BwrapSandbox_Exec sample_bwrap ?E
      sample_cg_ready ''make'' (Some sample_exec_config)))))"
    by (simp add: BwrapSandbox_Exec_def sample_bwrap_def Let_def runCmd_promises)
  have "filepath_Clean ''/work'' = ''/work''" by code_simp
  then have g: "grants_write sample_cluster_config sample_request = {''/data'', ''/work''}"
    by (auto simp: grants_write_def sample_cluster_config_def sample_request_def)
  have "writable_sources (cmd_args cmd) =
      {p \<in> grants_write sample_cluster_config sample_request. stat_path (eh_host ?E) p = Stat_ok}"
    by (rule conjunct1 [OF command_files_confined [OF rs(1) req(2)]])
      (use cmd rs(2) req(1) h sample_host_paths in simp_all)
  then have "writable_sources (cmd_args cmd) = {''/data'', ''/work''}"
    using h g by (auto simp: sample_host_def)
  with cmd show ?thesis by blast
qed

text \<open>
  C2. The files of a command on macOS, end to end, from the embedded templates to the parameters:
  as \<open>sandbox-exec\<close> reads its arguments, it gets one policy and the request's command; the policy
  denies by default and has no other denial; files may be read exactly at the paths the templates
  name, under the tool directories, and under what configuration and request grant for reading;
  and every kind of writing is allowed exactly at the paths the templates name and under what
  configuration and request grant for writing.
\<close>

theorem command_files_confined_darwin:
  assumes "handleRun_start w h now cfg tv req = (Inr rs, tv')" "gomap_ok (req_Env req)"
    and "eh_tools E = discoverToolDirs (eh_host E)"
    and "cmd \<in> set (starts (snd (SeatbeltSandbox_Exec s E (req_Command req) (Some (rs_config rs)))))"
  shows "\<exists>policy params fs cd. sandbox_exec_args (cmd_args cmd) = Some ([policy], params, [''bash'', ''-c'', req_Command req])
    \<and> sbpl_forms policy = Some fs \<and> eh_cachedir E = Some cd \<and> denials fs = [[Sym ''default'']]
    \<and> set (granted (map_of params) ''file-read-data'' fs) =
        set (template_reads cd) \<union> Below ` (grants_read cfg req \<union> set (tool_reads (eh_tools E) {}))
    \<and> (\<forall>op. strings_HasPrefix op ''file-write'' \<longrightarrow> set (granted (map_of params) op fs) =
        set (if op = ''file-write-data'' then template_writes cd else template_changes cd) \<union> Below ` grants_write cfg req)"
proof -
  obtain policy ps where p: "buildPolicy (eh_host E) (eh_tools E) seatbeltBase seatbeltPlatform seatbeltNetwork
      (eh_cachedir E) (Some (rs_config rs)) = Inr (policy, ps)"
    "cmd_args cmd = [''-p'', policy] @ ps @ [''--'', ''bash''] @ [''-c'', req_Command req]"
    using SeatbeltSandbox_command [OF assms(4)] by auto
  have plain: "\<forall>td \<in> set (eh_tools E). \<forall>d \<in> set (ExecDirs td). plain_quoted d"
    using discovered_exec_plain assms(3) by simp
  note m = prepared_mounts [OF handleRun_start_Inr(2) [OF assms(1)] assms(2), of "\<lambda>p. True"]
  have srcs: "Source ` {m \<in> set (MountDirs (rs_config rs)). \<not> MetadataOnly m} = grants_read cfg req"
    "Source ` {m \<in> set (MountDirs (rs_config rs)). \<not> MetadataOnly m \<and> \<not> ReadOnly m} = grants_write cfg req"
    using m by simp_all
  from policy_read [OF p(1) plain, unfolded srcs] show ?thesis
  proof (elim exE conjE)
    fix cd fs
    assume f: "ps = policy_params (eh_tools E) (MountDirs (rs_config rs)) cd"
    have "sandbox_exec_args (cmd_args cmd) = Some ([policy], param_assignments ps, [''bash'', ''-c'', req_Command req])"
      unfolding p(2) by (rule policy_args_read [OF f])
    moreover assume "eh_cachedir E = Some cd" "sbpl_forms policy = Some fs" "denials fs = [[Sym ''default'']]"
      "set (granted (map_of (param_assignments ps)) ''file-read-data'' fs) =
        set (template_reads cd) \<union> Below ` (grants_read cfg req \<union> set (tool_reads (eh_tools E) {}))"
      "\<forall>op. strings_HasPrefix op ''file-write'' \<longrightarrow> set (granted (map_of (param_assignments ps)) op fs) =
        set (if op = ''file-write-data'' then template_writes cd else template_changes cd) \<union> Below ` grants_write cfg req"
    ultimately show ?thesis by (intro exI conjI)
  qed
qed

theorem command_files_confined_darwin_witness:
  "\<exists>cmd policy params fs. cmd \<in> set (starts (snd (SeatbeltSandbox_Exec \<lparr>sb_Timeout = 0\<rparr>
       (sample_env\<lparr>eh_tools := discoverToolDirs sample_host\<rparr>) ''make'' (Some sample_exec_config))))
     \<and> sandbox_exec_args (cmd_args cmd) = Some ([policy], params, [''bash'', ''-c'', ''make''])
     \<and> sbpl_forms policy = Some fs
     \<and> set (granted (map_of params) ''file-write-create'' fs) =
         set (template_changes ''/c'') \<union> {Below ''/data'', Below ''/work''}"
proof -
  let ?E = "sample_env\<lparr>eh_tools := discoverToolDirs sample_host\<rparr>"
  obtain rs tv where rs: "handleRun_start sample_review sample_host 0 sample_cluster_config
     (daemon_validator sample_cluster_config) sample_request = (Inr rs, tv)" "rs_config rs = sample_exec_config"
    using sample_start by blast
  have h: "eh_host ?E = sample_host" "eh_tools ?E = discoverToolDirs (eh_host ?E)" "eh_cachedir ?E = Some ''/c''"
    by (simp_all add: sample_env_def)
  have req: "req_Command sample_request = ''make''" "gomap_ok (req_Env sample_request)"
    by (simp_all add: sample_request_def gomap_ok_def)
  have "\<exists>t ps. buildPolicy (eh_host ?E) (eh_tools ?E) seatbeltBase seatbeltPlatform seatbeltNetwork (eh_cachedir ?E)
      (Some sample_exec_config) = Inr (t, ps)"
    by (simp add: h(3) buildPolicy_def sample_exec_config_def Let_def)
  then obtain t ps where b: "buildPolicy (eh_host ?E) (eh_tools ?E) seatbeltBase seatbeltPlatform seatbeltNetwork
      (eh_cachedir ?E) (Some sample_exec_config) = Inr (t, ps)" by blast
  have "eh_tempdir ?E \<noteq> None" by (simp add: sample_env_def)
  from SeatbeltSandbox_starts [OF b this, of "\<lparr>sb_Timeout = 0\<rparr>" "''make''"]
  obtain cmd where cmd: "cmd \<in> set (starts (snd (SeatbeltSandbox_Exec \<lparr>sb_Timeout = 0\<rparr> ?E ''make'' (Some sample_exec_config))))"
    by blast
  have "filepath_Clean ''/work'' = ''/work''" by code_simp
  then have g: "grants_write sample_cluster_config sample_request = {''/data'', ''/work''}"
    by (auto simp: grants_write_def sample_cluster_config_def sample_request_def)
  have op: "strings_HasPrefix ''file-write-create'' ''file-write''" "''file-write-create'' \<noteq> ''file-write-data''"
    by simp_all
  from command_files_confined_darwin [OF rs(1) req(2) h(2), of cmd "\<lparr>sb_Timeout = 0\<rparr>", unfolded req(1) rs(2) g h(3), OF cmd]
  show ?thesis
  proof (elim exE conjE)
    fix policy params fs cd
    assume w: "Some ''/c'' = Some cd"
      "\<forall>op. strings_HasPrefix op ''file-write'' \<longrightarrow> set (granted (map_of params) op fs) =
        set (if op = ''file-write-data'' then template_writes cd else template_changes cd) \<union> Below ` {''/data'', ''/work''}"
    have "cd = ''/c''" using w(1) by simp
    then have "set (granted (map_of params) ''file-write-create'' fs) =
         set (template_changes ''/c'') \<union> {Below ''/data'', Below ''/work''}"
      using w(2) [rule_format, OF op(1)] op(2) by (simp only: if_False image_insert image_empty)
    moreover assume "sandbox_exec_args (cmd_args cmd) = Some ([policy], params, [''bash'', ''-c'', ''make''])"
      "sbpl_forms policy = Some fs"
    ultimately show ?thesis using cmd by blast
  qed
qed

text \<open>The open daemon of the samples starts the run of the sample client's request.\<close>

lemma sample_open_start:
  "\<exists>rs. handleRun_start sample_review sample_host 0 zero_Config None (request_seen sample_client_request) = (Inr rs, None)
     \<and> rs_stripped rs = [''B'']"
proof -
  have q: "request_seen sample_client_request = \<lparr>req_Command = ''ls'', req_Env = [(''B'', ''1'')], req_AllowedPaths = [],
      req_Network = None, req_Timeout = 0, req_CallerID = [], req_AuthToken = []\<rparr>"
    by (simp add: request_seen_def sample_client_request_def coerce_ascii)
  have "prepare_run sample_host zero_Config (request_seen sample_client_request)
      = Inr (\<lparr>Env = [], MountDirs = [], WorkingDir = ''/tmp''\<rparr>, [''B''])"
    unfolding q by code_simp
  moreover have "authorize sample_review 0 zero_Config None (request_seen sample_client_request) = (Inr (), None)"
    by (rule authorize_open) (simp add: auth_required_def zero_Config_def)
  ultimately show ?thesis by (simp add: handleRun_start_def)
qed

lemma sample_call_ok:
  "chi_documented (app_chi sample_app)" "base_plain sample_client" "gomap_ok (creq_Env sample_client_request)"
  "\<forall>kv \<in> set (creq_Env sample_client_request). valid_utf8 (fst kv)"
  "length (json_text (encode_client_RunRequest sample_client_request)) \<le> 2 ^ 20"
  using sample_chi_documented sample_client_plain sample_client_request_length
  by (simp_all add: sample_app_def sample_client_request_def gomap_ok_def ascii_B)

text \<open>
  C10. What a caller gets of a run, from its call to the execution and back: if the run's wait ends
  at a poll tick, at any reachable state of the job system, then the goroutine has executed the
  command exactly once, and the client's call returns that execution's output cut to 64 KiB (and
  read as UTF-8), its error text and its exit code, the stripped variables and no job id; the
  registry is left alone, and output that the sandbox had already cut is answered as if it had
  not been marked.
\<close>

theorem caller_gets_output:
  assumes "chi_documented (app_chi A)" and "base_plain c" and "gomap_ok (creq_Env q)"
    and "\<forall>kv \<in> set (creq_Env q). valid_utf8 (fst kv)" and "length (json_text (encode_client_RunRequest q)) \<le> 2 ^ 20"
    and "handleRun_start w h now cfg tv (request_seen q) = (Inr rs, tv1)"
    and "handleRun w h now cfg tv (request_seen q) st (obs @ [(Poll_tick, t, js_store s)])
      = Some (fst (run (request_seen q) st), snd (run (request_seen q) st), tv2)"
    and "poll_loop (rs_stripped rs) (length (heap st)) obs = None"
    and "job_reach es s" and "length (heap st) < job_count s"
  shows "\<exists>err out errout code. execs es (length (heap st)) = [(err, out, errout, code)]
    \<and> jobs (snd (run (request_seen q) st)) = jobs (js_store s)
    \<and> (int_range code \<longrightarrow> client_Run (\<lambda>u. True) (run_transport A run now' st) c (Some q) =
        Inr \<lparr>rsp_Stdout = utf8_coerce (job_truncate out), rsp_Stderr = utf8_coerce (job_truncate (stderr_text err errout)),
          rsp_ExitCode = code, rsp_StrippedEnvKeys = map utf8_coerce (rs_stripped rs), rsp_JobID = [], rsp_Status = []\<rparr>)
    \<and> (\<forall>raw. out = truncate_output raw maxOutputBytes \<longrightarrow> job_truncate out = job_truncate raw)"
proof -
  let ?r = "length (heap st)" and ?run = "run (request_seen q) st"
  obtain resp st1 where tick: "poll_round (rs_stripped rs) ?r Poll_tick t (js_store s) = (Some resp, st1)"
      and run: "?run = handleRun_end ?r resp st1"
    using assms(6,7) poll_loop_append [OF assms(8)]
    by (auto simp: handleRun_def Let_def prod_eq_iff split: prod.splits option.splits)
  from poll_tick_response [OF assms(9,10) tick] obtain err out errout code where
    e: "execs es ?r = [(err, out, errout, code)]" "jobs st1 = jobs (js_store s)"
      "resp = Inr \<lparr>rsp_Stdout = job_truncate out, rsp_Stderr = job_truncate (stderr_text err errout), rsp_ExitCode = code,
        rsp_StrippedEnvKeys = rs_stripped rs, rsp_JobID = [], rsp_Status = []\<rparr>" by blast
  have answer: "fst ?run = resp" "jobs (snd ?run) = jobs (js_store s)"
    using run e by (simp_all add: handleRun_end_def)
  moreover have "client_Run (\<lambda>u. True) (run_transport A run now' st) c (Some q) = Inr (response_seen (projr resp))"
    if "int_range code"
    using client_run_call [where run = run and st = st and now = now', OF assms(1-5)] that answer e(3) by (simp add: run_result_ok_def)
  ultimately show ?thesis using e by (auto simp: response_seen_def job_truncate_twice coerce_Nil)
qed

text \<open>A run handler whose wait sees the job done at its first tick.\<close>

definition sample_done_handler :: run_function where
  "sample_done_handler req st =
     (case handleRun sample_review sample_host 0 zero_Config None req st [(Poll_tick, 9, js_store sample_done)] of
        Some (resp, st', tv') \<Rightarrow> (resp, st')
      | None \<Rightarrow> (Inl JobLimitReached, st))"

theorem caller_gets_output_witness:
  "\<exists>rsp. client_Run (\<lambda>u. True) (run_transport sample_app sample_done_handler 9 \<lparr>heap = [], jobs = [], seq = 0\<rparr>)
      sample_client (Some sample_client_request) = Inr rsp \<and> rsp_Stdout rsp = ''hi'' \<and> rsp_ExitCode rsp = -1"
proof -
  let ?st = "\<lparr>heap = [], jobs = [], seq = 0\<rparr> :: job_store" and ?q = "request_seen sample_client_request"
  obtain rs where rs: "handleRun_start sample_review sample_host 0 zero_Config None ?q = (Inr rs, None)"
      "rs_stripped rs = [''B'']" using sample_open_start by blast
  have "job_done (heap (js_store sample_done) ! 0)"
    using sample_done_at(1) by (simp add: job_at_def sample_done_job_def)
  then have h: "handleRun sample_review sample_host 0 zero_Config None ?q ?st ([] @ [(Poll_tick, 9, js_store sample_done)])
      = Some (fst (sample_done_handler ?q ?st), snd (sample_done_handler ?q ?st), None)"
    by (simp add: sample_done_handler_def handleRun_def rs poll_round_def IsDone_def Let_def split: prod.split)
  have x: "execs sample_history 0 = [(None, ''hi'', [], -1)]"
    by (simp add: sample_history_def sample_finish_def execs_def)
  have trunc: "job_truncate ''hi'' = ''hi''" "job_truncate (stderr_text None []) = []"
    by (simp_all add: job_truncate_def job_maxOutputBytes_def stderr_text_def)
  have no: "poll_loop (rs_stripped rs) (length (heap ?st)) [] = None" "length (heap ?st) < job_count sample_done"
    using sample_done_at(2) by simp_all
  from caller_gets_output [where run = sample_done_handler and st = "?st" and obs = "[]" and now' = 9,
      OF sample_call_ok rs(1) h no(1) sample_reach_done no(2)]
  show ?thesis by (auto simp: sample_done_at(2) x trunc int_range_def coerce_ascii)
qed

text \<open>
  C11. What a caller gets of a long run, from its call to its last poll: if the wait ends at the
  threshold, then either the call fails with the daemon's job limit, since the registry is full of
  jobs that may not be dropped, and the job is cancelled; or it returns a new id, and whatever the
  rest of the daemon does then (other runs, kills, readers, timeouts, collections), a later
  \<open>GetJob\<close> of this id answers with this very job: while it runs the status alone, afterwards the output of
  the one execution of its command, cut to 64 KiB, its error text and its exit code. It answers
  that there is no such job only when the result was first read at least five minutes before.
\<close>

theorem caller_polls_background:
  assumes "chi_documented (app_chi A)" and "base_plain c" and "gomap_ok (creq_Env q)"
    and "\<forall>kv \<in> set (creq_Env q). valid_utf8 (fst kv)" and "length (json_text (encode_client_RunRequest q)) \<le> 2 ^ 20"
    and "handleRun_start w h now cfg tv (request_seen q) = (Inr rs, tv1)"
    and "handleRun w h now cfg tv (request_seen q) st (obs @ [(Poll_threshold, js_clock s, js_store s)])
      = Some (fst (run (request_seen q) st), snd (run (request_seen q) st), tv2)"
    and "poll_loop (rs_stripped rs) (length (heap st)) obs = None"
    and "job_reach es s" and "length (heap st) < job_count s" and "job_id (job_at s (length (heap st))) = []"
    and "job_run fs (s\<lparr>js_store := snd (run (request_seen q) st)\<rparr>) s'" and "no_remove fs"
    and "registrations (es @ E_register (length (heap st)) # fs) < 2 ^ 64"
    and "int_range (exitCode (job_at s' (length (heap st))))"
  shows "(client_Run (\<lambda>u. True) (run_transport A run now' st) c (Some q) =
        Inl (HTTPStatus 500 (json_text (error_json (app_render A JobLimitReached))))
      \<and> ctx_cancelled (heap (snd (run (request_seen q) st)) ! length (heap st))
      \<and> 100 \<le> length (jobs (gcLocked (js_clock s) (js_store s))))
    \<or> (\<exists>k. client_Run (\<lambda>u. True) (run_transport A run now' st) c (Some q) =
        Inr \<lparr>rsp_Stdout = [], rsp_Stderr = [], rsp_ExitCode = 0, rsp_StrippedEnvKeys = [],
          rsp_JobID = fmt_06x k, rsp_Status = ''background''\<rparr>
      \<and> Manager_Get (fmt_06x k) (js_store s) = None
      \<and> ((\<exists>info. GetJob (\<lambda>u. True) (get_transport A run later decode_JobInfo ''GET'' (js_store s')) c (fmt_06x k) = Inr info
            \<and> job_answer (es @ fs) s' (length (heap st)) info)
         \<or> GetJob (\<lambda>u. True) (get_transport A run later decode_JobInfo ''GET'' (js_store s')) c (fmt_06x k)
              = Inl (JobNotFound (fmt_06x k)) \<and> read_long_ago s' (length (heap st))))"
proof -
  let ?r = "length (heap st)" and ?run = "run (request_seen q) st"
  obtain resp st1 where "poll_round (rs_stripped rs) ?r Poll_threshold (js_clock s) (js_store s) = (Some resp, st1)"
      and "handleRun_end ?r resp st1 = (fst ?run, snd ?run)"
    using assms(6,7) poll_loop_append [OF assms(8)]
    by (auto simp: handleRun_def Let_def prod_eq_iff split: prod.splits option.splits)
  note polled = background_job_polled [OF assms(9-11) this assms(12-14,1,2,15), of run later]
  note call = client_run_call [where run = run and st = st and now = now', OF assms(1-5)]
  from polled show ?thesis
  proof (rule disjE)
    assume "fst ?run = Inl JobLimitReached \<and> ctx_cancelled (heap (snd ?run) ! ?r)
      \<and> maxBackgroundJobs \<le> length (jobs (gcLocked (js_clock s) (js_store s)))"
    with call show ?thesis by (simp add: run_result_ok_def error_status_def error_text_def maxBackgroundJobs_def)
  next
    let ?bg = "\<lambda>k. \<lparr>rsp_Stdout = [], rsp_Stderr = [], rsp_ExitCode = 0, rsp_StrippedEnvKeys = [],
        rsp_JobID = fmt_06x k, rsp_Status = ''background''\<rparr>"
    have seen: "response_seen (?bg k) = ?bg k" for k by (simp add: response_seen_def coerce_fmt_06x coerce_ascii)
    have "client_Run (\<lambda>u. True) (run_transport A run now' st) c (Some q) = Inr (?bg k)" if "fst ?run = Inr (?bg k)" for k
      using call that seen by (simp add: run_result_ok_def int_range_def)
    moreover assume "\<exists>k. fst ?run = Inr (?bg k) \<and> Manager_Get (fmt_06x k) (js_store s) = None
      \<and> Manager_Get (fmt_06x k) (snd ?run) = Some ?r
      \<and> ((\<exists>info. GetJob (\<lambda>u. True) (get_transport A run later decode_JobInfo ''GET'' (js_store s')) c (fmt_06x k) = Inr info
            \<and> job_answer (es @ fs) s' ?r info)
         \<or> GetJob (\<lambda>u. True) (get_transport A run later decode_JobInfo ''GET'' (js_store s')) c (fmt_06x k)
              = Inl (JobNotFound (fmt_06x k)) \<and> read_long_ago s' ?r)"
    ultimately show ?thesis by blast
  qed
qed

text \<open>A run handler that reaches the threshold while the job still executes.\<close>

definition sample_background_handler :: run_function where
  "sample_background_handler req st =
     (case handleRun sample_review sample_host 0 zero_Config None req st [(Poll_threshold, 0, js_store sample_spawned)] of
        Some (resp, st', tv') \<Rightarrow> (resp, st')
      | None \<Rightarrow> (Inl JobLimitReached, st))"

theorem caller_polls_background_witness:
  "\<exists>rsp info. client_Run (\<lambda>u. True) (run_transport sample_app sample_background_handler 0 \<lparr>heap = [], jobs = [], seq = 0\<rparr>)
      sample_client (Some sample_client_request) = Inr rsp \<and> rsp_Status rsp = ''background''
    \<and> GetJob (\<lambda>u. True) (get_transport sample_app sample_background_handler 9 decode_JobInfo ''GET'' (js_store sample_done))
      sample_client (rsp_JobID rsp) = Inr info \<and> cji_Status info = ''killed'' \<and> cji_Stdout info = ''hi''"
proof -
  let ?st = "\<lparr>heap = [], jobs = [], seq = 0\<rparr> :: job_store" and ?q = "request_seen sample_client_request"
  let ?es = "[E_spawn 60 ''me'' ''sleep 9'']" and ?fs = "[E_kill ''000001''] @ sample_finish"
  obtain rs where rs: "handleRun_start sample_review sample_host 0 zero_Config None ?q = (Inr rs, None)"
    using sample_open_start by blast
  have add: "Manager_Add 0 0 (js_store sample_spawned) = (True, js_store sample_registered)"
    by (simp add: sample_spawned_simps Manager_Add_def gcLocked_def maxBackgroundJobs_def Let_def modify_job_def
        fmt_06x_1 sample_registered_def sample_sys_def sample_store_def)
  have "sample_background_handler ?q ?st = (Inr \<lparr>rsp_Stdout = [], rsp_Stderr = [], rsp_ExitCode = 0,
      rsp_StrippedEnvKeys = [], rsp_JobID = ''000001'', rsp_Status = ''background''\<rparr>, js_store sample_registered)"
    and h: "handleRun sample_review sample_host 0 zero_Config None ?q ?st
      ([] @ [(Poll_threshold, js_clock sample_spawned, js_store sample_spawned)])
      = Some (fst (sample_background_handler ?q ?st), snd (sample_background_handler ?q ?st), None)"
    using add by (simp_all add: sample_background_handler_def handleRun_def rs poll_round_def handleRun_end_def)
      (simp_all add: handleRun_end_def sample_spawned_def sample_registered_def sample_sys_def sample_store_def)
  then have "sample_spawned\<lparr>js_store := snd (sample_background_handler ?q ?st)\<rparr> = sample_registered"
    by (simp add: sample_spawned_def sample_registered_def sample_sys_def)
  then have run: "job_run ?fs (sample_spawned\<lparr>js_store := snd (sample_background_handler ?q ?st)\<rparr>) sample_done"
    using job_run_append [OF sample_run job_run_1 [OF sample_kill]] by simp
  have reg: "no_remove ?fs" "registrations (?es @ E_register (length (heap ?st)) # ?fs) < 2 ^ 64"
    by (simp_all add: no_remove_def registrations_def is_register_def sample_finish_def)
  have at: "length (heap ?st) < job_count sample_spawned" "job_id (job_at sample_spawned (length (heap ?st))) = []"
    "poll_loop (rs_stripped rs) (length (heap ?st)) [] = None" "int_range (exitCode (job_at sample_done (length (heap ?st))))"
    by (simp_all add: sample_spawned_simps sample_done_at sample_done_job_def int_range_def)
  have x: "execs (?es @ ?fs) 0 = [(None, ''hi'', [], -1)]" by (simp add: sample_finish_def execs_def)
  have no: "\<not> read_long_ago sample_done 0" "\<not> 100 \<le> length (jobs (gcLocked 0 (js_store sample_spawned)))"
    by (simp_all add: read_long_ago_def sample_done_at sample_done_job_def sample_written_job_def sample_job_def
        newBackgroundJob_def sample_spawned_simps gcLocked_def)
  have st: "status (job_at sample_done 0) = JobStatusKilled" by (simp add: sample_done_at sample_done_job_def)
  have hi: "utf8_coerce (job_truncate ''hi'') = ''hi''"
    by (simp add: job_truncate_def job_maxOutputBytes_def coerce_ascii)
  have clock: "js_clock sample_spawned = 0" by (simp add: sample_spawned_def)
  note c = caller_polls_background [where run = sample_background_handler and st = "?st" and obs = "[]" and now' = 0
      and later = 9 and fs = ?fs, OF sample_call_ok rs h at(3) sample_reach_spawned at(1,2) run reg at(4)]
  obtain k info where
    "client_Run (\<lambda>u. True) (run_transport sample_app sample_background_handler 0 ?st) sample_client (Some sample_client_request)
      = Inr \<lparr>rsp_Stdout = [], rsp_Stderr = [], rsp_ExitCode = 0, rsp_StrippedEnvKeys = [], rsp_JobID = fmt_06x k,
          rsp_Status = ''background''\<rparr>"
    "GetJob (\<lambda>u. True) (get_transport sample_app sample_background_handler 9 decode_JobInfo ''GET'' (js_store sample_done))
      sample_client (fmt_06x k) = Inr info" "job_answer (?es @ ?fs) sample_done 0 info"
    using c no by (auto simp: clock)
  then show ?thesis by (auto simp: job_answer_def st x [simplified] hi)
qed

text \<open>
  C7. The handlers do to the jobs what their requests mean, and nothing else. What the daemon keeps
  is a book with an entry for each id and a page for each job, and each handler is one operation
  of the book, with the same answer: a start opens a page; a round of the wait answers with the
  page's output once the job is over and notes the reading, enrols the job at the threshold under
  the next id, after striking the entries read five minutes ago, or stops it where 100 are left,
  and stops it when the request ends; the end of a request stops the job unless its answer has an
  id; a read answers with the page of the id and notes the reading; a kill stops the job and
  answers with its page, or refuses. And each is a known list of events of the job system, so
  that every invariant of its histories holds between the requests of the daemon.
\<close>

theorem handlers_refine_jobs:
  assumes "job_reach es s" "registrations es < 2 ^ 64" "r < job_count s" "job_id (job_at s r) = []"
  defines "B \<equiv> book_of (js_store s)"
  shows "carries_out s (round_events r ev (js_clock s) B) (poll_round stripped r ev (js_clock s) (js_store s))
      (book_round stripped r ev (js_clock s) B)
    \<and> carries_out s (end_events r resp) (handleRun_end r resp (js_store s)) (book_end r resp B)
    \<and> carries_out s (get_events i B) (handleHTTPJobGet (js_clock s) i (js_store s)) (book_get (js_clock s) i B)
    \<and> carries_out s (kill_events i B) (handleHTTPJobKill (js_clock s) i (js_store s)) (book_kill (js_clock s) i B)
    \<and> (handleRun_start w h (js_clock s) cfg tv req = (Inr rs, tv') \<longrightarrow>
         (let st' = (js_store s)\<lparr>heap := heap (js_store s) @ [rs_job rs]\<rparr> in
          book_of st' = book_start (js_clock s) req B
          \<and> job_run [E_spawn (sint (run_timeout req)) (req_CallerID req) (req_Command req)] s
              (s\<lparr>js_store := st', js_work := js_work s @ [Executing]\<rparr>)))"
proof -
  have inv: "registry_inv (js_store s)" using registry_ok_reach [OF assms(1,2)] by (simp add: registry_ok_def)
  have start: "book_of ((js_store s)\<lparr>heap := heap (js_store s) @ [rs_job rs]\<rparr>) = book_start (js_clock s) req B"
    if "handleRun_start w h (js_clock s) cfg tv req = (Inr rs, tv')"
    by (simp add: B_def book_of_def book_start_def page_of_def newBackgroundJob_def handleRun_start_Inr(3) [OF that])
  show ?thesis
    using poll_round_book [OF inv assms(3,4), of ev stripped] handleRun_end_book [OF assms(3), of resp]
      handleHTTPJobGet_book [OF inv, of i] handleHTTPJobKill_book [OF inv, of i] start job_run_1 [OF handleRun_start_spawn]
    unfolding B_def Let_def by blast
qed

theorem handlers_refine_jobs_witness:
  "carries_out sample_spawned [E_register 0]
     (poll_round [] 0 Poll_threshold 0 (js_store sample_spawned))
     (Some (Inr \<lparr>rsp_Stdout = [], rsp_Stderr = [], rsp_ExitCode = 0, rsp_StrippedEnvKeys = [],
        rsp_JobID = ''000001'', rsp_Status = ''background''\<rparr>),
      \<lparr>entries = [''000001'' \<mapsto> 0], pages = [(page_of sample_job)\<lparr>pg_id := ''000001''\<rparr>], issued = 1\<rparr>)"
proof -
  let ?B = "book_of (js_store sample_spawned)"
  have "strike 0 ?B = ?B" by (simp add: sample_spawned_simps strike_def book_of_def)
  then have e: "enrol 0 0 ?B = (Some ''000001'', \<lparr>entries = [''000001'' \<mapsto> 0],
      pages = [(page_of sample_job)\<lparr>pg_id := ''000001''\<rparr>], issued = 1\<rparr>)"
    by (simp add: sample_spawned_simps enrol_def book_of_def Let_def fmt_06x_1 [simplified])
  have "js_clock sample_spawned = 0" by (simp add: sample_spawned_def)
  with handlers_refine_jobs [OF sample_reach_spawned, of 0 Poll_threshold "[]"] e show ?thesis
    by (simp add: sample_spawned_simps(1-3))
qed

text \<open>
  A kill request does what it says: an unknown id is answered 404 and a finished job 409, both
  without any change; otherwise the answer is 200, the job's context is cancelled, the registry
  and all other jobs stay as they are, and if the job's goroutine has not yet looked at the
  context, then however the system goes on the job ends as killed, never as completed.
\<close>

theorem kill_request:
  assumes "job_reach es s" "registrations es < 2 ^ 64"
    and "handleHTTPJobKill (js_clock s) i (js_store s) = (resp, st')"
  shows "case Manager_Get i (js_store s) of
      None \<Rightarrow> http_status resp = 404 \<and> st' = js_store s
    | Some r \<Rightarrow>
        if job_done (job_at s r) then http_status resp = 409 \<and> st' = js_store s
        else http_status resp = 200 \<and> ctx_cancelled (heap st' ! r) \<and> jobs st' = jobs (js_store s)
          \<and> (\<forall>q. q \<noteq> r \<longrightarrow> heap st' ! q = heap (js_store s) ! q)
          \<and> (\<forall>fs s'. js_work s ! r \<in> insert Executing (range Wrote) \<longrightarrow>
               job_run fs (s\<lparr>js_store := st'\<rparr>) s' \<longrightarrow> job_done (job_at s' r) \<longrightarrow>
               status (job_at s' r) = JobStatusKilled)"
proof (cases rule: handleHTTPJobKill_cases [of i "js_store s" "js_clock s"])
  case missing
  with assms(3) show ?thesis by auto
next
  case (finished r)
  with assms(3) show ?thesis by (auto simp: job_at_def)
next
  case (killed r st1)
  let ?s1 = "s\<lparr>js_store := st'\<rparr>"
  have inv: "registry_inv (js_store s)" using registry_ok_reach [OF assms(1,2)] by (simp add: registry_ok_def)
  have r: "r < length (heap (js_store s))" using registry_entry [OF inv killed(1)] by simp
  have st': "http_status resp = 200" "st' = modify_job r (\<lambda>j. snd (snapshot (js_clock s) True j)) st1"
    using killed(5) assms(3) by auto
  have h: "heap st' ! r = snd (snapshot (js_clock s) True ((heap (js_store s) ! r)\<lparr>ctx_cancelled := True\<rparr>))"
    using r by (simp add: st'(2) killed(3) heap_modify_job)
  have other: "heap st' ! q = heap (js_store s) ! q" if "q \<noteq> r" for q
    using that by (simp add: st'(2) killed(3) modify_job_def)
  have cancelled: "ctx_cancelled (heap st' ! r)" using h by simp
  have run: "\<exists>fs. job_run fs s ?s1"
    using handleHTTPJobKill_book [OF inv, of i] assms(3) by (cases "book_kill (js_clock s) i (book_of (js_store s))") auto
  have ok: "jobs_ok ?s1" using run jobs_ok_run jobs_ok_reach [OF assms(1)] by blast
  have r1: "r < job_count ?s1" using r by (simp add: job_count_def st'(2) killed(3))
  have "status (job_at s' r) = JobStatusKilled"
    if "js_work s ! r \<in> insert Executing (range Wrote)" "job_run fs ?s1 s'" "job_done (job_at s' r)" for fs s'
  proof -
    have "doomed ?s1 r" using that(1) cancelled by (auto simp: doomed_def job_at_def)
    then have d: "doomed s' r" using doomed_run [OF that(2) ok r1] by blast
    have ok': "jobs_ok s'" "r < job_count s'"
      using jobs_ok_run [OF that(2) ok] job_run_after [OF that(2) ok r1] by blast+
    from doomed_status [OF ok' d] jobs_ok_at [OF ok'] that(3) show ?thesis
      by (auto simp: job_ok_def before_finish_def)
  qed
  with killed(1,2) st' cancelled other show ?thesis by (simp add: job_at_def killed(3))
qed

theorem kill_request_witness:
  "http_status (fst (handleHTTPJobKill (js_clock sample_registered) ''000001'' (js_store sample_registered))) = 200"
proof -
  obtain resp st' where k: "handleHTTPJobKill (js_clock sample_registered) ''000001'' (js_store sample_registered) = (resp, st')"
    by fastforce
  have "Manager_Get ''000001'' (js_store sample_registered) = Some 0" "\<not> job_done (job_at sample_registered 0)"
    by (simp_all add: sample_registered_def sample_sys_def sample_store_def Manager_Get_def job_at_def
        sample_job_def newBackgroundJob_def)
  with kill_request [OF sample_reach_registered _ k] k show ?thesis
    by (simp add: registrations_def is_register_def)
qed

text \<open>
  C33. The time limit of a run is the one asked for: a request for \<open>n\<close> seconds gets a job whose
  context ends exactly \<open>n\<close> seconds after its start, for every \<open>n\<close> up to 9223372036 (the range
  in which the multiplication does not wrap), and a request without a limit gets 20 minutes.
\<close>

theorem run_deadline:
  assumes "handleRun_start w h now cfg tv req = (Inr rs, tv')" "n \<le> 9223372036" "req_Timeout req = of_nat n"
  shows "ctx_deadline (rs_job rs) = now + (if n = 0 then 1200 else int n) * 1000000000
    \<and> \<not> ctx_cancelled (rs_job rs) \<and> status (rs_job rs) = JobStatusRunning"
proof -
  have "sint (run_timeout req) = (if n = 0 then 1200 else int n) * 1000000000"
    using run_timeout_exact [OF _ assms(2,3)] assms(3)
    by (cases "n = 0") (simp_all add: run_timeout_def defaultRunTimeout_def seconds_ns_def)
  then show ?thesis by (simp add: handleRun_start_Inr(3) [OF assms(1)] newBackgroundJob_def)
qed

theorem run_deadline_witness:
  "\<exists>rs tv. handleRun_start sample_review sample_host 0 sample_cluster_config
     (daemon_validator sample_cluster_config) sample_request = (Inr rs, tv) \<and> ctx_deadline (rs_job rs) = 60 * 1000000000"
proof -
  obtain rs tv where "handleRun_start sample_review sample_host 0 sample_cluster_config
     (daemon_validator sample_cluster_config) sample_request = (Inr rs, tv)"
    using sample_start by blast
  with run_deadline [OF this, of 60] show ?thesis by (simp add: sample_request_def)
qed

text \<open>
  C20. The memory limit, end to end: a Linux daemon started with a positive limit in MiB has set up
  the cgroup hierarchy, or it would not have started, and whatever command it runs later runs
  inside a fresh cgroup created with that limit and removed afterwards.
\<close>

theorem daemon_memory_limit:
  assumes "daemon_Run D memMB cg = (Inr d, cg', ops)" "0 < sint memMB" "goos (dh_host D) = ''linux''"
    and "dh_New D = New_linux found (dh_host D)" "eh_cg_world E = dh_cgroups D"
    and "cmd \<in> set (starts (snd (fst (Sandbox_Exec (sd_sandbox d) E cg' com cfg))))"
  shows "\<exists>p run. cmd_cgroup cmd = Some p \<and> starts run = [cmd] \<and> cmd_path cmd = ''bwrap''
    \<and> snd (fst (Sandbox_Exec (sd_sandbox d) E cg' com cfg)) =
        [Ev_CgroupCreate p (memLimit memMB), Ev_CgroupOpen p True] @ run
        @ [Ev_CgroupKill p, Ev_CgroupClose p, Ev_CgroupDelete p]"
proof -
  let ?s = "\<lparr>BwrapPath = ''bwrap'', bw_Timeout = DefaultTimeout, MemoryLimitMB = memMB,
    KubernetesMode = Enabled (Kubernetes (sd_config d))\<rparr>"
  have "sd_sandbox d = New_linux found (dh_host D) (daemon_options (sd_config d) memMB)"
    using daemon_Run_started [OF assms(1)] assms(4) by simp
  then have s: "sd_sandbox d = IsBwrap ?s"
    using assms(6) by (auto simp: New_linux_daemon UnavailableSandbox_Exec_def split: if_splits)
  have path: "cmd_path cmd = ''bwrap''"
    using assms(6) s BwrapSandbox_cmd_path [of cmd ?s E cg' com cfg] by simp
  have avail: "fst (cgroupAvailable (eh_cg_world E) cg')"
    using Run_memory_ready [OF assms(1-3)] by simp
  from BwrapSandbox_limited [of ?s E cg' cmd com cfg] avail assms(2,6) s path show ?thesis by auto
qed

theorem daemon_memory_limit_witness:
  "\<exists>d ops cmd p. daemon_Run (sample_daemon (Inr sample_file)) 512 cg_initial = (Inr d, sample_cg_ready, ops)
     \<and> cmd \<in> set (starts (snd (fst (Sandbox_Exec (sd_sandbox d) sample_env sample_cg_ready ''ls'' None))))
     \<and> cmd_cgroup cmd = Some p"
proof -
  obtain d ops where d: "daemon_Run (sample_daemon (Inr sample_file)) 512 cg_initial = (Inr d, sample_cg_ready, ops)"
    "sd_sandbox d = New_linux (\<lambda>_. True) sample_host (daemon_options (sd_config d) 512)"
    using sample_Run by metis
  let ?s = "\<lparr>BwrapPath = ''bwrap'', bw_Timeout = DefaultTimeout, MemoryLimitMB = 512,
    KubernetesMode = Enabled (Kubernetes (sd_config d))\<rparr>"
  have "sd_sandbox d = IsBwrap ?s" using d(2) by (simp add: New_linux_daemon)
  then obtain cmd where cmd: "cmd \<in> set (starts (snd (fst (Sandbox_Exec (sd_sandbox d) sample_env sample_cg_ready ''ls'' None))))"
    using sample_limited_starts [of ?s "''ls''" None] by auto
  have "goos (dh_host (sample_daemon (Inr sample_file))) = ''linux''"
    "dh_New (sample_daemon (Inr sample_file)) = New_linux (\<lambda>_. True) (dh_host (sample_daemon (Inr sample_file)))"
    "eh_cg_world sample_env = dh_cgroups (sample_daemon (Inr sample_file))"
    by (simp_all add: sample_daemon_def sample_env_def sample_linux)
  from daemon_memory_limit [OF d(1) _ this cmd] d(1) cmd show ?thesis by auto
qed

text \<open>
  C34. The socket is private before it serves, and the client finds it: a daemon that listens on a
  Unix socket has removed a stale one, bound the path and restricted it to its owner before
  the first request, and a client in the same environment dials that very path; on TCP the
  client's base URL is the address the daemon listens on.
\<close>

theorem client_reaches_daemon:
  assumes "daemon_Run D memMB cg = (Inr d, cg', ops)" "client_New (dh_host D) [] = Inr c" "sd_addr d \<noteq> []"
  shows "sd_network d = ''unix'' \<and> dial_unix c = Some (sd_addr d) \<and> baseURL c = ''http://temenos''
      \<and> ops = [Op_Remove (sd_addr d), Op_Listen ''unix'' (sd_addr d) True,
               Op_Chmod (sd_addr d) mode_0600 True, Op_Serve]
    \<or> sd_network d = ''tcp'' \<and> dial_unix c = None
      \<and> baseURL c = (if strings_HasPrefix (sd_addr d) ''http://'' then strings_TrimSuffix (sd_addr d) ''/''
          else ''http://'' @ sd_addr d)"
proof -
  obtain addr where a: "listenAddr (dh_host D) = Some addr" "parseListenAddr addr = (sd_network d, sd_addr d)"
    "listenHTTP (dh_listen_ok D) (dh_chmod_ok D) addr = (True, ops)"
    using daemon_Run_started [OF assms(1)] by blast
  have addr: "sd_addr d = addr" using a(2) by (auto simp: parseListenAddr_def split: if_splits)
  show ?thesis
    using client_New_resolved [OF assms(2) a(1)] assms(3) a(2,3) listenHTTP_unix [of _ _ addr ops] addr by auto
qed

theorem client_reaches_daemon_witness:
  "\<exists>d ops c. daemon_Run (sample_daemon (Inr sample_file)) 512 cg_initial = (Inr d, sample_cg_ready, ops)
     \<and> client_New sample_host [] = Inr c \<and> dial_unix c = Some sample_socket
     \<and> Op_Chmod sample_socket mode_0600 True \<in> set ops"
proof -
  obtain d ops where d: "daemon_Run (sample_daemon (Inr sample_file)) 512 cg_initial = (Inr d, sample_cg_ready, ops)"
    "sd_addr d = sample_socket" "sd_network d = ''unix''"
    using sample_Run by metis
  have ne: "sample_socket \<noteq> []" by (simp add: sample_socket_def)
  have "client_New sample_host [] = Inr \<lparr>baseURL = ''http://temenos'', dial_unix = Some sample_socket\<rparr>"
    by code_simp
  then obtain c where c: "client_New sample_host [] = Inr c" by blast
  then have "client_New (dh_host (sample_daemon (Inr sample_file))) [] = Inr c" by (simp add: sample_daemon_def)
  from client_reaches_daemon [OF d(1) this] d c ne show ?thesis by auto
qed

text \<open>
  C38. The authorization fails open: if the configuration file does not load, the daemon starts
  with the zero configuration, and then it has no validator, refuses no request for want of a
  token, and creates its sandbox outside Kubernetes mode, whatever the file says.
\<close>

theorem config_error_opens_gate:
  assumes "daemon_Run D memMB cg = (Inr d, cg', ops)" "Load (dh_host D) (dh_decode D) [] = Inl e"
  shows "sd_config d = zero_Config \<and> sd_validator d = None
    \<and> authorize w now (sd_config d) (sd_validator d) req = (Inr (), sd_validator d)
    \<and> sd_sandbox d = dh_New D \<lparr>op_BwrapPath = [], op_Timeout = DefaultTimeout, AllowUnsandboxed = False,
         op_MemoryLimitMB = memMB, op_KubernetesMode = False\<rparr>"
proof -
  have c: "sd_config d = zero_Config" using daemon_Run_started [OF assms(1)] assms(2) by (simp add: daemon_config_def)
  have off: "\<not> Enabled (Kubernetes zero_Config)" by (simp add: zero_Config_def)
  have v: "sd_validator d = None"
    using daemon_Run_started [OF assms(1)] c off by (simp add: daemon_validator_def)
  have a: "authorize w now zero_Config tv req = (Inr (), tv)" for tv
    by (rule authorize_open) (use off in \<open>simp add: auth_required_def\<close>)
  show ?thesis
    using daemon_Run_started [OF assms(1)] c v a off by (simp add: daemon_options_def)
qed

theorem config_error_opens_gate_witness:
  "\<exists>d ops. daemon_Run (sample_daemon (Inl ''bad'')) 512 cg_initial = (Inr d, sample_cg_ready, ops)
     \<and> fst (authorize sample_review 0 (sd_config d) (sd_validator d) (sample_request\<lparr>req_AuthToken := []\<rparr>)) = Inr ()"
proof -
  obtain d ops where d: "daemon_Run (sample_daemon (Inl ''bad'')) 512 cg_initial = (Inr d, sample_cg_ready, ops)"
    using sample_Run by metis
  have "Load (dh_host (sample_daemon (Inl ''bad''))) (dh_decode (sample_daemon (Inl ''bad''))) [] =
      Inl (DecodeError ''bad'')"
    by code_simp
  from config_error_opens_gate [OF d this, of sample_review 0 "sample_request\<lparr>req_AuthToken := []\<rparr>"] d
  show ?thesis by (metis fst_conv)
qed

end
